(* ===== verification/Prelude.thy ===== *)
theory Prelude
  imports Main "HOL-Library.Word" "HOL-Library.Monad_Syntax"
begin

section \<open>Machine integers, byte lists and undefined behaviour\<close>

text \<open>
  What every other theory shares: the machine integer types, the byte order helpers, bounded
  writes into fixed buffers, and the reading of \<^emph>\<open>undefined behaviour\<close>. A C operation that may
  leave the defined part of the language (a copy past the end of an array, a shift by more than
  the width, a conversion of a float that does not fit) returns an \<open>option\<close>: \<open>None\<close> says that
  the C program has no defined continuation there. Sequencing is the monad of
  \<open>option\<close> from the library.
\<close>

unbundle bit_operations_syntax

subsection \<open>Types and collections of lemmas\<close>

type_synonym u8 = "8 word"
type_synonym u16 = "16 word"
type_synonym u32 = "32 word"
type_synonym u64 = "64 word"

named_theorems frame_simps \<open>what an operation leaves unchanged\<close>
named_theorems eval_simps \<open>definitions unfolded to evaluate a concrete run\<close>

lemma unat_u8: "unat (x :: u8) < 256"
  by (rule less_le_trans [OF unsigned_less]) simp

lemma unat_u16: "unat (x :: u16) < 65536"
  by (rule less_le_trans [OF unsigned_less]) simp

subsection \<open>Sizes and truncating division\<close>

text \<open>The decrement of a \<^verbatim>\<open>size_t\<close>, which wraps at zero.\<close>

definition size_dec :: "nat \<Rightarrow> nat" where
  "size_dec n = (if n = 0 then 2 ^ 64 - 1 else n - 1)"

lemma size_dec_Suc [simp]: "size_dec (Suc n) = n"
  by (simp add: size_dec_def)

lemma size_dec_pos [simp]: "0 < n \<Longrightarrow> size_dec n = n - 1"
  by (simp add: size_dec_def)

text \<open>C's division of signed integers rounds towards zero.\<close>

definition cdiv :: "int \<Rightarrow> int \<Rightarrow> int" where
  "cdiv a b = sgn a * sgn b * (\<bar>a\<bar> div \<bar>b\<bar>)"

lemma cdiv_pos [simp]: "0 \<le> a \<Longrightarrow> 0 < b \<Longrightarrow> cdiv a b = a div b"
  by (cases "a = 0") (auto simp: cdiv_def)

lemma cdiv_neg: "a < 0 \<Longrightarrow> 0 < b \<Longrightarrow> cdiv a b = - ((- a) div b)"
  by (simp add: cdiv_def)

subsection \<open>Bytes of a machine word, most significant first\<close>

definition byte_at :: "nat \<Rightarrow> 'a::len word \<Rightarrow> u8" where
  "byte_at k x = ucast (drop_bit k x)"

definition be16 :: "u16 \<Rightarrow> u8 list" where
  "be16 x = [byte_at 8 x, byte_at 0 x]"

definition be32 :: "u32 \<Rightarrow> u8 list" where
  "be32 x = [byte_at 24 x, byte_at 16 x, byte_at 8 x, byte_at 0 x]"

definition of_be16 :: "u8 \<Rightarrow> u8 \<Rightarrow> u16" where
  "of_be16 a b = push_bit 8 (ucast a) OR ucast b"

definition of_be32 :: "u8 \<Rightarrow> u8 \<Rightarrow> u8 \<Rightarrow> u8 \<Rightarrow> u32" where
  "of_be32 a b c d =
     push_bit 24 (ucast a) OR push_bit 16 (ucast b) OR push_bit 8 (ucast c) OR ucast d"

lemma length_be16 [simp]: "length (be16 x) = 2"
  by (simp add: be16_def)

lemma length_be32 [simp]: "length (be32 x) = 4"
  by (simp add: be32_def)

lemma of_be16_bytes [simp]: "of_be16 (byte_at 8 x) (byte_at 0 x) = x"
  by (rule bit_word_eqI) (auto simp: of_be16_def byte_at_def bit_simps)

lemma of_be32_bytes [simp]:
  "of_be32 (byte_at 24 x) (byte_at 16 x) (byte_at 8 x) (byte_at 0 x) = x"
proof (rule bit_word_eqI)
  fix n assume "n < LENGTH(32)"
  then consider "n < 8" | "8 \<le> n" "n < 16" | "16 \<le> n" "n < 24" | "24 \<le> n" "n < 32"
    by force
  then show "bit (of_be32 (byte_at 24 x) (byte_at 16 x) (byte_at 8 x) (byte_at 0 x)) n = bit x n"
    by cases (auto simp: of_be32_def byte_at_def bit_simps)
qed

lemma bytes_of_be32 [simp]:
  "byte_at 24 (of_be32 a b c d) = a" "byte_at 16 (of_be32 a b c d) = b"
  "byte_at 8 (of_be32 a b c d) = c" "byte_at 0 (of_be32 a b c d) = d"
  by (rule bit_word_eqI; auto simp: of_be32_def byte_at_def bit_simps dest: bit_imp_le_length)+

lemma bytes_of_be16 [simp]:
  "byte_at 8 (of_be16 a b) = a" "byte_at 0 (of_be16 a b) = b"
  by (rule bit_word_eqI; auto simp: of_be16_def byte_at_def bit_simps dest: bit_imp_le_length)+

subsection \<open>Bounded copies\<close>

text \<open>
  \<^verbatim>\<open>memcpy(&dst[off], src, n)\<close>: defined only when both ranges are inside their arrays.
\<close>

definition copy_into :: "'a list \<Rightarrow> nat \<Rightarrow> 'a list \<Rightarrow> nat \<Rightarrow> 'a list option" where
  "copy_into dst off src n =
     (if n \<le> length src \<and> off + n \<le> length dst
      then Some (take off dst @ take n src @ drop (off + n) dst) else None)"

lemma copy_into_Some_iff:
  "(\<exists>d. copy_into dst off src n = Some d) \<longleftrightarrow> n \<le> length src \<and> off + n \<le> length dst"
  by (simp add: copy_into_def)

lemma copy_into_length: "copy_into dst off src n = Some d \<Longrightarrow> length d = length dst"
  by (auto simp: copy_into_def split: if_splits)

lemma copy_into_take:
  "copy_into dst off src n = Some d \<Longrightarrow> take (off + n) d = take off dst @ take n src"
  by (auto simp: copy_into_def min_def split: if_splits)

text \<open>\<^verbatim>\<open>buf[i] = x\<close> on an array: undefined outside it.\<close>

definition store_at :: "'a list \<Rightarrow> nat \<Rightarrow> 'a \<Rightarrow> 'a list option" where
  "store_at buf i x = (if i < length buf then Some (buf[i := x]) else None)"

definition read_at :: "'a list \<Rightarrow> nat \<Rightarrow> 'a option" where
  "read_at buf i = (if i < length buf then Some (buf ! i) else None)"

lemma take_Suc_update: "i < length buf \<Longrightarrow> take (Suc i) (buf[i := x]) = take i buf @ [x]"
  by (simp add: take_Suc_conv_app_nth)

end
