(* ===== verification/CFloat.thy ===== *)
theory CFloat
  imports Prelude Complex_Main
begin

section \<open>C floating point\<close>

text \<open>
  The code computes airtime, channel use and symbol times in \<^verbatim>\<open>float\<close> and \<^verbatim>\<open>double\<close>. A finite
  float is modelled by the rational it denotes, with the two infinities and NaN beside it; every
  operation of the source is the exact operation followed by the rounding of IEEE 754
  (round to nearest, ties to even, gradual underflow, overflow to infinity). The two zeros are
  one value: no expression of the program divides by a negative zero or prints a sign. Where C
  leaves a conversion to an integer undefined (the truncated value does not fit), the conversion
  returns \<open>None\<close>. Everything computes by \<open>simp\<close> on numerals.
\<close>

subsection \<open>The binary exponent of a positive rational\<close>

fun blen :: "nat \<Rightarrow> nat" where
  "blen n = (if n = 0 then 0 else Suc (blen (n div 2)))"

declare blen.simps [simp del]

lemma blen_0 [simp]: "blen 0 = 0"
  by (simp add: blen.simps)

lemma blen_step [simp]: "0 < n \<Longrightarrow> blen n = Suc (blen (n div 2))"
  by (subst blen.simps) simp

lemma blen_upper: "n < 2 ^ blen n"
proof (induction n rule: blen.induct)
  case (1 n)
  then show ?case by (cases "n = 0") auto
qed

lemma blen_lower: "0 < n \<Longrightarrow> 2 ^ (blen n - 1) \<le> n"
proof (induction n rule: blen.induct)
  case (1 n)
  show ?case
  proof (cases "n div 2 = 0")
    case True
    with "1.prems" show ?thesis by simp
  next
    case False
    with 1 have "2 ^ (blen (n div 2) - 1) \<le> n div 2" by simp
    moreover from False have "0 < blen (n div 2)" by simp
    ultimately have "2 ^ blen (n div 2) \<le> 2 * (n div 2)"
      by (metis Suc_diff_1 mult_le_mono2 power_Suc)
    with "1.prems" show ?thesis by simp
  qed
qed

definition ilog2 :: "rat \<Rightarrow> int" where
  "ilog2 x = (if 1 \<le> x then int (blen (nat \<lfloor>x\<rfloor>)) - 1
              else - int (blen (nat (\<lceil>1 / x\<rceil> - 1))))"

lemma ilog2_ge1:
  assumes "1 \<le> x"
  shows "2 powi ilog2 x \<le> x" and "x < 2 powi (ilog2 x + 1)"
proof -
  define n where "n = nat \<lfloor>x\<rfloor>"
  have n: "0 < n" "of_nat n \<le> x" "x < of_nat (Suc n)"
    using assms by (simp_all add: n_def le_floor_iff nat_eq_iff) linarith+
  have e: "ilog2 x = int (blen n - 1)" "ilog2 x + 1 = int (blen n)"
    using assms n(1) by (simp_all add: ilog2_def n_def)
  have "(2::rat) ^ (blen n - 1) \<le> of_nat n"
    using blen_lower [OF n(1)] by (metis of_nat_le_iff of_nat_numeral of_nat_power)
  with n(2) show "2 powi ilog2 x \<le> x"
    by (simp only: e(1) power_int_of_nat) 
  have "of_nat (Suc n) \<le> (2::rat) ^ blen n"
    using blen_upper [of n] by (metis Suc_leI of_nat_le_iff of_nat_numeral of_nat_power)
  with n(3) show "x < 2 powi (ilog2 x + 1)"
    by (simp only: e(2) power_int_of_nat)
qed

lemma ilog2_lt1:
  assumes "0 < x" "x < 1"
  shows "2 powi ilog2 x \<le> x" and "x < 2 powi (ilog2 x + 1)"
proof -
  define n where "n = nat (\<lceil>1 / x\<rceil> - 1)"
  have "1 < 1 / x" using assms by (simp add: field_simps)
  then have n: "0 < n" "of_nat n < 1 / x" "1 / x \<le> of_nat (Suc n)"
    by (simp_all add: n_def) linarith+
  have e: "ilog2 x = - int (blen n)" "ilog2 x + 1 = - int (blen n - 1)"
    using assms n(1) by (simp_all add: ilog2_def n_def)
  have "of_nat (Suc n) \<le> (2::rat) ^ blen n"
    using blen_upper [of n] by (metis Suc_leI of_nat_le_iff of_nat_numeral of_nat_power)
  with n(3) have "1 / x \<le> 2 ^ blen n" by linarith
  then show "2 powi ilog2 x \<le> x"
    using assms by (simp add: e(1) power_int_minus field_simps)
  have "(2::rat) ^ (blen n - 1) \<le> of_nat n"
    using blen_lower [OF n(1)] by (metis of_nat_le_iff of_nat_numeral of_nat_power)
  with n(2) have "2 ^ (blen n - 1) < 1 / x" by linarith
  then show "x < 2 powi (ilog2 x + 1)"
    using assms by (simp only: e(2) power_int_minus power_int_of_nat) (simp add: field_simps)
qed

lemma ilog2_bounds:
  assumes "0 < x"
  shows "2 powi ilog2 x \<le> x" and "x < 2 powi (ilog2 x + 1)"
  using assms ilog2_ge1 ilog2_lt1 by (meson not_le)+

lemma ilog2_unique:
  assumes "2 powi k \<le> x" "x < 2 powi (k + 1)"
  shows "ilog2 x = k"
proof -
  have "0 < x" by (rule less_le_trans [OF _ assms(1)]) simp
  note b = ilog2_bounds [OF this]
  have "(2::rat) powi k < 2 powi (ilog2 x + 1)" "(2::rat) powi ilog2 x < 2 powi (k + 1)"
    using assms b by linarith+
  then have "k < ilog2 x + 1" "ilog2 x < k + 1"
    using power_int_increasing [of "ilog2 x + 1" k "2::rat"]
      power_int_increasing [of "k + 1" "ilog2 x" "2::rat"] by linarith+
  then show ?thesis by simp
qed

lemma floor_frac_numeral [simp]:
  "\<lfloor>numeral a / numeral b :: rat\<rfloor> = numeral a div numeral b"
  "\<lfloor>1 / numeral b :: rat\<rfloor> = 1 div numeral b"
  using floor_divide_of_int_eq [of "numeral a" "numeral b", where 'a=rat]
    floor_divide_of_int_eq [of 1 "numeral b", where 'a=rat] by simp_all


lemma floor_neg_frac_numeral [simp]:
  "\<lfloor>- (numeral a / numeral b) :: rat\<rfloor> = (- numeral a) div numeral b"
  "\<lfloor>- (1 / numeral b) :: rat\<rfloor> = (- 1) div numeral b"
  using floor_divide_of_int_eq [of "- numeral a" "numeral b", where 'a=rat]
    floor_divide_of_int_eq [of "- 1" "numeral b", where 'a=rat] by simp_all

lemma ceiling_frac_numeral [simp]:
  "\<lceil>numeral a / numeral b :: rat\<rceil> = - ((- numeral a) div numeral b)"
  "\<lceil>1 / numeral b :: rat\<rceil> = - ((- 1) div numeral b)"
  by (simp_all add: ceiling_def)


subsection \<open>Rounding to an integer, ties to even\<close>

definition round_even :: "rat \<Rightarrow> int" where
  "round_even x = (let f = \<lfloor>x\<rfloor>; d = x - of_int f in
     if d < 1 / 2 then f else if 1 / 2 < d then f + 1 else if even f then f else f + 1)"

lemma round_even_error: "\<bar>of_int (round_even x) - x\<bar> \<le> 1 / 2"
  unfolding round_even_def Let_def
  using of_int_floor_le [of x] floor_correct [of x] by (auto simp: abs_if; linarith)

lemma round_even_of_int [simp]: "round_even (of_int n) = n"
  by (simp add: round_even_def)

lemma round_even_nonneg: "0 \<le> x \<Longrightarrow> 0 \<le> round_even x"
  by (auto simp: round_even_def Let_def)

subsection \<open>Rounding to a format\<close>

text \<open>
  \<open>p\<close> is the precision, \<open>emin\<close> and \<open>emax\<close> the exponent range; \<open>fulp\<close> is the distance of two
  neighbouring floats at the magnitude of \<open>x\<close>.
\<close>

datatype cfloat = Fin rat | PInf | NInf | Nan

definition fulp :: "nat \<Rightarrow> int \<Rightarrow> rat \<Rightarrow> rat" where
  "fulp p emin x = 2 powi (max (ilog2 \<bar>x\<bar>) emin - int (p - 1))"

definition fround :: "nat \<Rightarrow> int \<Rightarrow> int \<Rightarrow> rat \<Rightarrow> cfloat" where
  "fround p emin emax x = (if x = 0 then Fin 0 else
     let u = fulp p emin x; y = of_int (round_even (x / u)) * u
     in if 2 powi (emax + 1) \<le> y then PInf
        else if y \<le> - (2 powi (emax + 1)) then NInf else Fin y)"

definition f32 :: "rat \<Rightarrow> cfloat" where "f32 = fround 24 (-126) 127"
definition f64 :: "rat \<Rightarrow> cfloat" where "f64 = fround 53 (-1022) 1023"

lemmas fround_eval = f32_def f64_def fround_def fulp_def ilog2_def round_even_def

lemma fround_0 [simp]: "fround p emin emax 0 = Fin 0"
  by (simp add: fround_def)

lemma f32_0 [simp]: "f32 0 = Fin 0" and f64_0 [simp]: "f64 0 = Fin 0"
  by (simp_all add: f32_def f64_def)

lemma fulp_pos [simp]: "0 < fulp p emin x"
  by (simp add: fulp_def)

lemma round_ulp_error:
  "\<bar>of_int (round_even (x / fulp p emin x)) * fulp p emin x - x\<bar> \<le> fulp p emin x / 2"
proof -
  define u where "u = fulp p emin x"
  have u: "0 < u" by (simp add: u_def)
  have "\<bar>of_int (round_even (x / u)) * u - x\<bar> = \<bar>(of_int (round_even (x / u)) - x / u) * u\<bar>"
    using u by (simp add: left_diff_distrib)
  also have "\<dots> = \<bar>of_int (round_even (x / u)) - x / u\<bar> * u"
    using u by (simp add: abs_mult)
  also have "\<dots> \<le> (1 / 2) * u"
    using u round_even_error by (intro mult_right_mono) auto
  finally show ?thesis by (simp add: u_def)
qed

lemma fulp_le:
  assumes "x \<noteq> 0" "2 powi emin \<le> \<bar>x\<bar>" "0 < p"
  shows "fulp p emin x \<le> \<bar>x\<bar> * 2 powi (1 - int p)"
proof -
  have b: "2 powi ilog2 \<bar>x\<bar> \<le> \<bar>x\<bar>" "\<bar>x\<bar> < 2 powi (ilog2 \<bar>x\<bar> + 1)"
    using assms(1) by (simp_all add: ilog2_bounds)
  with assms(2) have "emin \<le> ilog2 \<bar>x\<bar>"
    using power_int_increasing [of "ilog2 \<bar>x\<bar> + 1" emin "2::rat"] by (cases "emin \<le> ilog2 \<bar>x\<bar>") auto
  then have "fulp p emin x = 2 powi ilog2 \<bar>x\<bar> * 2 powi (1 - int p)"
    using assms(3) by (simp add: fulp_def max_absorb1 power_int_add [symmetric] of_nat_diff algebra_simps)
  with b(1) show ?thesis by (simp add: mult_right_mono)
qed

text \<open>
  In the normal range the result is finite and within half a unit of the last place, so the
  relative error is at most \<open>2\<close> to the \<open>-p\<close>.
\<close>

lemma fround_relative:
  assumes "2 powi emin \<le> \<bar>x\<bar>" "\<bar>x\<bar> \<le> 2 powi emax" "0 < p"
  shows "\<exists>y. fround p emin emax x = Fin y \<and> \<bar>y - x\<bar> \<le> \<bar>x\<bar> * 2 powi (- int p)"
proof -
  have "(0::rat) < 2 powi emin" by simp
  with assms(1) have x: "x \<noteq> 0" by linarith
  define y where "y = of_int (round_even (x / fulp p emin x)) * fulp p emin x"
  have e: "\<bar>y - x\<bar> \<le> \<bar>x\<bar> * 2 powi (- int p)"
  proof -
    have "\<bar>y - x\<bar> \<le> fulp p emin x / 2" unfolding y_def by (rule round_ulp_error)
    also have "\<dots> \<le> \<bar>x\<bar> * 2 powi (1 - int p) / 2"
      using fulp_le [OF x assms(1,3)] by simp
    finally show ?thesis by (simp add: power_int_diff power_int_minus field_simps)
  qed
  have "(2::rat) powi (- int p) \<le> 1 / 2"
    using power_int_increasing [of "- int p" "-1" "2::rat"] assms(3) by simp
  then have "\<bar>x\<bar> * 2 powi (- int p) \<le> \<bar>x\<bar> * (1 / 2)" by (intro mult_left_mono) auto
  with e have "\<bar>y\<bar> \<le> 3 / 2 * \<bar>x\<bar>" by linarith
  also have "\<dots> < 2 * \<bar>x\<bar>" using x by simp
  also have "\<dots> \<le> 2 powi (emax + 1)" using assms(2) by (simp add: power_int_add)
  finally have "\<bar>y\<bar> < 2 powi (emax + 1)" .
  then have "fround p emin emax x = Fin y"
    using x by (simp add: fround_def y_def [symmetric] Let_def abs_less_iff)
  with e show ?thesis by blast
qed

text \<open>A number with at most \<open>p\<close> significant bits is represented exactly.\<close>

lemma fround_exact:
  assumes m: "\<bar>m\<bar> < 2 ^ p" and e: "emin - int (p - 1) \<le> e" and p: "0 < p"
    and top: "\<bar>of_int m * 2 powi e\<bar> < (2::rat) powi (emax + 1)"
  shows "fround p emin emax (of_int m * 2 powi e) = Fin (of_int m * 2 powi e)"
proof (cases "m = 0")
  case False
  define x :: rat where "x = of_int m * 2 powi e"
  define k where "k = max (ilog2 \<bar>x\<bar>) emin - int (p - 1)"
  have x: "x \<noteq> 0" using False by (simp add: x_def)
  have "of_int \<bar>m\<bar> < (2::rat) ^ p"
    using m by (metis of_int_less_iff of_int_numeral of_int_power)
  then have "\<bar>x\<bar> < 2 ^ p * 2 powi e" by (simp add: x_def abs_mult)
  also have "\<dots> = 2 powi (int p + e)" by (simp add: power_int_add)
  finally have "2 powi ilog2 \<bar>x\<bar> < (2::rat) powi (int p + e)"
    using x ilog2_bounds(1) [of "\<bar>x\<bar>"] by simp
  then have "ilog2 \<bar>x\<bar> < int p + e"
    using power_int_increasing [of "int p + e" "ilog2 \<bar>x\<bar>" "2::rat"] by (cases "int p + e \<le> ilog2 \<bar>x\<bar>") auto
  then have k: "k \<le> e" using e p by (auto simp: k_def)
  have u: "fulp p emin x = 2 powi k" by (simp add: fulp_def k_def)
  have "x / 2 powi k = of_int m * 2 powi (e - k)"
    by (simp add: x_def power_int_diff)
  also have "\<dots> = of_int (m * 2 ^ nat (e - k))"
    using k by (simp add: power_int_def)
  finally have "x / 2 powi k = of_int (m * 2 ^ nat (e - k))" .
  then have "of_int (round_even (x / fulp p emin x)) * fulp p emin x = x"
    by (simp only: u round_even_of_int) (simp add: field_simps)
  moreover have "x < 2 powi (emax + 1)" "- (2 powi (emax + 1)) < x"
    using top by (auto simp: x_def abs_less_iff)
  ultimately show ?thesis using x by (simp add: fround_def Let_def x_def [symmetric])
qed (simp add: fround_def)

lemma f32_of_int:
  assumes "\<bar>n\<bar> < 2 ^ 24"
  shows "f32 (of_int n) = Fin (of_int n)"
proof -
  have "\<bar>of_int n :: rat\<bar> = of_int \<bar>n\<bar>" by simp
  also have "\<dots> < 2 ^ 24" using assms by (metis of_int_less_iff of_int_numeral of_int_power)
  also have "\<dots> \<le> 2 powi (127 + 1)" by simp
  finally show ?thesis
    using fround_exact [of n 24 "-126" 0 127] assms by (simp add: f32_def)
qed

lemma f32_of_nat: "n < 2 ^ 24 \<Longrightarrow> f32 (of_nat n) = Fin (of_nat n)"
  using f32_of_int [of "int n"] by simp

text \<open>Bounds by powers of two survive rounding.\<close>

lemma round_even_le: "x \<le> of_int n \<Longrightarrow> round_even x \<le> n"
  unfolding round_even_def Let_def
  by (cases "\<lfloor>x\<rfloor> = n") (auto simp: floor_less_iff le_less floor_eq_iff not_less)

lemma round_even_ge: "of_int n \<le> x \<Longrightarrow> n \<le> round_even x"
proof -
  assume "of_int n \<le> x"
  then have "n \<le> \<lfloor>x\<rfloor>" by (simp add: le_floor_iff)
  then show ?thesis by (auto simp: round_even_def Let_def)
qed

lemma ilog2_le: "0 < x \<Longrightarrow> x \<le> 2 powi b \<Longrightarrow> ilog2 x \<le> b"
  using ilog2_bounds(1) [of x] power_int_strict_increasing [of b "ilog2 x" "2::rat"]
  by (cases "ilog2 x \<le> b") auto

lemma ilog2_ge: "2 powi a \<le> x \<Longrightarrow> a \<le> ilog2 x"
proof -
  assume a: "2 powi a \<le> x"
  have "(0::rat) < 2 powi a" by simp
  with a have "x < 2 powi (ilog2 x + 1)" by (intro ilog2_bounds(2)) linarith
  with a show ?thesis
    using power_int_increasing [of "ilog2 x + 1" a "2::rat"] by (cases "a \<le> ilog2 x") auto
qed

lemma round_ulp_le:
  assumes "0 < x" "x \<le> 2 powi b" "emin \<le> b"
  shows "of_int (round_even (x / fulp p emin x)) * fulp p emin x \<le> 2 powi b"
proof -
  define k where "k = max (ilog2 x) emin - int (p - 1)"
  have k: "k \<le> b" using ilog2_le [OF assms(1,2)] assms(3) by (auto simp: k_def)
  have u: "fulp p emin x = 2 powi k" using assms(1) by (simp add: fulp_def k_def)
  have b: "2 powi b = of_int (2 ^ nat (b - k)) * (2::rat) powi k"
    using k by (simp add: power_int_add [symmetric] flip: power_int_of_nat)
  have "x / 2 powi k \<le> of_int (2 ^ nat (b - k))"
    using assms(2) by (simp add: b pos_divide_le_eq)
  then have "round_even (x / 2 powi k) \<le> 2 ^ nat (b - k)" by (rule round_even_le)
  then have "of_int (round_even (x / 2 powi k)) \<le> (of_int (2 ^ nat (b - k)) :: rat)"
    by (simp only: of_int_le_iff)
  then show ?thesis by (simp only: u b) (simp add: mult_right_mono)
qed

lemma round_ulp_ge:
  assumes "2 powi a \<le> x" "emin \<le> a"
  shows "2 powi a \<le> of_int (round_even (x / fulp p emin x)) * fulp p emin x"
proof -
  have x: "0 < x" by (rule less_le_trans [OF _ assms(1)]) simp
  define e where "e = ilog2 x"
  have e: "a \<le> e" "2 powi e \<le> x" using ilog2_ge [OF assms(1)] ilog2_bounds(1) [OF x] by (simp_all add: e_def)
  have u: "fulp p emin x = 2 powi (e - int (p - 1))"
    using x e(1) assms(2) by (simp add: fulp_def e_def)
  have p: "2 powi e = of_int (2 ^ (p - 1)) * (2::rat) powi (e - int (p - 1))"
    by (simp add: power_int_add [symmetric] flip: power_int_of_nat)
  have "of_int (2 ^ (p - 1)) \<le> x / 2 powi (e - int (p - 1))"
    using e(2) by (simp add: p pos_le_divide_eq)
  then have "2 ^ (p - 1) \<le> round_even (x / 2 powi (e - int (p - 1)))" by (rule round_even_ge)
  then have "(of_int (2 ^ (p - 1)) :: rat) \<le> of_int (round_even (x / 2 powi (e - int (p - 1))))"
    by (simp only: of_int_le_iff)
  then have "2 powi e \<le> of_int (round_even (x / fulp p emin x)) * fulp p emin x"
    by (simp only: u p) (simp add: mult_right_mono)
  moreover have "(2::rat) powi a \<le> 2 powi e" using e(1) by (simp add: power_int_increasing)
  ultimately show ?thesis by linarith
qed

lemma fround_upper:
  assumes "0 \<le> x" "x \<le> 2 powi b" "emin \<le> b" "b \<le> emax"
  shows "\<exists>y. fround p emin emax x = Fin y \<and> 0 \<le> y \<and> y \<le> 2 powi b"
proof (cases "x = 0")
  case False
  define y where "y = of_int (round_even (x / fulp p emin x)) * fulp p emin x"
  have y: "y \<le> 2 powi b" using round_ulp_le [of x b emin p] assms False by (simp add: y_def)
  have y0: "0 \<le> y" using assms(1) round_even_nonneg [of "x / fulp p emin x"]
    by (simp add: y_def less_imp_le)
  have "(2::rat) powi b < 2 powi (emax + 1)" using assms(4) by (intro power_int_strict_increasing) auto
  with y y0 have "y < 2 powi (emax + 1)" "- (2 powi (emax + 1)) < y" by linarith+
  with False have "fround p emin emax x = Fin y"
    by (simp add: fround_def y_def [symmetric] Let_def)
  with y y0 show ?thesis by blast
qed simp

lemma fround_range:
  assumes "2 powi a \<le> x" "x \<le> 2 powi b" "emin \<le> a" "b \<le> emax"
  shows "\<exists>y. fround p emin emax x = Fin y \<and> 2 powi a \<le> y \<and> y \<le> 2 powi b"
proof -
  have x: "0 < x" by (rule less_le_trans [OF _ assms(1)]) simp
  have "(2::rat) powi a \<le> 2 powi b" using assms(1,2) by linarith
  then have "a \<le> b" using power_int_strict_increasing [of b a "2::rat"] by (cases "a \<le> b") auto
  then obtain y where "fround p emin emax x = Fin y" "0 \<le> y" "y \<le> 2 powi b"
    using fround_upper [of x b emin emax p] x assms by auto
  moreover have "2 powi a \<le> y"
    using round_ulp_ge [OF assms(1,3), of p] calculation(1) x
    by (auto simp: fround_def Let_def split: if_splits)
  ultimately show ?thesis by blast
qed

lemma fround_overflow:
  assumes "2 powi (emax + 1) \<le> x" "emin \<le> emax + 1"
  shows "fround p emin emax x = PInf"
proof -
  have "(0::rat) < 2 powi (emax + 1)" by simp
  with assms(1) have "x \<noteq> 0" by linarith
  with round_ulp_ge [OF assms, of p] show ?thesis by (simp add: fround_def Let_def)
qed

subsection \<open>Arithmetic\<close>

text \<open>The first argument is the rounding of the operation's type, \<open>f32\<close> or \<open>f64\<close>.\<close>

fun f_add :: "(rat \<Rightarrow> cfloat) \<Rightarrow> cfloat \<Rightarrow> cfloat \<Rightarrow> cfloat" where
  "f_add r (Fin a) (Fin b) = r (a + b)"
| "f_add r Nan _ = Nan"
| "f_add r _ Nan = Nan"
| "f_add r PInf NInf = Nan"
| "f_add r NInf PInf = Nan"
| "f_add r PInf _ = PInf"
| "f_add r NInf _ = NInf"
| "f_add r (Fin _) y = y"

fun f_neg :: "cfloat \<Rightarrow> cfloat" where
  "f_neg (Fin a) = Fin (- a)"
| "f_neg PInf = NInf"
| "f_neg NInf = PInf"
| "f_neg Nan = Nan"

definition f_sign :: "rat \<Rightarrow> cfloat" where
  "f_sign s = (if s = 0 then Nan else if 0 < s then PInf else NInf)"

fun f_mul :: "(rat \<Rightarrow> cfloat) \<Rightarrow> cfloat \<Rightarrow> cfloat \<Rightarrow> cfloat" where
  "f_mul r (Fin a) (Fin b) = r (a * b)"
| "f_mul r Nan _ = Nan"
| "f_mul r _ Nan = Nan"
| "f_mul r PInf (Fin b) = f_sign b"
| "f_mul r NInf (Fin b) = f_sign (- b)"
| "f_mul r (Fin a) PInf = f_sign a"
| "f_mul r (Fin a) NInf = f_sign (- a)"
| "f_mul r PInf y = y"
| "f_mul r NInf y = f_neg y"

fun f_div :: "(rat \<Rightarrow> cfloat) \<Rightarrow> cfloat \<Rightarrow> cfloat \<Rightarrow> cfloat" where
  "f_div r (Fin a) (Fin b) = (if b = 0 then f_sign a else r (a / b))"
| "f_div r Nan _ = Nan"
| "f_div r _ Nan = Nan"
| "f_div r PInf (Fin b) = (if b < 0 then NInf else PInf)"
| "f_div r NInf (Fin b) = (if b < 0 then PInf else NInf)"
| "f_div r (Fin a) _ = Fin 0"
| "f_div r _ _ = Nan"

text \<open>A change of type rounds a finite value again.\<close>

fun f_cast :: "(rat \<Rightarrow> cfloat) \<Rightarrow> cfloat \<Rightarrow> cfloat" where
  "f_cast r (Fin a) = r a"
| "f_cast r y = y"

fun f_less :: "cfloat \<Rightarrow> cfloat \<Rightarrow> bool" where
  "f_less (Fin a) (Fin b) = (a < b)"
| "f_less Nan _ = False"
| "f_less _ Nan = False"
| "f_less NInf y = (y \<noteq> NInf)"
| "f_less x PInf = (x \<noteq> PInf)"
| "f_less _ _ = False"

definition f_eq :: "cfloat \<Rightarrow> cfloat \<Rightarrow> bool" where
  "f_eq x y \<longleftrightarrow> x = y \<and> x \<noteq> Nan"

definition f_le :: "cfloat \<Rightarrow> cfloat \<Rightarrow> bool" where
  "f_le x y \<longleftrightarrow> f_less x y \<or> f_eq x y"

fun f_ceil :: "cfloat \<Rightarrow> cfloat" where
  "f_ceil (Fin a) = Fin (of_int \<lceil>a\<rceil>)"
| "f_ceil y = y"

subsection \<open>Interval arithmetic on exponents\<close>

text \<open>
  \<open>fin_in a b v\<close>: the value is finite and between two powers of two; \<open>fin_up b v\<close>: finite, not
  negative and at most a power of two. The rules compute with the exponents alone.
\<close>

definition fin_in :: "int \<Rightarrow> int \<Rightarrow> cfloat \<Rightarrow> bool" where
  "fin_in a b v \<longleftrightarrow> (\<exists>y. v = Fin y \<and> 2 powi a \<le> y \<and> y \<le> 2 powi b)"

definition fin_up :: "int \<Rightarrow> cfloat \<Rightarrow> bool" where
  "fin_up b v \<longleftrightarrow> (\<exists>y. v = Fin y \<and> 0 \<le> y \<and> y \<le> 2 powi b)"

lemma fin_in_pos: "fin_in a b (Fin y) \<Longrightarrow> 0 < y"
proof -
  assume "fin_in a b (Fin y)"
  then have "2 powi a \<le> y" by (simp add: fin_in_def)
  then show ?thesis by (rule less_le_trans [rotated]) simp
qed

lemma fin_in_up: "fin_in a b v \<Longrightarrow> b \<le> c \<Longrightarrow> fin_up c v"
proof -
  assume v: "fin_in a b v" and "b \<le> c"
  then have "(2::rat) powi b \<le> 2 powi c" by (simp add: power_int_increasing)
  with v show ?thesis
    using fin_in_pos [of a b] by (fastforce simp: fin_in_def fin_up_def intro: order_trans less_imp_le)
qed

lemma fin_mul:
  assumes "fin_in a b v" "fin_in c d v'" "-126 \<le> a + c" "b + d \<le> 127"
  shows "fin_in (a + c) (b + d) (f_mul f32 v v')"
proof -
  obtain x y where v: "v = Fin x" "v' = Fin y" "2 powi a \<le> x" "x \<le> 2 powi b" "2 powi c \<le> y" "y \<le> 2 powi d"
    using assms(1,2) by (auto simp: fin_in_def)
  have "0 < x" "0 < y" using assms(1,2) fin_in_pos v(1,2) by blast+
  then have "2 powi (a + c) \<le> x * y" "x * y \<le> 2 powi (b + d)"
    using v by (auto simp: power_int_add intro!: mult_mono)
  from fround_range [OF this assms(3,4), of 24] show ?thesis
    by (simp add: fin_in_def v f32_def)
qed

lemma fin_div:
  assumes "fin_in a b v" "fin_in c d v'" "-126 \<le> a - d" "b - c \<le> 127"
  shows "fin_in (a - d) (b - c) (f_div f32 v v')"
proof -
  obtain x y where v: "v = Fin x" "v' = Fin y" "2 powi a \<le> x" "x \<le> 2 powi b" "2 powi c \<le> y" "y \<le> 2 powi d"
    using assms(1,2) by (auto simp: fin_in_def)
  have p: "0 < x" "0 < y" using assms(1,2) fin_in_pos v(1,2) by blast+
  then have "2 powi (a - d) \<le> x / y" "x / y \<le> 2 powi (b - c)"
    using v by (auto simp: power_int_diff intro!: frac_le)
  from fround_range [OF this assms(3,4), of 24] show ?thesis
    using p by (simp add: fin_in_def v f32_def)
qed

lemma fin_up_mul:
  assumes "fin_up b v" "fin_up d v'" "-126 \<le> b + d" "b + d \<le> 127"
  shows "fin_up (b + d) (f_mul f32 v v')"
proof -
  obtain x y where v: "v = Fin x" "v' = Fin y" "0 \<le> x" "x \<le> 2 powi b" "0 \<le> y" "y \<le> 2 powi d"
    using assms(1,2) by (auto simp: fin_up_def)
  then have "0 \<le> x * y" "x * y \<le> 2 powi (b + d)"
    by (auto simp: power_int_add intro!: mult_mono)
  from fround_upper [OF this assms(3,4), of 24] show ?thesis
    by (simp add: fin_up_def v f32_def)
qed

lemma f32_pow2_overflow: "128 \<le> k \<Longrightarrow> f32 (2 ^ k) = PInf"
  using fround_overflow [of 127 "2 ^ k" "-126" 24] power_increasing [of 128 k "2::rat"]
  by (simp add: f32_def)

lemma fin_in_pow2: "int k \<le> 127 \<Longrightarrow> fin_in (int k) (int k) (f32 (2 ^ k))"
  using fround_range [of "int k" "2 ^ k" "int k" "-126" 127 24] by (simp add: f32_def fin_in_def)

lemma fin_in_nat: "2 ^ a \<le> n \<Longrightarrow> n \<le> 2 ^ b \<Longrightarrow> b \<le> 127 \<Longrightarrow> fin_in (int a) (int b) (f32 (of_nat n))"
proof -
  assume n: "2 ^ a \<le> n" "n \<le> 2 ^ b" "b \<le> 127"
  then have "of_nat (2 ^ a) \<le> (of_nat n :: rat)" "of_nat n \<le> (of_nat (2 ^ b) :: rat)"
    by (simp_all only: of_nat_le_iff)
  then have "(2::rat) powi int a \<le> of_nat n" "of_nat n \<le> (2::rat) powi int b"
    by simp_all
  from fround_range [OF this, of "-126" 127 24] n(3) show ?thesis by (simp add: f32_def fin_in_def)
qed

lemma fin_up_nat: "n \<le> 2 ^ b \<Longrightarrow> b \<le> 127 \<Longrightarrow> fin_up (int b) (f32 (of_nat n))"
proof -
  assume n: "n \<le> 2 ^ b" "b \<le> 127"
  then have "of_nat n \<le> (of_nat (2 ^ b) :: rat)" by (simp only: of_nat_le_iff)
  then have "of_nat n \<le> (2::rat) powi int b" by simp
  from fround_upper [OF _ this, of "-126" 127 24] n(2) show ?thesis by (simp add: f32_def fin_up_def)
qed

subsection \<open>Conversion to an integer type\<close>

definition rtrunc :: "rat \<Rightarrow> int" where
  "rtrunc x = (if 0 \<le> x then \<lfloor>x\<rfloor> else \<lceil>x\<rceil>)"

fun f_to_int :: "int \<Rightarrow> int \<Rightarrow> cfloat \<Rightarrow> int option" where
  "f_to_int lo hi (Fin a) = (if lo \<le> rtrunc a \<and> rtrunc a \<le> hi then Some (rtrunc a) else None)"
| "f_to_int lo hi _ = None"

definition f_to_u16 :: "cfloat \<Rightarrow> u16 option" where
  "f_to_u16 x = map_option of_int (f_to_int 0 (2 ^ 16 - 1) x)"

definition f_to_u32 :: "cfloat \<Rightarrow> u32 option" where
  "f_to_u32 x = map_option of_int (f_to_int 0 (2 ^ 32 - 1) x)"

definition f_to_i32 :: "cfloat \<Rightarrow> int option" where
  "f_to_i32 x = f_to_int (- (2 ^ 31)) (2 ^ 31 - 1) x"

definition f_to_i64 :: "cfloat \<Rightarrow> int option" where
  "f_to_i64 x = f_to_int (- (2 ^ 63)) (2 ^ 63 - 1) x"

lemma rtrunc_of_int [simp]: "rtrunc (of_int n) = n"
  by (simp add: rtrunc_def)

lemma rtrunc_0 [simp]: "rtrunc 0 = 0"
  by (simp add: rtrunc_def)

lemma f_to_int_range: "f_to_int lo hi x = Some n \<Longrightarrow> lo \<le> n \<and> n \<le> hi"
  by (cases x) (auto split: if_splits)

lemma fin_up_to_u32:
  assumes "fin_up b v" "b \<le> 31"
  shows "\<exists>n. f_to_u32 v = Some n"
proof -
  obtain y where y: "v = Fin y" "0 \<le> y" "y \<le> 2 powi b" using assms(1) by (auto simp: fin_up_def)
  have "(2::rat) powi b \<le> 2 powi 31" using assms(2) by (intro power_int_increasing) auto
  with y(3) have "\<lfloor>y\<rfloor> \<le> 2 ^ 31" by (simp add: floor_le_iff)
  with y show ?thesis by (simp add: f_to_u32_def rtrunc_def)
qed

text \<open>A bound that is a float itself survives rounding.\<close>

lemma powi2_less_D: "(2::rat) powi a < 2 powi b \<Longrightarrow> a < b"
  using power_int_increasing [of b a "2::rat"] by linarith

lemma fround_le_float:
  assumes x: "0 \<le> x" "x \<le> c" and c: "c = of_nat m * 2 powi e" "m < 2 ^ p" "0 < p"
    and e: "emin \<le> e" and top: "c < 2 powi (emax + 1)"
  shows "\<exists>y. fround p emin emax x = Fin y \<and> 0 \<le> y \<and> y \<le> c"
proof (cases "x = 0")
  case True
  then show ?thesis using x by simp
next
  case False
  with x have x0: "0 < x" and c0: "0 < c" by simp_all
  define k where "k = ilog2 c"
  have m: "0 < m" using c0 by (cases "m = 0") (simp_all add: c(1))
  have k: "2 powi k \<le> c" "c < 2 powi (k + 1)" using ilog2_bounds [OF c0] by (simp_all add: k_def)
  have "2 powi e \<le> c" using m by (simp add: c(1))
  then have ek: "e \<le> k" unfolding k_def by (rule ilog2_ge)
  have "c < 2 powi (int p + e)"
  proof -
    have "of_nat m < (of_nat (2 ^ p) :: rat)" using c(2) by (simp only: of_nat_less_iff)
    then show ?thesis by (simp add: c(1) power_int_add)
  qed
  with k(1) have "(2::rat) powi k < 2 powi (int p + e)" by (rule le_less_trans)
  then have kp: "k < int p + e" by (rule powi2_less_D)
  from k(1) top have "(2::rat) powi k < 2 powi (emax + 1)" by (rule le_less_trans)
  then have kmax: "k \<le> emax" by (auto dest: powi2_less_D)
  show ?thesis
  proof (cases "x \<le> 2 powi k")
    case True
    with fround_upper [of x k emin emax p] x(1) ek e kmax k(1) show ?thesis by fastforce
  next
    case False
    then have "ilog2 x = k" using x k by (intro ilog2_unique) auto
    moreover have "max k emin = k" using ek e by simp
    ultimately have u: "fulp p emin x = 2 powi (k - int (p - 1))" using x0 by (simp add: fulp_def)
    define u where "u = (2::rat) powi (k - int (p - 1))"
    have u0: "0 < u" by (simp add: u_def)
    define n where "n = int m * 2 ^ nat (e - (k - int (p - 1)))"
    have cu: "c = of_int n * u"
    proof -
      have "e = int (nat (e - (k - int (p - 1)))) + (k - int (p - 1))" using kp c(3) by simp
      then have "(2::rat) powi e = 2 ^ nat (e - (k - int (p - 1))) * u"
        unfolding u_def by (metis power_int_add power_int_of_nat zero_neq_numeral)
      then show ?thesis by (simp add: c(1) n_def)
    qed
    define r where "r = round_even (x / u)"
    have "r \<le> n" unfolding r_def using x(2) u0 by (intro round_even_le) (simp add: cu divide_le_eq)
    then have "of_int r * u \<le> c" using u0 by (simp add: cu)
    moreover have "0 \<le> r" unfolding r_def using round_even_ge [of 0 "x / u"] x0 u0 by simp
    then have "0 \<le> of_int r * u" using u0 by simp
    moreover have "\<not> of_int r * u \<le> - (2 powi (emax + 1))"
    proof -
      have "(0::rat) < 2 powi (emax + 1)" by simp
      with \<open>0 \<le> of_int r * u\<close> show ?thesis by linarith
    qed
    ultimately have "of_int r * u < 2 powi (emax + 1)" "0 \<le> of_int r * u" "of_int r * u \<le> c"
      "\<not> of_int r * u \<le> - (2 powi (emax + 1))"
      using le_less_trans [OF _ top] by blast+
    moreover have "fround p emin emax x = (if 2 powi (emax + 1) \<le> of_int r * u then PInf
        else if of_int r * u \<le> - (2 powi (emax + 1)) then NInf else Fin (of_int r * u))"
      using x0 by (simp only: fround_def Let_def u r_def u_def less_irrefl) simp
    ultimately show ?thesis by (simp add: not_le)
  qed
qed

text \<open>\<open>fin_le c v\<close>: finite, not negative and at most \<open>c\<close>.\<close>

definition fin_le :: "rat \<Rightarrow> cfloat \<Rightarrow> bool" where
  "fin_le c v \<longleftrightarrow> (\<exists>y. v = Fin y \<and> 0 \<le> y \<and> y \<le> c)"

lemma fin_le_f32:
  "0 \<le> x \<Longrightarrow> x \<le> of_nat n * 2 ^ k \<Longrightarrow> n < 2 ^ 24 \<Longrightarrow> k \<le> 64 \<Longrightarrow> fin_le (of_nat n * 2 ^ k) (f32 x)"
proof -
  assume a: "0 \<le> x" "x \<le> of_nat n * 2 ^ k" "n < 2 ^ 24" "k \<le> 64"
  have "of_nat n < (of_nat (2 ^ 24) :: rat)" using a(3) by (simp only: of_nat_less_iff)
  moreover have "(2::rat) ^ k \<le> 2 ^ 64" using a(4) by (intro power_increasing) auto
  ultimately have "of_nat n * 2 ^ k < (of_nat (2 ^ 24) * 2 ^ 64 :: rat)"
    by (intro mult_less_le_imp_less) auto
  also have "\<dots> = (2::rat) powi 88" by simp
  also have "\<dots> < 2 powi (127 + 1)" by (rule power_int_strict_increasing) simp_all
  finally have top: "of_nat n * 2 ^ k < (2::rat) powi (127 + 1)" .
  show ?thesis unfolding fin_le_def f32_def
    by (rule fround_le_float [OF a(1,2) _ a(3) _ _ top, of "int k"]) simp_all
qed

lemma fin_le_f64: "0 \<le> x \<Longrightarrow> x \<le> of_nat n \<Longrightarrow> n < 2 ^ 53 \<Longrightarrow> fin_le (of_nat n) (f64 x)"
proof -
  assume a: "0 \<le> x" "x \<le> of_nat n" "n < 2 ^ 53"
  have "of_nat n < (of_nat (2 ^ 53) :: rat)" using a(3) by (simp only: of_nat_less_iff)
  also have "\<dots> \<le> 2 powi (1023 + 1)"
    using power_int_increasing [of 53 "1023 + 1" "2::rat"] by simp
  finally have top: "of_nat n < (2::rat) powi (1023 + 1)" .
  show ?thesis unfolding fin_le_def f64_def
    by (rule fround_le_float [OF a(1,2) _ a(3) _ _ top, of 0]) simp_all
qed

lemma fin_le_f32_nat: "0 \<le> x \<Longrightarrow> x \<le> of_nat n \<Longrightarrow> n < 2 ^ 24 \<Longrightarrow> fin_le (of_nat n) (f32 x)"
  using fin_le_f32 [of x n 0] by simp

lemma fin_le_mul:
  "fin_le a v \<Longrightarrow> fin_le b v' \<Longrightarrow> a * b \<le> of_nat n \<Longrightarrow> n < 2 ^ 24 \<Longrightarrow> fin_le (of_nat n) (f_mul f32 v v')"
proof -
  assume a: "fin_le a v" "fin_le b v'" "a * b \<le> of_nat n" "n < 2 ^ 24"
  obtain x y where v: "v = Fin x" "v' = Fin y" "0 \<le> x" "x \<le> a" "0 \<le> y" "y \<le> b"
    using a(1,2) by (auto simp: fin_le_def)
  then have "0 \<le> x * y" "x * y \<le> a * b" by (auto intro!: mult_mono)
  with a(3,4) have "fin_le (of_nat n) (f32 (x * y))" by (intro fin_le_f32_nat) auto
  then show ?thesis by (simp add: v)
qed

lemma fin_le_add:
  "fin_le a v \<Longrightarrow> fin_le b v' \<Longrightarrow> a + b \<le> of_nat n \<Longrightarrow> n < 2 ^ 24 \<Longrightarrow> fin_le (of_nat n) (f_add f32 v v')"
proof -
  assume a: "fin_le a v" "fin_le b v'" "a + b \<le> of_nat n" "n < 2 ^ 24"
  obtain x y where v: "v = Fin x" "v' = Fin y" "0 \<le> x" "x \<le> a" "0 \<le> y" "y \<le> b"
    using a(1,2) by (auto simp: fin_le_def)
  then have "fin_le (of_nat n) (f32 (x + y))" using a(3,4) by (intro fin_le_f32_nat) auto
  then show ?thesis by (simp add: v)
qed

lemma fin_le_mono: "fin_le a v \<Longrightarrow> a \<le> b \<Longrightarrow> fin_le b v"
  by (auto simp: fin_le_def)

lemma fin_le_to_int: "fin_le c v \<Longrightarrow> c \<le> of_int hi \<Longrightarrow> lo \<le> 0 \<Longrightarrow>
  \<exists>n. f_to_int lo hi v = Some n \<and> 0 \<le> n \<and> of_int n \<le> c"
proof -
  assume a: "fin_le c v" "c \<le> of_int hi" "lo \<le> 0"
  obtain y where y: "v = Fin y" "0 \<le> y" "y \<le> c" using a(1) by (auto simp: fin_le_def)
  have "of_int \<lfloor>y\<rfloor> \<le> c" "0 \<le> \<lfloor>y\<rfloor>" using y by linarith+
  moreover have "\<lfloor>y\<rfloor> \<le> hi" using y(3) a(2) by (simp add: floor_le_iff)
  moreover have "lo \<le> \<lfloor>y\<rfloor>" using a(3) calculation(2) by linarith
  ultimately show ?thesis using y by (simp add: rtrunc_def)
qed

text \<open>Both types keep bounds by powers of two in the range of \<^verbatim>\<open>float\<close>.\<close>

definition rounds :: "(rat \<Rightarrow> cfloat) \<Rightarrow> bool" where
  "rounds r \<longleftrightarrow> (\<forall>a b x. 2 powi a \<le> x \<longrightarrow> x \<le> 2 powi b \<longrightarrow> -126 \<le> a \<longrightarrow> b \<le> 127 \<longrightarrow> fin_in a b (r x))"

lemma rounds_f32 [simp]: "rounds f32"
  using fround_range [of _ _ _ "-126" 127 24] by (auto simp: rounds_def fin_in_def f32_def)

lemma rounds_f64 [simp]: "rounds f64"
  using fround_range [of _ _ _ "-1022" 1023 53] by (auto simp: rounds_def fin_in_def f64_def)

lemma fin_in_mul:
  assumes r: "rounds r" and v: "fin_in a b v" "fin_in c d v'" "-126 \<le> a + c" "b + d \<le> 127"
  shows "fin_in (a + c) (b + d) (f_mul r v v')"
proof -
  obtain x y where e: "v = Fin x" "v' = Fin y" "2 powi a \<le> x" "x \<le> 2 powi b" "2 powi c \<le> y" "y \<le> 2 powi d"
    using v(1,2) by (auto simp: fin_in_def)
  have "0 < x" "0 < y" using v(1,2) fin_in_pos e(1,2) by blast+
  then have "2 powi (a + c) \<le> x * y" "x * y \<le> 2 powi (b + d)"
    using e by (auto simp: power_int_add intro!: mult_mono)
  with r v(3,4) show ?thesis by (simp add: rounds_def e)
qed

lemma fin_in_div:
  assumes r: "rounds r" and v: "fin_in a b v" "fin_in c d v'" "-126 \<le> a - d" "b - c \<le> 127"
  shows "fin_in (a - d) (b - c) (f_div r v v')"
proof -
  obtain x y where e: "v = Fin x" "v' = Fin y" "2 powi a \<le> x" "x \<le> 2 powi b" "2 powi c \<le> y" "y \<le> 2 powi d"
    using v(1,2) by (auto simp: fin_in_def)
  have p: "0 < x" "0 < y" using v(1,2) fin_in_pos e(1,2) by blast+
  then have "2 powi (a - d) \<le> x / y" "x / y \<le> 2 powi (b - c)"
    using e by (auto simp: power_int_diff intro!: frac_le)
  with r v(3,4) p show ?thesis by (simp add: rounds_def e)
qed

lemma fin_in_cast:
  assumes "rounds r" "fin_in a b v" "-126 \<le> a" "b \<le> 127"
  shows "fin_in a b (f_cast r v)"
  using assms by (auto simp: rounds_def fin_in_def)

lemma fin_in_mono: "fin_in a b v \<Longrightarrow> a' \<le> a \<Longrightarrow> b \<le> b' \<Longrightarrow> fin_in a' b' v"
proof -
  assume v: "fin_in a b v" and "a' \<le> a" "b \<le> b'"
  then have "(2::rat) powi a' \<le> 2 powi a" "(2::rat) powi b \<le> 2 powi b'"
    by (simp_all add: power_int_increasing)
  with v show ?thesis by (auto simp: fin_in_def intro: order_trans)
qed

lemma fin_up_ceil: "fin_up b v \<Longrightarrow> 0 \<le> b \<Longrightarrow> fin_up b (f_ceil v)"
proof -
  assume "fin_up b v" and b: "0 \<le> b"
  then obtain y where y: "v = Fin y" "0 \<le> y" "y \<le> 2 powi b" by (auto simp: fin_up_def)
  have p: "(2::rat) powi b = of_int (2 ^ nat b)" using b by (simp add: power_int_def)
  with y(3) have "\<lceil>y\<rceil> \<le> 2 ^ nat b" by (simp add: ceiling_le_iff)
  then have "of_int \<lceil>y\<rceil> \<le> (of_int (2 ^ nat b) :: rat)" by (simp only: of_int_le_iff)
  moreover have "0 \<le> \<lceil>y\<rceil>" using y(2) by linarith
  ultimately show ?thesis by (simp add: fin_up_def y(1) p)
qed

lemma fin_up_to_int:
  "fin_up b v \<Longrightarrow> b \<le> int k \<Longrightarrow> 2 ^ k \<le> hi \<Longrightarrow> lo \<le> 0 \<Longrightarrow>
     \<exists>n. f_to_int lo hi v = Some n \<and> 0 \<le> n \<and> n \<le> 2 ^ k"
proof -
  assume "fin_up b v" and k: "b \<le> int k" "2 ^ k \<le> hi" "lo \<le> 0"
  then obtain y where y: "v = Fin y" "0 \<le> y" "y \<le> 2 powi b" by (auto simp: fin_up_def)
  have "(2::rat) powi b \<le> 2 powi int k" using k(1) by (intro power_int_increasing) auto
  with y(3) have "y \<le> of_int (2 ^ k)" by simp
  then have f: "\<lfloor>y\<rfloor> \<le> 2 ^ k" by (simp add: floor_le_iff)
  moreover have "0 \<le> \<lfloor>y\<rfloor>" using y(2) by simp
  moreover from this k(3) have "lo \<le> \<lfloor>y\<rfloor>" by linarith
  moreover from f k(2) have "\<lfloor>y\<rfloor> \<le> hi" by linarith
  ultimately show ?thesis using y(1,2) by (simp add: rtrunc_def)
qed

lemmas f_conv_defs = f_to_u16_def f_to_u32_def f_to_i32_def f_to_i64_def

end
