(* ===== verification/Kiss.thy ===== *)
theory Kiss
  imports Prelude
begin

section \<open>KISS framing\<close>

text \<open>
  \<^verbatim>\<open>src/kiss.c\<close>. The decoder is a state machine over the received bytes with a fixed receive
  buffer; it calls back into the protocol layer for every complete frame, so it is modelled with
  the callback as an argument and a state \<open>'w\<close> the callback works on. The encoder fills a fixed
  output buffer. The interface \<open>framing\<close> says what the link needs from the two; the KISS
  definitions are shown to provide it.
\<close>

abbreviation "MTU \<equiv> 1024 :: nat"

abbreviation "FEND \<equiv> 0xC0 :: u8"
abbreviation "FESC \<equiv> 0xDB :: u8"
abbreviation "TFEND \<equiv> 0xDC :: u8"
abbreviation "TFESC \<equiv> 0xDD :: u8"

subsection \<open>The decoder\<close>

record kiss_st =
  kiss_buf_in :: "u8 list"
  kiss_len_in :: nat
  kiss_sync :: bool
  kiss_escape :: bool

definition kiss_init :: kiss_st where
  "kiss_init = \<lparr>kiss_buf_in = replicate MTU 0, kiss_len_in = 0, kiss_sync = False, kiss_escape = False\<rparr>"

text \<open>The byte stored for a received byte: the two substitutions in the order of the code.\<close>

definition kiss_unescape :: "bool \<Rightarrow> u8 \<Rightarrow> u8" where
  "kiss_unescape esc byte =
     (if esc then (let byte = (if byte = TFEND then FEND else byte)
                   in (if byte = TFESC then FESC else byte)) else byte)"

fun kiss_decode :: "(u8 list \<Rightarrow> nat \<Rightarrow> 'w \<Rightarrow> 'w option) \<Rightarrow> u8 list \<Rightarrow> kiss_st \<times> 'w \<Rightarrow> (kiss_st \<times> 'w) option"
where
  "kiss_decode cb [] s = Some s"
| "kiss_decode cb (byte # bytes) (k, w) =
     (if byte = FEND then
        do { w \<leftarrow> (if kiss_sync k \<and> 0 < kiss_len_in k then cb (kiss_buf_in k) (kiss_len_in k) w
                  else Some w);
             kiss_decode cb bytes (k\<lparr>kiss_len_in := 0, kiss_sync := True\<rparr>, w) }
      else if kiss_sync k then
        if byte = FESC then kiss_decode cb bytes (k\<lparr>kiss_escape := True\<rparr>, w)
        else do {
          buf \<leftarrow> store_at (kiss_buf_in k) (kiss_len_in k) (kiss_unescape (kiss_escape k) byte);
          let k = k\<lparr>kiss_buf_in := buf, kiss_len_in := kiss_len_in k + 1, kiss_escape := False\<rparr>;
          if MTU \<le> kiss_len_in k
          then Some (k\<lparr>kiss_len_in := 0, kiss_escape := False, kiss_sync := False\<rparr>, w)
          else kiss_decode cb bytes (k, w) }
      else kiss_decode cb bytes (k, w))"

text \<open>The receive buffer has its size and the write position is inside it.\<close>

definition kiss_wf :: "kiss_st \<Rightarrow> bool" where
  "kiss_wf k \<longleftrightarrow> length (kiss_buf_in k) = MTU \<and> kiss_len_in k < MTU"

lemma kiss_wf_init [simp]: "kiss_wf kiss_init"
  by (simp add: kiss_wf_def kiss_init_def)

lemma kiss_wf_updates [simp]:
  "kiss_wf k \<Longrightarrow> kiss_wf (k\<lparr>kiss_len_in := 0, kiss_sync := b\<rparr>)"
  "kiss_wf k \<Longrightarrow> kiss_wf (k\<lparr>kiss_escape := b\<rparr>)"
  by (simp_all add: kiss_wf_def)

text \<open>
  With a callback that keeps an invariant of its state on every frame of 1 to 1023 bytes, the
  decoder never stores outside the buffer, returns, and keeps both invariants.
\<close>

lemma kiss_decode_total:
  assumes cb: "\<And>buf n w. length buf = MTU \<Longrightarrow> 0 < n \<Longrightarrow> n < MTU \<Longrightarrow> I w \<Longrightarrow> \<exists>w'. cb buf n w = Some w' \<and> I w'"
    and "kiss_wf k" "I w"
  shows "\<exists>k' w'. kiss_decode cb bytes (k, w) = Some (k', w') \<and> kiss_wf k' \<and> I w'"
  using assms(2,3)
proof (induction bytes arbitrary: k w)
  case Nil
  then show ?case by simp
next
  case (Cons byte bytes)
  consider (fend) "byte = FEND" | (esc) "byte \<noteq> FEND" "kiss_sync k" "byte = FESC"
    | (data) "byte \<noteq> FEND" "kiss_sync k" "byte \<noteq> FESC" | (skip) "byte \<noteq> FEND" "\<not> kiss_sync k"
    by blast
  then show ?case
  proof cases
    case fend
    obtain w' where "(if kiss_sync k \<and> 0 < kiss_len_in k then cb (kiss_buf_in k) (kiss_len_in k) w
        else Some w) = Some w'" "I w'"
      using cb [of "kiss_buf_in k" "kiss_len_in k" w] Cons.prems
      by (cases "kiss_sync k \<and> 0 < kiss_len_in k") (auto simp: kiss_wf_def)
    with fend Cons show ?thesis by simp
  next
    case data
    then show ?thesis using Cons by (auto simp: store_at_def kiss_wf_def Let_def)
  qed (use Cons in simp_all)
qed

subsection \<open>The encoder\<close>

definition kiss_put :: "u8 \<Rightarrow> u8 list \<times> nat \<Rightarrow> (u8 list \<times> nat) option" where
  "kiss_put x s = map_option (\<lambda>b. (b, snd s + 1)) (store_at (fst s) (snd s) x)"

fun kiss_put_bytes :: "u8 list \<Rightarrow> u8 list \<times> nat \<Rightarrow> (u8 list \<times> nat) option" where
  "kiss_put_bytes [] s = Some s"
| "kiss_put_bytes (x # xs) s = do {
     s \<leftarrow> (if x = FEND then do { s \<leftarrow> kiss_put FESC s; kiss_put TFEND s }
          else if x = FESC then do { s \<leftarrow> kiss_put FESC s; kiss_put TFESC s }
          else kiss_put x s);
     kiss_put_bytes xs s }"

definition kiss_fill :: "u8 list \<Rightarrow> u8 list \<Rightarrow> (u8 list \<times> nat) option" where
  "kiss_fill buf buf_out = do {
     s \<leftarrow> kiss_put FEND (buf_out, 0);
     s \<leftarrow> kiss_put_bytes buf s;
     kiss_put FEND s }"

text \<open>The frame the encoder is to build.\<close>

fun kiss_esc :: "u8 \<Rightarrow> u8 list" where
  "kiss_esc x = (if x = FEND then [FESC, TFEND] else if x = FESC then [FESC, TFESC] else [x])"

definition kiss_escs :: "u8 list \<Rightarrow> u8 list" where
  "kiss_escs xs = concat (map kiss_esc xs)"

definition kiss_frame :: "u8 list \<Rightarrow> u8 list" where
  "kiss_frame xs = FEND # kiss_escs xs @ [FEND]"

lemma kiss_escs_simps [simp]:
  "kiss_escs [] = []" "kiss_escs (x # xs) = kiss_esc x @ kiss_escs xs"
  "kiss_escs (xs @ ys) = kiss_escs xs @ kiss_escs ys"
  by (simp_all add: kiss_escs_def)

lemma length_kiss_escs: "length xs \<le> length (kiss_escs xs)" "length (kiss_escs xs) \<le> 2 * length xs"
  by (induction xs) auto

lemma length_kiss_frame: "length (kiss_frame xs) = length (kiss_escs xs) + 2"
  by (simp add: kiss_frame_def)

lemma kiss_put_Some: "n < length b \<Longrightarrow> kiss_put x (b, n) = Some (b[n := x], Suc n)"
  by (simp add: kiss_put_def store_at_def)

lemma kiss_put_None: "length b \<le> n \<Longrightarrow> kiss_put x (b, n) = None"
  by (simp add: kiss_put_def store_at_def)

text \<open>Storing one byte after another, as a list operation.\<close>

fun kiss_puts :: "u8 list \<Rightarrow> u8 list \<times> nat \<Rightarrow> (u8 list \<times> nat) option" where
  "kiss_puts [] s = Some s"
| "kiss_puts (x # xs) s = Option.bind (kiss_put x s) (kiss_puts xs)"

lemma kiss_puts_fun [simp]:
  "kiss_puts [] = Some" "kiss_puts (x # xs) = (\<lambda>s. Option.bind (kiss_put x s) (kiss_puts xs))"
  by (rule ext, simp)+

lemma kiss_puts_app: "kiss_puts (xs @ ys) = (\<lambda>s. Option.bind (kiss_puts xs s) (kiss_puts ys))"
  by (induction xs) simp_all

lemma kiss_put_bytes_puts: "kiss_put_bytes xs = kiss_puts (kiss_escs xs)"
proof (induction xs)
  case Nil
  show ?case by (rule ext) simp
next
  case (Cons x xs)
  show ?case by (rule ext) (simp add: Cons.IH)
qed

lemma kiss_fill_puts: "kiss_fill xs out = kiss_puts (kiss_frame xs) (out, 0)"
  by (simp add: kiss_fill_def kiss_frame_def kiss_put_bytes_puts kiss_puts_app)

lemma kiss_puts_Some:
  "n + length xs \<le> length b \<Longrightarrow>
     kiss_puts xs (b, n) = Some (take n b @ xs @ drop (n + length xs) b, n + length xs)"
proof (induction xs arbitrary: b n)
  case (Cons x xs)
  then show ?case by (simp add: kiss_put_Some take_Suc_update)
qed simp

lemma kiss_puts_None: "n \<le> length b \<Longrightarrow> length b < n + length xs \<Longrightarrow> kiss_puts xs (b, n) = None"
proof (induction xs arbitrary: b n)
  case (Cons x xs)
  then show ?case by (cases "n < length b") (simp_all add: kiss_put_Some kiss_put_None)
qed simp

lemma kiss_fill_eq:
  "length (kiss_frame xs) \<le> length out \<Longrightarrow> kiss_fill xs out =
     Some (kiss_frame xs @ drop (length (kiss_frame xs)) out, length (kiss_frame xs))"
  using kiss_puts_Some [of 0 "kiss_frame xs" out] by (simp add: kiss_fill_puts)

lemma kiss_fill_overflow: "length out < length (kiss_frame xs) \<Longrightarrow> kiss_fill xs out = None"
  using kiss_puts_None [of 0 out "kiss_frame xs"] by (simp add: kiss_fill_puts)

subsection \<open>What the decoder makes of an encoded frame\<close>

text \<open>Between frames: nothing received since the last delimiter, no pending escape.\<close>

definition kiss_ready :: "kiss_st \<Rightarrow> bool" where
  "kiss_ready k \<longleftrightarrow> kiss_wf k \<and> \<not> kiss_escape k \<and> (kiss_sync k \<longrightarrow> kiss_len_in k = 0)"

lemma kiss_ready_init [simp]: "kiss_ready kiss_init"
  by (simp add: kiss_ready_def) (simp add: kiss_init_def)

text \<open>One payload byte, escaped or not, ends in the buffer.\<close>

lemma kiss_decode_byte:
  assumes "kiss_sync k" "\<not> kiss_escape k" "kiss_wf k" "kiss_len_in k + 1 < MTU"
  shows "kiss_decode cb (kiss_esc x @ rest) (k, w) = kiss_decode cb rest
     (k\<lparr>kiss_buf_in := (kiss_buf_in k)[kiss_len_in k := x], kiss_len_in := kiss_len_in k + 1\<rparr>, w)"
  using assms by (cases k) (auto simp: store_at_def kiss_wf_def kiss_unescape_def Let_def)

lemma kiss_decode_escs:
  assumes "kiss_sync k" "\<not> kiss_escape k" "kiss_wf k" "kiss_len_in k + length xs < MTU"
  shows "\<exists>buf. length buf = MTU
     \<and> take (kiss_len_in k + length xs) buf = take (kiss_len_in k) (kiss_buf_in k) @ xs
     \<and> (\<forall>w rest. kiss_decode cb (kiss_escs xs @ rest) (k, w) = kiss_decode cb rest
          (k\<lparr>kiss_buf_in := buf, kiss_len_in := kiss_len_in k + length xs\<rparr>, w))"
  using assms
proof (induction xs arbitrary: k)
  case Nil
  then show ?case by (intro exI [of _ "kiss_buf_in k"]) (simp add: kiss_wf_def)
next
  case (Cons x xs)
  define k1 where "k1 = k\<lparr>kiss_buf_in := (kiss_buf_in k)[kiss_len_in k := x], kiss_len_in := kiss_len_in k + 1\<rparr>"
  have k1: "kiss_sync k1" "\<not> kiss_escape k1" "kiss_wf k1" "kiss_len_in k1 + length xs < MTU"
    using Cons.prems by (simp_all add: k1_def kiss_wf_def)
  from Cons.IH [OF this] obtain buf where buf: "length buf = MTU"
      "take (kiss_len_in k1 + length xs) buf = take (kiss_len_in k1) (kiss_buf_in k1) @ xs"
      "\<And>w rest. kiss_decode cb (kiss_escs xs @ rest) (k1, w) = kiss_decode cb rest
          (k1\<lparr>kiss_buf_in := buf, kiss_len_in := kiss_len_in k1 + length xs\<rparr>, w)"
    by blast
  have "kiss_decode cb (kiss_escs (x # xs) @ rest) (k, w) = kiss_decode cb rest
      (k\<lparr>kiss_buf_in := buf, kiss_len_in := kiss_len_in k + length (x # xs)\<rparr>, w)" for w rest
    using kiss_decode_byte [of k cb x "kiss_escs xs @ rest" w] Cons.prems buf(3) [of rest w]
    by (simp add: k1_def)
  moreover have "take (kiss_len_in k + length (x # xs)) buf = take (kiss_len_in k) (kiss_buf_in k) @ x # xs"
    using buf(2) Cons.prems(3) by (simp add: k1_def kiss_wf_def take_Suc_update)
  ultimately show ?case using buf(1) by blast
qed

text \<open>
  An encoded payload of 1 to 1023 bytes makes exactly one call of the callback, with the payload
  at the start of the buffer, and leaves the decoder ready.
\<close>

lemma kiss_decode_frame:
  assumes "kiss_ready k" "0 < length p" "length p < MTU"
  shows "\<exists>buf k'. kiss_ready k' \<and> length buf = MTU \<and> take (length p) buf = p
     \<and> (\<forall>w rest. kiss_decode cb (kiss_frame p @ rest) (k, w) =
          Option.bind (cb buf (length p) w) (\<lambda>w'. kiss_decode cb rest (k', w')))"
proof -
  define k1 where "k1 = k\<lparr>kiss_len_in := 0, kiss_sync := True\<rparr>"
  have k1: "kiss_sync k1" "\<not> kiss_escape k1" "kiss_wf k1" "kiss_len_in k1 + length p < MTU"
    using assms by (simp_all add: k1_def kiss_ready_def)
  obtain buf where buf: "length buf = MTU" "take (length p) buf = p"
      "\<And>w rest. kiss_decode cb (kiss_escs p @ rest) (k1, w) = kiss_decode cb rest
          (k1\<lparr>kiss_buf_in := buf, kiss_len_in := length p\<rparr>, w)"
    using kiss_decode_escs [OF k1, of cb] by (auto simp: k1_def)
  define k2 where "k2 = k\<lparr>kiss_buf_in := buf, kiss_len_in := 0, kiss_sync := True\<rparr>"
  have "kiss_ready k2"
    using assms(1) buf(1) by (simp add: k2_def kiss_ready_def kiss_wf_def)
  moreover have "kiss_decode cb (kiss_frame p @ rest) (k, w) =
      Option.bind (cb buf (length p) w) (\<lambda>w'. kiss_decode cb rest (k2, w'))" for w rest
  proof -
    have "kiss_decode cb (kiss_frame p @ rest) (k, w) = kiss_decode cb (kiss_escs p @ FEND # rest) (k1, w)"
      using assms(1) by (auto simp: kiss_frame_def kiss_ready_def k1_def)
    also have "\<dots> = kiss_decode cb (FEND # rest) (k1\<lparr>kiss_buf_in := buf, kiss_len_in := length p\<rparr>, w)"
      by (rule buf(3))
    finally show ?thesis using assms(2) by (simp add: k2_def k1_def)
  qed
  ultimately show ?thesis using buf(1,2) by blast
qed

text \<open>
  Bytes without a delimiter make no call, and while there is room in the buffer a cut of the stream between two
  of them changes nothing. So the decoder may be given a frame in any number of pieces.
\<close>

abbreviation kiss_stored :: "u8 list \<Rightarrow> nat" where
  "kiss_stored bytes \<equiv> length (filter (\<lambda>b. b \<noteq> FESC) bytes)"

lemma kiss_decode_quiet:
  "kiss_wf k \<Longrightarrow> FEND \<notin> set bytes \<Longrightarrow> kiss_len_in k + kiss_stored bytes < MTU \<Longrightarrow>
     \<exists>k'. kiss_wf k' \<and> (\<forall>(cb :: u8 list \<Rightarrow> nat \<Rightarrow> 'w \<Rightarrow> 'w option) w rest. kiss_decode cb (bytes @ rest) (k, w) = kiss_decode cb rest (k', w))"
proof (induction bytes arbitrary: k)
  case (Cons b bytes)
  define k1 where "k1 = (if \<not> kiss_sync k then k else if b = FESC then k\<lparr>kiss_escape := True\<rparr>
     else k\<lparr>kiss_buf_in := (kiss_buf_in k)[kiss_len_in k := kiss_unescape (kiss_escape k) b], kiss_len_in := kiss_len_in k + 1,
       kiss_escape := False\<rparr>)"
  have k1: "kiss_wf k1" "kiss_len_in k1 + kiss_stored bytes < MTU"
    using Cons.prems by (auto simp: k1_def kiss_wf_def)
  have "kiss_decode cb ((b # bytes) @ rest) (k, w) = kiss_decode cb (bytes @ rest) (k1, w)" for cb :: "u8 list \<Rightarrow> nat \<Rightarrow> 'w \<Rightarrow> 'w option" and rest w
    using Cons.prems k1 by (auto simp: k1_def store_at_def kiss_wf_def Let_def)
  with Cons.IH [OF k1(1) _ k1(2)] Cons.prems(2) show ?case by (simp only: list.set insert_iff simp_thms) blast
qed auto

lemma kiss_escs_plain: "FEND \<notin> set (kiss_escs p)" "kiss_stored (kiss_escs p) = length p"
  by (induction p) auto

lemma kiss_decode_part:
  assumes "kiss_ready k" "length p < MTU" "kiss_frame p = pre @ suf" "suf \<noteq> []"
  shows "\<exists>k'. kiss_wf k' \<and> (\<forall>(cb :: u8 list \<Rightarrow> nat \<Rightarrow> 'w \<Rightarrow> 'w option) w rest. kiss_decode cb (pre @ rest) (k, w) = kiss_decode cb rest (k', w))"
proof (cases pre)
  case Nil
  then show ?thesis using assms(1) by (auto simp: kiss_ready_def)
next
  case (Cons b bytes)
  then have b: "b = FEND" "kiss_escs p @ [FEND] = bytes @ suf" using assms(3) by (simp_all add: kiss_frame_def)
  from b(2) have "\<exists>zs. kiss_escs p = bytes @ zs"
    using assms(4) by (metis append_butlast_last_id append_assoc append1_eq_conv)
  then obtain zs where z: "kiss_escs p = bytes @ zs" by blast
  then have q: "FEND \<notin> set bytes" "kiss_stored bytes \<le> length p"
    using kiss_escs_plain [of p] by auto
  define k1 where "k1 = k\<lparr>kiss_len_in := 0, kiss_sync := True\<rparr>"
  have "kiss_wf k1" "kiss_len_in k1 + kiss_stored bytes < MTU" using assms(1,2) q(2) by (simp_all add: k1_def kiss_ready_def)
  moreover have "kiss_decode cb (pre @ rest) (k, w) = kiss_decode cb (bytes @ rest) (k1, w)" for cb :: "u8 list \<Rightarrow> nat \<Rightarrow> 'w \<Rightarrow> 'w option" and rest w
    using assms(1) by (auto simp: Cons b(1) k1_def kiss_ready_def)
  ultimately show ?thesis using kiss_decode_quiet [OF _ q(1), of k1] by (simp only:) blast
qed

subsection \<open>The framing interface\<close>

text \<open>
  What a byte stream protocol promises the layer above: in a ready receiver, the bytes of one
  frame deliver exactly its payload and leave the receiver ready, whatever bytes follow.
\<close>

locale framing =
  fixes frame :: "'a list \<Rightarrow> 'b list"
    and recv :: "'b list \<Rightarrow> 's \<times> 'a list list \<Rightarrow> ('s \<times> 'a list list) option"
    and ready :: "'s \<Rightarrow> bool"
    and fits :: "'a list \<Rightarrow> bool"
  assumes recv_nil: "recv [] s = Some s"
    and recv_frame: "ready k \<Longrightarrow> fits p \<Longrightarrow>
      \<exists>k'. ready k' \<and> (\<forall>fs rest. recv (frame p @ rest) (k, fs) = recv rest (k', fs @ [p]))"
begin

lemma recv_stream:
  "ready k \<Longrightarrow> list_all fits ps \<Longrightarrow>
     \<exists>k'. ready k' \<and> recv (concat (map frame ps)) (k, fs) = Some (k', fs @ ps)"
proof (induction ps arbitrary: k fs)
  case Nil
  then show ?case by (auto simp: recv_nil)
next
  case (Cons p ps)
  then obtain k1 where k1: "ready k1"
      "\<And>fs rest. recv (frame p @ rest) (k, fs) = recv rest (k1, fs @ [p])"
    using recv_frame [of k p] by auto
  with Cons.IH [of k1 "fs @ [p]"] Cons.prems show ?case by auto
qed

end

text \<open>A callback that records the payloads.\<close>

definition kiss_collect :: "u8 list \<Rightarrow> nat \<Rightarrow> u8 list list \<Rightarrow> u8 list list option" where
  "kiss_collect buf n fs = Some (fs @ [take n buf])"

definition kiss_fits :: "u8 list \<Rightarrow> bool" where
  "kiss_fits p \<longleftrightarrow> 0 < length p \<and> length p < MTU"

interpretation kiss: framing kiss_frame "kiss_decode kiss_collect" kiss_ready kiss_fits
proof
  fix k p
  assume "kiss_ready k" "kiss_fits p"
  then obtain buf k' where "kiss_ready k'" "take (length p) buf = p"
      "\<And>w rest. kiss_decode kiss_collect (kiss_frame p @ rest) (k, w) =
          Option.bind (kiss_collect buf (length p) w) (\<lambda>w'. kiss_decode kiss_collect rest (k', w'))"
    using kiss_decode_frame [of k p kiss_collect] by (auto simp: kiss_fits_def)
  then show "\<exists>k'. kiss_ready k' \<and> (\<forall>fs rest. kiss_decode kiss_collect (kiss_frame p @ rest) (k, fs)
      = kiss_decode kiss_collect rest (k', fs @ [p]))"
    by (auto simp: kiss_collect_def)
qed simp

end
