(* ===== verification/Machine.thy ===== *)
theory Machine
  imports CFloat Kiss
begin

section \<open>The state of the daemon and its environment\<close>

text \<open>
  One record per source file for its static variables, and one record, \<open>world\<close>, for the whole
  process. What the process reads from outside (clock, random numbers, the radio's BUSY line and
  SPI answers, results of socket calls) is the record \<open>env\<close>: each field is a stream indexed by the number of
  reads made so far, and every read advances the index \<open>reads\<close>. What the process does to the outside is the list
  \<open>trace\<close>, in the order of the calls. Handlers of the three threads (socket loop, radio interrupts,
  transmit queue) run one at a time on the world: the model interleaves whole handlers. Where threads share a lock, a buffer
  or the antenna, \<^verbatim>\<open>QueueThreads\<close> and \<^verbatim>\<open>Races\<close> interleave them below that.
\<close>

subsection \<open>Enumerations of the radio driver\<close>

datatype header_type_t = HEADER_EXPLICIT | HEADER_IMPLICIT

primrec header_code :: "header_type_t \<Rightarrow> u8" where
  "header_code HEADER_EXPLICIT = 0x00"
| "header_code HEADER_IMPLICIT = 0x01"

datatype crc_t = CRC_OFF | CRC_ON

primrec crc_code :: "crc_t \<Rightarrow> u8" where
  "crc_code CRC_OFF = 0x00"
| "crc_code CRC_ON = 0x01"

datatype bw_t = BW_7800 | BW_10400 | BW_15600 | BW_20800 | BW_31250 | BW_41700 | BW_62500
  | BW_125000 | BW_250000 | BW_500000

primrec bw_code :: "bw_t \<Rightarrow> u8" where
  "bw_code BW_7800 = 0x00" | "bw_code BW_10400 = 0x08" | "bw_code BW_15600 = 0x01"
| "bw_code BW_20800 = 0x09" | "bw_code BW_31250 = 0x02" | "bw_code BW_41700 = 0x0A"
| "bw_code BW_62500 = 0x03" | "bw_code BW_125000 = 0x04" | "bw_code BW_250000 = 0x05"
| "bw_code BW_500000 = 0x06"

datatype cr_t = CR_4_4 | CR_4_5 | CR_4_6 | CR_4_7 | CR_4_8

primrec cr_code :: "cr_t \<Rightarrow> u8" where
  "cr_code CR_4_4 = 0x00" | "cr_code CR_4_5 = 0x01" | "cr_code CR_4_6 = 0x02"
| "cr_code CR_4_7 = 0x03" | "cr_code CR_4_8 = 0x04"

datatype ldro_t = LDRO_OFF | LDRO_ON

primrec ldro_code :: "ldro_t \<Rightarrow> u8" where
  "ldro_code LDRO_OFF = 0x00"
| "ldro_code LDRO_ON = 0x01"

datatype cause_medium_t = CAUSE_INIT | CAUSE_PREAMBLE_DETECTED | CAUSE_HEADER_VALID
  | CAUSE_HEADER_ERR | CAUSE_RX_DONE | CAUSE_TX_DONE

datatype state_t = SX126X_IDLE | SX126X_RX_SINGLE | SX126X_RX_CONTINUOUS | SX126X_TX

subsection \<open>Observable actions\<close>

datatype pin = CS | RST | TX_EN | RX_EN

datatype send_result = Sent nat | Would_block | Send_error

datatype io =
    Pin pin bool             \<comment> \<open>a GPIO output is driven\<close>
  | Spi "u8 list"            \<comment> \<open>an SPI message of one write transfer\<close>
  | SpiXfer "u8 list" nat    \<comment> \<open>a write transfer followed by a read of so many bytes\<close>
  | SpiDuplex "u8 list"      \<comment> \<open>one transfer, reading while writing\<close>
  | TcpSend "u8 list" send_result
  | TcpClose int
  | TcpAccept int

subsection \<open>Static variables, file by file\<close>

record tcp_st =
  server_fd :: int
  client_fd :: int
  tcp_buf_in :: "u8 list"

record sx_st =
  tx_en_line :: bool
  rx_en_line :: bool
  recovering :: bool
  fifo_tx_addr_ptr :: u8
  fifo_rx_addr_ptr :: u8
  payload_tx_rx :: u8
  save_header_type :: header_type_t
  save_preamble_len :: u8
  save_payload_len :: u8
  save_crc :: crc_t
  save_sf :: u8
  save_cr :: u8
  save_bw :: u32
  save_ldro :: bool
  preamble_symbols :: u32
  symbol_rate :: cfloat
  symbol_time_ms :: cfloat
  bitrate :: u32
  radio_state :: state_t

record csma_channel_t =
  airtime :: cfloat
  longterm_airtime :: cfloat
  total_channel_util :: cfloat
  longterm_channel_util :: cfloat
  current_rssi :: int
  noise_floor :: int

record csma_cw_t =
  cw_band :: u8
  cw_min :: u8
  cw_max :: u8

record csma_st =
  channel :: csma_channel_t
  cw :: csma_cw_t
  airtime_bins :: "u16 list"
  longterm_bins :: "cfloat list"
  csma_slot_ms :: int
  difs_ms :: int
  lora_symbol_time_ms :: cfloat
  lora_symbol_rate :: cfloat
  lora_preamble_symbols :: int
  lora_preamble_time_ms :: int
  lora_should_flush :: bool
  dcd :: bool
  util_samples :: "bool list"
  dcd_sample :: nat
  local_channel_util :: cfloat
  noise_floor_buffer :: "int list"
  noise_floor_sample :: nat
  noise_floor_sampled :: bool
  interference_detected :: bool
  avoid_interference :: bool
  interference_start :: u64
  interference_persists :: bool

text \<open>A queue node lives in a heap, so that \<^verbatim>\<open>head\<close>, \<^verbatim>\<open>tail\<close> and \<^verbatim>\<open>next\<close> are pointers.\<close>

record item_t =
  item_data :: "u8 list"
  item_next :: "nat option"

record queue_st =
  q_heap :: "nat \<rightharpoonup> item_t"
  q_brk :: nat
  q_head :: "nat option"
  q_tail :: "nat option"
  queue_depth :: u16
  tx_enable :: bool
  tx_header_timeout :: u32
  tx_data_timeout :: u32
  tx_disabled :: u64
  tx_wait_timeout :: u64
  rssi_delay :: u64
  medium_free_since :: u64
  cw_wait_start :: u64
  cw_wait_passed :: u64
  cw_target :: u64
  cw_picked :: bool
  flushing :: bool

record rnode_st =
  rn_seq :: u8
  rn_buf_in :: "u8 list"
  rn_len_in :: nat
  seq_tx :: u8
  buf_tx :: "u8 list"
  len_tx :: nat
  current_freq :: u32
  current_bw :: bw_t
  current_cr :: cr_t
  current_tx_power :: u8
  current_sf :: u8
  rssi_offset :: u8
  preamble_length :: u16
  header_implicit :: bool
  radio_online :: bool
  stat_rx :: u32
  stat_tx :: u32
  st_airtime_limit :: cfloat
  lt_airtime_limit :: cfloat
  promisc :: bool
  dev_hash :: "u8 list"
  dev_hash_ready :: bool

record world =
  reads :: nat
  trace :: "io list"
  tcp :: tcp_st
  kiss_in :: kiss_st
  kiss_out :: "u8 list"
  sx :: sx_st
  cs :: csma_st
  qu :: queue_st
  rn :: rnode_st

subsection \<open>The initial values\<close>

definition sx_init :: sx_st where
  "sx_init = \<lparr>tx_en_line = False, rx_en_line = False, recovering = False, fifo_tx_addr_ptr = 0,
     fifo_rx_addr_ptr = 0, payload_tx_rx = 32, save_header_type = HEADER_EXPLICIT,
     save_preamble_len = 12, save_payload_len = 32, save_crc = CRC_ON, save_sf = 0, save_cr = 0,
     save_bw = 0, save_ldro = False, preamble_symbols = 0, symbol_rate = Fin 0,
     symbol_time_ms = Fin 0, bitrate = 0, radio_state = SX126X_IDLE\<rparr>"

definition rnode_init :: rnode_st where
  "rnode_init = \<lparr>rn_seq = 0xFF, rn_buf_in = replicate MTU 0, rn_len_in = 0, seq_tx = 0xFF,
     buf_tx = replicate 255 0, len_tx = 0, current_freq = 0, current_bw = BW_7800,
     current_cr = CR_4_4, current_tx_power = 0, current_sf = 0, rssi_offset = 0,
     preamble_length = 18, header_implicit = False, radio_online = False, stat_rx = 0, stat_tx = 0,
     st_airtime_limit = Fin 0, lt_airtime_limit = Fin 0, promisc = False,
     dev_hash = replicate 32 0, dev_hash_ready = False\<rparr>"

definition queue_init_st :: queue_st where
  "queue_init_st = \<lparr>q_heap = Map.empty, q_brk = 0, q_head = None, q_tail = None, queue_depth = 0,
     tx_enable = False, tx_header_timeout = 0, tx_data_timeout = 0, tx_disabled = - 1,
     tx_wait_timeout = 0, rssi_delay = 0, medium_free_since = 0, cw_wait_start = 0,
     cw_wait_passed = 0, cw_target = 0, cw_picked = False, flushing = False\<rparr>"

definition csma_init :: csma_st where
  "csma_init = \<lparr>channel = \<lparr>airtime = Fin 0, longterm_airtime = Fin 0, total_channel_util = Fin 0,
       longterm_channel_util = Fin 0, current_rssi = - 292, noise_floor = - 292\<rparr>,
     cw = \<lparr>cw_band = 1, cw_min = 0, cw_max = 15\<rparr>, airtime_bins = replicate 480 0,
     longterm_bins = replicate 480 (Fin 0), csma_slot_ms = 24, difs_ms = 0 + 2 * 24,
     lora_symbol_time_ms = Fin 0, lora_symbol_rate = Fin 0, lora_preamble_symbols = 18,
     lora_preamble_time_ms = 0, lora_should_flush = False, dcd = False,
     util_samples = replicate 2500 False, dcd_sample = 0, local_channel_util = Fin 0,
     noise_floor_buffer = replicate 128 0, noise_floor_sample = 0, noise_floor_sampled = False,
     interference_detected = False, avoid_interference = True, interference_start = 0,
     interference_persists = False\<rparr>"

definition world_init :: world where
  "world_init = \<lparr>reads = 0, trace = [],
     tcp = \<lparr>server_fd = 0, client_fd = 0, tcp_buf_in = replicate MTU 0\<rparr>,
     kiss_in = kiss_init, kiss_out = replicate MTU 0, sx = sx_init, cs = csma_init,
     qu = queue_init_st, rn = rnode_init\<rparr>"

subsection \<open>The environment\<close>

record env =
  clock_sec :: "nat \<Rightarrow> u64"
  clock_nsec :: "nat \<Rightarrow> u64"
  random_src :: "nat \<Rightarrow> u64"
  busy_line :: "nat \<Rightarrow> int"
  spi_ret :: "nat \<Rightarrow> int"
  spi_miso :: "nat \<Rightarrow> nat \<Rightarrow> u8"
  stack_junk :: "nat \<Rightarrow> nat \<Rightarrow> u8"
  malloc_junk :: "nat \<Rightarrow> nat option"
  send_ret :: "nat \<Rightarrow> send_result"
  getrandom_ret :: "nat \<Rightarrow> nat \<Rightarrow> u8"
  machine_id_file :: "u8 list option"

definition emit :: "io list \<Rightarrow> world \<Rightarrow> world" where
  "emit es w = w\<lparr>trace := trace w @ es\<rparr>"

definition next_read :: "world \<Rightarrow> world" where
  "next_read w = w\<lparr>reads := reads w + 1\<rparr>"

text \<open>\<^verbatim>\<open>get_time\<close> of \<^verbatim>\<open>src/util.c\<close>: the monotonic clock in milliseconds.\<close>

definition get_time :: "env \<Rightarrow> world \<Rightarrow> u64 \<times> world" where
  "get_time E w = (let usec = clock_sec E (reads w) * 1000000 + clock_nsec E (reads w) div 1000
     in (usec div 1000, next_read w))"

text \<open>\<^verbatim>\<open>random()\<close>: a non-negative \<^verbatim>\<open>long\<close>.\<close>

definition random_long :: "env \<Rightarrow> world \<Rightarrow> u64 \<times> world" where
  "random_long E w = (random_src E (reads w) AND 0x7FFFFFFF, next_read w)"

lemma get_time_ms:
  assumes "unat (clock_sec E (reads w)) < 2 ^ 40" "unat (clock_nsec E (reads w)) < 10 ^ 9"
  shows "unat (fst (get_time E w)) =
     unat (clock_sec E (reads w)) * 1000 + unat (clock_nsec E (reads w)) div 1000000"
proof -
  let ?s = "clock_sec E (reads w)" and ?n = "clock_nsec E (reads w)"
  have m: "unat (?s * 1000000) = unat ?s * 1000000"
    using assms(1) by (subst unat_mult_lem [THEN iffD1]) auto
  have d: "unat (?n div 1000) = unat ?n div 1000" by (simp add: unat_div)
  have "unat (?s * 1000000 + ?n div 1000) = unat ?s * 1000000 + unat ?n div 1000"
    using assms m d by (subst unat_add_lem [THEN iffD1]) auto
  then have "unat (fst (get_time E w)) = (unat ?s * 1000000 + unat ?n div 1000) div 1000"
    by (simp add: get_time_def Let_def unat_div)
  also have "\<dots> = unat ?s * 1000 + unat ?n div 1000000"
    by (simp add: div_mult2_eq [symmetric] div_add1_eq flip: div_mult2_eq)
  finally show ?thesis .
qed

lemma emit_simps [simp]:
  "reads (emit es w) = reads w" "trace (emit es w) = trace w @ es" "tcp (emit es w) = tcp w"
  "kiss_in (emit es w) = kiss_in w" "kiss_out (emit es w) = kiss_out w" "sx (emit es w) = sx w"
  "cs (emit es w) = cs w" "qu (emit es w) = qu w" "rn (emit es w) = rn w"
  by (simp_all add: emit_def)

lemma next_read_simps [simp]:
  "reads (next_read w) = Suc (reads w)" "trace (next_read w) = trace w" "tcp (next_read w) = tcp w"
  "kiss_in (next_read w) = kiss_in w" "kiss_out (next_read w) = kiss_out w"
  "sx (next_read w) = sx w" "cs (next_read w) = cs w" "qu (next_read w) = qu w"
  "rn (next_read w) = rn w"
  by (simp_all add: next_read_def)

lemma get_time_snd [simp]: "snd (get_time E w) = next_read w"
  by (simp add: get_time_def Let_def)

lemma random_long_snd [simp]: "snd (random_long E w) = next_read w"
  by (simp add: random_long_def)

end
