(* ===== verification/Host.thy ===== *)
theory Host
  imports Machine
begin

section \<open>Output to the host\<close>

text \<open>
  The sending half of \<^verbatim>\<open>src/tcp.c\<close> (\<^verbatim>\<open>tcp_send\<close>) and of \<^verbatim>\<open>src/kiss.c\<close> (\<^verbatim>\<open>kiss_encode\<close>), and
  \<^verbatim>\<open>rnode_report_error\<close>, which every layer below the protocol uses. The central fact is
  \<open>kiss_encode_eq\<close>: as long as the encoded frame fits the output buffer, an answer is one
  \<^verbatim>\<open>send\<close> of the frame and nothing but the socket state changes.
\<close>

subsection \<open>The code\<close>

definition tcp_send :: "env \<Rightarrow> u8 list \<Rightarrow> world \<Rightarrow> world" where
  "tcp_send E buf w =
     (if 0 < client_fd (tcp w) then
        let sent = send_ret E (reads w);
            w = emit [TcpSend buf sent] (next_read w)
        in case sent of
             Send_error \<Rightarrow> emit [TcpClose (client_fd (tcp w))] (w\<lparr>tcp := (tcp w)\<lparr>client_fd := 0\<rparr>\<rparr>)
           | _ \<Rightarrow> w
      else w)"

definition kiss_encode :: "env \<Rightarrow> u8 list \<Rightarrow> world \<Rightarrow> world option" where
  "kiss_encode E buf w = do {
     (out, index) \<leftarrow> kiss_fill buf (kiss_out w);
     Some (tcp_send E (take index out) (w\<lparr>kiss_out := out\<rparr>)) }"

abbreviation "CMD_ERROR \<equiv> 0x90 :: u8"
abbreviation "ERROR_INITRADIO \<equiv> 0x01 :: u8"
abbreviation "ERROR_INVALID_COMMAND \<equiv> 0x07 :: u8"

definition rnode_report_error :: "env \<Rightarrow> u8 \<Rightarrow> world \<Rightarrow> world option" where
  "rnode_report_error E error_code = kiss_encode E [CMD_ERROR, error_code]"

subsection \<open>What a send changes\<close>

definition host_send :: "env \<Rightarrow> u8 list \<Rightarrow> world \<Rightarrow> world" where
  "host_send E buf w = tcp_send E (kiss_frame buf)
     (w\<lparr>kiss_out := kiss_frame buf @ drop (length (kiss_frame buf)) (kiss_out w)\<rparr>)"

lemma tcp_send_frame [simp]:
  "kiss_in (tcp_send E buf w) = kiss_in w" "kiss_out (tcp_send E buf w) = kiss_out w"
  "sx (tcp_send E buf w) = sx w" "cs (tcp_send E buf w) = cs w"
  "qu (tcp_send E buf w) = qu w" "rn (tcp_send E buf w) = rn w"
  by (auto simp: tcp_send_def Let_def split: send_result.split)

lemma host_send_frame [simp]:
  "kiss_in (host_send E buf w) = kiss_in w" "sx (host_send E buf w) = sx w"
  "cs (host_send E buf w) = cs w" "qu (host_send E buf w) = qu w" "rn (host_send E buf w) = rn w"
  by (simp_all add: host_send_def)

lemma kiss_encode_eq:
  assumes "length (kiss_out w) = MTU" "length (kiss_frame buf) \<le> MTU"
  shows "kiss_encode E buf w = Some (host_send E buf w)"
  using assms by (simp add: kiss_encode_def kiss_fill_eq host_send_def)

lemma host_send_out [simp]:
  "length (kiss_out w) = MTU \<Longrightarrow> length (kiss_frame buf) \<le> MTU \<Longrightarrow>
     length (kiss_out (host_send E buf w)) = MTU"
  by (simp add: host_send_def)

lemma kiss_frame_short: "length buf \<le> 511 \<Longrightarrow> length (kiss_frame buf) \<le> MTU"
  using length_kiss_escs(2) [of buf] by (simp add: length_kiss_frame)

lemma kiss_encode_short:
  "length (kiss_out w) = MTU \<Longrightarrow> length buf \<le> 511 \<Longrightarrow> kiss_encode E buf w = Some (host_send E buf w)"
  by (simp add: kiss_encode_eq kiss_frame_short)

lemma kiss_encode_cs: "kiss_encode E buf w = Some w' \<Longrightarrow> cs w' = cs w"
  by (auto simp: kiss_encode_def split: bind_splits)

lemma kiss_encode_None_iff:
  "length (kiss_out w) = MTU \<Longrightarrow> kiss_encode E buf w = None \<longleftrightarrow> MTU < length (kiss_frame buf)"
  by (cases "MTU < length (kiss_frame buf)")
     (simp_all add: kiss_encode_def kiss_fill_overflow kiss_encode_eq [unfolded kiss_encode_def])

subsection \<open>Host events on the trace\<close>

primrec host_io :: "io \<Rightarrow> bool" where
  "host_io (Pin p b) = False"
| "host_io (Spi m) = False"
| "host_io (SpiXfer m n) = False"
| "host_io (SpiDuplex m) = False"
| "host_io (TcpSend b r) = True"
| "host_io (TcpClose fd) = True"
| "host_io (TcpAccept fd) = True"

lemma tcp_send_trace: "\<exists>es. trace (tcp_send E buf w) = trace w @ es \<and> list_all host_io es"
  by (auto simp: tcp_send_def Let_def split: send_result.split)

lemma host_send_trace: "\<exists>es. trace (host_send E buf w) = trace w @ es \<and> list_all host_io es"
  using tcp_send_trace [of E "kiss_frame buf"
      "w\<lparr>kiss_out := kiss_frame buf @ drop (length (kiss_frame buf)) (kiss_out w)\<rparr>"]
  by (simp add: host_send_def)

text \<open>The byte strings handed to \<^verbatim>\<open>send\<close>.\<close>

fun sent_frames :: "io list \<Rightarrow> u8 list list" where
  "sent_frames [] = []"
| "sent_frames (TcpSend b r # es) = b # sent_frames es"
| "sent_frames (_ # es) = sent_frames es"

lemma sent_frames_app [simp]: "sent_frames (xs @ ys) = sent_frames xs @ sent_frames ys"
  by (induction xs rule: sent_frames.induct) auto

text \<open>A client is connected and its socket takes every send.\<close>

definition host_up :: "env \<Rightarrow> world \<Rightarrow> bool" where
  "host_up E w \<longleftrightarrow> 0 < client_fd (tcp w) \<and> (\<forall>n. send_ret E n \<noteq> Send_error)"

lemma tcp_send_up:
  "host_up E w \<Longrightarrow> tcp_send E buf w = emit [TcpSend buf (send_ret E (reads w))] (next_read w)"
  by (auto simp: tcp_send_def host_up_def Let_def split: send_result.split)

lemma host_up_send [simp]: "host_up E w \<Longrightarrow> host_up E (host_send E buf w)"
  by (auto simp: host_send_def tcp_send_def host_up_def Let_def split: send_result.split)

lemma sent_host_send:
  "host_up E w \<Longrightarrow> sent_frames (trace (host_send E buf w)) = sent_frames (trace w) @ [kiss_frame buf]"
  by (simp add: host_send_def tcp_send_up host_up_def)

end
