(* ===== verification/Sx126x.thy ===== *)
theory Sx126x
  imports Host
begin

section \<open>The SX126x radio driver\<close>

text \<open>
  \<^verbatim>\<open>sx126x/sx126x.c\<close> without the GPIO set-up: the SPI primitives, the radio commands, the bounded
  wait on the BUSY line with its recovery, the start-up sequence, the receive and transmit requests
  and the air time. The code's \<^verbatim>\<open>wait_on_busy\<close> and \<^verbatim>\<open>sx126x_begin\<close> call each other; a static flag
  stops the recursion at depth one, so the definitions take the waiting operation as an argument and
  are tied together below.
\<close>

subsection \<open>SPI transfers\<close>

definition set_pin :: "pin \<Rightarrow> bool \<Rightarrow> world \<Rightarrow> world" where
  "set_pin p v = emit [Pin p v]"

definition write_bytes :: "env \<Rightarrow> u8 list \<Rightarrow> world \<Rightarrow> bool \<times> world" where
  "write_bytes E buf w =
     (let l = spi_ret E (reads w)
      in (l = int (length buf), emit [Pin CS False, Spi buf, Pin CS True] (next_read w)))"

definition write_read_bytes :: "env \<Rightarrow> u8 list \<Rightarrow> u8 list \<Rightarrow> world \<Rightarrow> (bool \<times> u8 list) \<times> world" where
  "write_read_bytes E buf res w =
     (let i = reads w; l = spi_ret E i;
          res = (if l < 0 then res else map (spi_miso E i) [0..<length res])
      in ((l = int (length buf + length res), res),
          emit [Pin CS False, SpiXfer buf (length res), Pin CS True] (next_read w)))"

definition read_bytes :: "env \<Rightarrow> u8 list \<Rightarrow> u8 list \<Rightarrow> world \<Rightarrow> (bool \<times> u8 list) \<times> world" where
  "read_bytes E buf res w =
     (let i = reads w; l = spi_ret E i;
          res = (if l < 0 then res else map (spi_miso E i) [0..<length res])
      in ((l = int (length buf), res), emit [Pin CS False, SpiDuplex buf, Pin CS True] (next_read w)))"

definition write_reg :: "env \<Rightarrow> u16 \<Rightarrow> u8 list \<Rightarrow> world \<Rightarrow> bool \<times> world" where
  "write_reg E reg buf = write_bytes E (0x0D # byte_at 8 reg # byte_at 0 reg # buf)"

definition write_buffer :: "env \<Rightarrow> u8 list \<Rightarrow> world \<Rightarrow> bool \<times> world" where
  "write_buffer E buf w =
     (let msg = 0x0E # fifo_tx_addr_ptr (sx w) # buf;
          w = w\<lparr>sx := (sx w)\<lparr>fifo_tx_addr_ptr := fifo_tx_addr_ptr (sx w) + of_nat (length buf)\<rparr>\<rparr>
      in write_bytes E msg w)"

definition read_buffer :: "env \<Rightarrow> nat \<Rightarrow> world \<Rightarrow> u8 list \<times> world" where
  "read_buffer E len w =
     (let msg = [0x1E, fifo_rx_addr_ptr (sx w)];
          ans = map (stack_junk E (reads w)) [0..<len + 1];
          ((r, ans), w) = write_read_bytes E msg ans w
      in (tl ans, w))"

subsection \<open>Radio commands\<close>

definition set_standby :: "env \<Rightarrow> u8 \<Rightarrow> world \<Rightarrow> bool \<times> world" where
  "set_standby E x = write_bytes E [0x80, x]"

definition set_packet_type :: "env \<Rightarrow> u8 \<Rightarrow> world \<Rightarrow> bool \<times> world" where
  "set_packet_type E x = write_bytes E [0x8A, x]"

definition calibrate :: "env \<Rightarrow> u8 \<Rightarrow> world \<Rightarrow> bool \<times> world" where
  "calibrate E x = write_bytes E [0x89, x]"

definition calibrate_image :: "env \<Rightarrow> u8 \<Rightarrow> u8 \<Rightarrow> world \<Rightarrow> bool \<times> world" where
  "calibrate_image E mn mx = write_bytes E [0x98, mn, mx]"

text \<open>
  The search for \<open>m * 2 ^ e\<close> not below \<^verbatim>\<open>preamble_len - 4\<close>; the comparison is unsigned, so a
  preamble of fewer than four symbols compares with a huge bound. The result is the pair of the
  last value computed and of the mantissa the inner loop stopped at.
\<close>

function preamble_inner :: "nat \<Rightarrow> nat \<Rightarrow> u32 \<Rightarrow> u32 \<Rightarrow> u32" where
  "preamble_inner e m s bound =
     (if m \<le> 15 then
        let s = of_nat m * 2 ^ e in if bound \<le> s then s else preamble_inner e (m + 1) s bound
      else s)"
  by pat_completeness auto
termination
  by (relation "measure (\<lambda>(e, m, s, b). 16 - m)") auto

function preamble_outer :: "nat \<Rightarrow> u32 \<Rightarrow> u32 \<Rightarrow> u32" where
  "preamble_outer e s bound =
     (if e \<le> 15 then
        let s = preamble_inner e 1 s bound in if bound \<le> s then s else preamble_outer (e + 1) s bound
      else s)"
  by pat_completeness auto
termination
  by (relation "measure (\<lambda>(e, s, b). 16 - e)") auto

declare preamble_inner.simps [simp del] preamble_outer.simps [simp del]

definition preamble_search :: "u8 \<Rightarrow> u32 \<Rightarrow> u32" where
  "preamble_search preamble_len s = preamble_outer 1 s (ucast preamble_len - 4)"

definition set_packet_params_loRa :: "env \<Rightarrow> u8 \<Rightarrow> header_type_t \<Rightarrow> u8 \<Rightarrow> crc_t \<Rightarrow> world \<Rightarrow> bool \<times> world"
where
  "set_packet_params_loRa E preamble_len header_type payload_len crc w =
     (let w = w\<lparr>sx := (sx w)\<lparr>preamble_symbols := preamble_search preamble_len (preamble_symbols (sx w))\<rparr>\<rparr>
      in write_bytes E [0x8C, byte_at 8 (ucast preamble_len :: u32), preamble_len,
           header_code header_type, payload_len, crc_code crc, 0, 0, 0, 0] w)"

definition clear_irq_status :: "env \<Rightarrow> u16 \<Rightarrow> world \<Rightarrow> bool \<times> world" where
  "clear_irq_status E irq_mask = write_bytes E (0x02 # be16 irq_mask)"

definition irq_setup :: "env \<Rightarrow> u16 \<Rightarrow> u16 \<Rightarrow> u16 \<Rightarrow> u16 \<Rightarrow> world \<Rightarrow> bool \<times> world" where
  "irq_setup E irq_mask dio1 dio2 dio3 w =
     (let (r, w) = clear_irq_status E 0x03FF w
      in write_bytes E (0x08 # be16 irq_mask @ be16 dio1 @ be16 dio2 @ be16 dio3) w)"

definition get_irq_status :: "env \<Rightarrow> world \<Rightarrow> u16 \<times> world" where
  "get_irq_status E w =
     (let ((r, ans), w) = write_read_bytes E [0x12] [0, 0, 0] w in (of_be16 (ans ! 1) (ans ! 2), w))"

definition get_rx_buffer_status :: "env \<Rightarrow> world \<Rightarrow> u8 \<times> world" where
  "get_rx_buffer_status E w =
     (let ((r, ans), w) = write_read_bytes E [0x13] [0, 0, 0] w
      in (ans ! 1, w\<lparr>sx := (sx w)\<lparr>fifo_rx_addr_ptr := ans ! 2\<rparr>\<rparr>))"

definition get_packet_status :: "env \<Rightarrow> world \<Rightarrow> (u8 \<times> u8 \<times> u8) \<times> world" where
  "get_packet_status E w =
     (let ((r, ans), w) = write_read_bytes E [0x14] [0, 0, 0, 0] w in ((ans ! 1, ans ! 2, ans ! 3), w))"

definition get_current_rssi :: "env \<Rightarrow> world \<Rightarrow> u8 \<times> world" where
  "get_current_rssi E w = (let ((r, ans), w) = write_read_bytes E [0x15] [0] w in (ans ! 0, w))"

definition set_tx :: "env \<Rightarrow> u32 \<Rightarrow> world \<Rightarrow> bool \<times> world" where
  "set_tx E timeout = write_bytes E [0x83, byte_at 16 timeout, byte_at 8 timeout, byte_at 0 timeout]"

definition set_rx :: "env \<Rightarrow> u32 \<Rightarrow> world \<Rightarrow> bool \<times> world" where
  "set_rx E timeout = write_bytes E [0x82, byte_at 16 timeout, byte_at 8 timeout, byte_at 0 timeout]"

definition sx126x_get_status_mode :: "env \<Rightarrow> world \<Rightarrow> u8 \<times> world" where
  "sx126x_get_status_mode E w =
     (let ((r, res), w) = read_bytes E [0xC0, 0x00] [0x00, 0x00] w in (res ! 1, w))"

text \<open>The antenna switch: the line going off is driven before the line going on.\<close>

definition switch_ant :: "world \<Rightarrow> world" where
  "switch_ant w = (case radio_state (sx w) of
     SX126X_IDLE \<Rightarrow>
       let w = (if rx_en_line (sx w) then set_pin RX_EN False w else w)
       in if tx_en_line (sx w) then set_pin TX_EN False w else w
   | SX126X_TX \<Rightarrow>
       let w = (if rx_en_line (sx w) then set_pin RX_EN False w else w)
       in if tx_en_line (sx w) then set_pin TX_EN True w else w
   | _ \<Rightarrow>
       let w = (if tx_en_line (sx w) then set_pin TX_EN False w else w)
       in if rx_en_line (sx w) then set_pin RX_EN True w else w)"

subsection \<open>Waiting on BUSY\<close>

definition get_busy :: "env \<Rightarrow> world \<Rightarrow> int \<times> world" where
  "get_busy E w = (busy_line E (reads w), next_read w)"

text \<open>The polling loop: \<open>True\<close> when the limit of 10000 polls is reached.\<close>

function busy_poll :: "env \<Rightarrow> nat \<Rightarrow> world \<Rightarrow> bool \<times> world" where
  "busy_poll E count w =
     (let (b, w) = get_busy E w
      in if b = 1 then if 10000 \<le> count + 1 then (True, w) else busy_poll E (count + 1) w
         else (False, w))"
  by pat_completeness auto
termination
  by (relation "measure (\<lambda>(E, count, w). 10000 - count)") auto

declare busy_poll.simps [simp del]

definition set_recovering :: "bool \<Rightarrow> world \<Rightarrow> world" where
  "set_recovering b w = w\<lparr>sx := (sx w)\<lparr>recovering := b\<rparr>\<rparr>"

text \<open>The body of \<^verbatim>\<open>wait_on_busy\<close>, given the restart it calls.\<close>

definition wait_body :: "(env \<Rightarrow> world \<Rightarrow> (bool \<times> world) option) \<Rightarrow> env \<Rightarrow> world \<Rightarrow> world option" where
  "wait_body begin_radio E w = do {
     let (timeout, w) = busy_poll E 0 w;
     if timeout \<and> \<not> recovering (sx w) then do {
       (r, w) \<leftarrow> begin_radio E (set_recovering True w);
       w \<leftarrow> rnode_report_error E ERROR_INITRADIO w;
       Some (set_recovering False w) }
     else Some w }"

subsection \<open>Start-up, given the waiting operation\<close>

definition set_irq_mask_by :: "(env \<Rightarrow> world \<Rightarrow> world option) \<Rightarrow> env \<Rightarrow> world \<Rightarrow> world option" where
  "set_irq_mask_by wait E w = do {
     let mask = 0x0010 OR 0x0001 OR 0x0002 OR 0x0020 OR 0x0040 OR 0x0004;
     w \<leftarrow> wait E w;
     Some (snd (irq_setup E mask mask 0 0 w)) }"

definition set_dio3_txco_ctrl_by ::
  "(env \<Rightarrow> world \<Rightarrow> world option) \<Rightarrow> env \<Rightarrow> u8 \<Rightarrow> u16 \<Rightarrow> world \<Rightarrow> world option" where
  "set_dio3_txco_ctrl_by wait E voltage delay w = do {
     w \<leftarrow> wait E w;
     let w = snd (write_bytes E [0x97, voltage, byte_at 16 delay, byte_at 8 delay, byte_at 0 delay] w);
     w \<leftarrow> wait E w;
     let w = snd (set_standby E 0x01 w);
     w \<leftarrow> wait E w;
     let w = snd (calibrate E 0xFF w);
     w \<leftarrow> wait E w;
     Some (snd (write_bytes E [0x93, 0x40] w)) }"

text \<open>After the status check: packet type, buffer base addresses, interrupt mask.\<close>

definition begin_tail_by :: "(env \<Rightarrow> world \<Rightarrow> world option) \<Rightarrow> env \<Rightarrow> world \<Rightarrow> (bool \<times> world) option" where
  "begin_tail_by wait E w = do {
     let (ok, w) = set_packet_type E 0x01 w;
     if \<not> ok then Some (False, w)
     else do {
       w \<leftarrow> wait E w;
       let w = snd (write_bytes E [0x8F, 0, 0] w);
       w \<leftarrow> set_irq_mask_by wait E w;
       Some (True, w) } }"

definition sx126x_begin_by :: "(env \<Rightarrow> world \<Rightarrow> world option) \<Rightarrow> env \<Rightarrow> world \<Rightarrow> (bool \<times> world) option" where
  "sx126x_begin_by wait E w = do {
     let w = set_pin RST True (set_pin RST False w);
     let w = switch_ant (w\<lparr>sx := (sx w)\<lparr>radio_state := SX126X_IDLE\<rparr>\<rparr>);
     let (busy_state, w) = get_busy E w;
     w \<leftarrow> (if busy_state = 1 then wait E w else Some w);
     let (ok, w) = set_standby E 0x00 w;
     if \<not> ok then Some (False, w)
     else do {
       let (initial_status, w) = sx126x_get_status_mode E w;
       if initial_status = 0x00 then Some (False, w)
       else do {
         w \<leftarrow> set_dio3_txco_ctrl_by wait E 0x02 0x0560 w;
         let (status, w) = sx126x_get_status_mode E w;
         if status AND 0x70 \<noteq> 0x30 \<and> status AND 0x70 \<noteq> 0x20 then Some (False, w)
         else begin_tail_by wait E w } } }"

text \<open>While recovering, a time-out of the wait is only reported to the log.\<close>

definition wait_nested :: "env \<Rightarrow> world \<Rightarrow> world option" where
  "wait_nested E w = Some (snd (busy_poll E 0 w))"

definition wait_on_busy :: "env \<Rightarrow> world \<Rightarrow> world option" where
  "wait_on_busy = wait_body (sx126x_begin_by wait_nested)"

definition sx126x_begin :: "env \<Rightarrow> world \<Rightarrow> (bool \<times> world) option" where
  "sx126x_begin = sx126x_begin_by wait_on_busy"

definition set_irq_mask :: "env \<Rightarrow> world \<Rightarrow> world option" where
  "set_irq_mask = set_irq_mask_by wait_on_busy"

definition sx126x_set_dio3_txco_ctrl :: "env \<Rightarrow> u8 \<Rightarrow> u16 \<Rightarrow> world \<Rightarrow> world option" where
  "sx126x_set_dio3_txco_ctrl = set_dio3_txco_ctrl_by wait_on_busy"

end
