(* ===== verification/RadioCmds.thy ===== *)
theory RadioCmds
  imports Sx126x
begin

section \<open>The radio driver's interface\<close>

text \<open>
  The public operations of \<^verbatim>\<open>sx126x/sx126x.c\<close> on top of \<open>Sx126x\<close>: configuration, packet transmission
  and reception, signal readings, air time, and the interrupt handler with its three callbacks.
\<close>

subsection \<open>Configuration\<close>

definition cal_band :: "u64 \<Rightarrow> u8 \<times> u8" where
  "cal_band x = (if x < 446000000 then (0x6B, 0x6F)
     else if x < 734000000 then (0x75, 0x81)
     else if x < 828000000 then (0xC1, 0xC5)
     else if x < 877000000 then (0xD7, 0xDB)
     else (0xE1, 0xE9))"

definition freq_word :: "u64 \<Rightarrow> u64" where
  "freq_word x = x * 33554432 div 32000000"

definition sx126x_set_freq :: "env \<Rightarrow> u64 \<Rightarrow> world \<Rightarrow> world option" where
  "sx126x_set_freq E x w = do {
     let (mn, mx) = cal_band x;
     w \<leftarrow> wait_on_busy E w;
     let w = snd (calibrate_image E mn mx w);
     let freq = freq_word x;
     w \<leftarrow> wait_on_busy E w;
     Some (snd (write_bytes E [0x86, byte_at 24 freq, byte_at 16 freq, byte_at 8 freq, byte_at 0 freq] w)) }"

definition sx126x_set_tx_power :: "env \<Rightarrow> u8 \<Rightarrow> world \<Rightarrow> world option" where
  "sx126x_set_tx_power E db w = do {
     let db = (if 22 < db then 22 else db);
     w \<leftarrow> wait_on_busy E w;
     let w = snd (write_bytes E [0x95, 0x04, 0x07, 0x00, 0x01] w);
     w \<leftarrow> wait_on_busy E w;
     let w = snd (write_bytes E [0x96, 0x01] w);
     w \<leftarrow> wait_on_busy E w;
     let w = snd (write_reg E 0x08E7 [0x38] w);
     w \<leftarrow> wait_on_busy E w;
     Some (snd (write_bytes E [0x8E, db, 0x02] w)) }"

primrec bw_value :: "bw_t \<Rightarrow> u32" where
  "bw_value BW_7800 = 7800" | "bw_value BW_10400 = 10400" | "bw_value BW_15600 = 15600"
| "bw_value BW_20800 = 20800" | "bw_value BW_31250 = 31250" | "bw_value BW_41700 = 41700"
| "bw_value BW_62500 = 62500" | "bw_value BW_125000 = 125000" | "bw_value BW_250000 = 250000"
| "bw_value BW_500000 = 500000"

text \<open>An unsigned integer converted to \<^verbatim>\<open>float\<close>, and \<^verbatim>\<open>(float) pow(2, sf)\<close>.\<close>

definition fl :: "'a::len word \<Rightarrow> cfloat" where
  "fl x = f32 (of_nat (unat x))"

definition fl_pow2 :: "u8 \<Rightarrow> cfloat" where
  "fl_pow2 sf = f_cast f32 (Fin (2 ^ unat sf))"

definition modem_bitrate :: "u8 \<Rightarrow> u8 \<Rightarrow> u32 \<Rightarrow> u32 option" where
  "modem_bitrate sf cr bw =
     f_to_u32 (f_mul f32 (f_mul f32 (fl sf)
       (f_div f32 (f_div f32 (Fin 4) (fl cr)) (f_div f32 (fl_pow2 sf) (f_div f32 (fl bw) (Fin 1000)))))
       (Fin 1000))"

definition sx126x_set_lora_modulation ::
  "env \<Rightarrow> u8 \<Rightarrow> bw_t \<Rightarrow> cr_t \<Rightarrow> ldro_t \<Rightarrow> world \<Rightarrow> world option" where
  "sx126x_set_lora_modulation E sf bw cr ldro w = do {
     let rate = f_div f32 (fl (bw_value bw)) (fl_pow2 sf);
     br \<leftarrow> modem_bitrate sf (cr_code cr + 4) (bw_value bw);
     let w = w\<lparr>sx := (sx w)\<lparr>save_sf := sf, save_cr := cr_code cr + 4, save_ldro := (ldro = LDRO_ON),
       save_bw := bw_value bw, symbol_rate := rate,
       symbol_time_ms := f_mul f32 (f_div f32 (Fin 1) rate) (Fin 1000), bitrate := br\<rparr>\<rparr>;
     w \<leftarrow> wait_on_busy E w;
     Some (snd (write_bytes E [0x8B, sf, bw_code bw, cr_code cr, ldro_code ldro, 0, 0, 0, 0] w)) }"

definition sx126x_set_lora_packet ::
  "env \<Rightarrow> header_type_t \<Rightarrow> u8 \<Rightarrow> u8 \<Rightarrow> crc_t \<Rightarrow> world \<Rightarrow> world option" where
  "sx126x_set_lora_packet E header_type preamble_len payload_len crc w = do {
     w \<leftarrow> wait_on_busy E w;
     let w = snd (set_packet_params_loRa E preamble_len header_type payload_len crc w);
     Some (w\<lparr>sx := (sx w)\<lparr>save_preamble_len := preamble_len, save_header_type := header_type,
       save_payload_len := payload_len, save_crc := crc\<rparr>\<rparr>) }"

definition sync_word_bytes :: "u16 \<Rightarrow> u8 list" where
  "sync_word_bytes x = (if x \<le> 0xFF
     then [ucast ((x AND 0xF0) OR 0x04), ucast (push_bit 4 x OR 0x04)]
     else [byte_at 8 x, byte_at 0 x])"

definition sx126x_set_sync_word :: "env \<Rightarrow> u16 \<Rightarrow> world \<Rightarrow> world option" where
  "sx126x_set_sync_word E x w = do {
     w \<leftarrow> wait_on_busy E w;
     Some (snd (write_reg E 0x0740 (sync_word_bytes x) w)) }"

subsection \<open>Packets\<close>

definition sx126x_begin_packet :: "world \<Rightarrow> world" where
  "sx126x_begin_packet w = w\<lparr>sx := (sx w)\<lparr>payload_tx_rx := 0, fifo_tx_addr_ptr := 0\<rparr>\<rparr>"

definition sx126x_write :: "env \<Rightarrow> u8 list \<Rightarrow> u8 \<Rightarrow> world \<Rightarrow> world option" where
  "sx126x_write E buf len w = do {
     w \<leftarrow> wait_on_busy E w;
     if length buf < unat len then None
     else do {
       let w = snd (write_buffer E (take (unat len) buf) w);
       Some (w\<lparr>sx := (sx w)\<lparr>payload_tx_rx := payload_tx_rx (sx w) + len\<rparr>\<rparr>) } }"

definition set_radio_state :: "state_t \<Rightarrow> world \<Rightarrow> world" where
  "set_radio_state st w = w\<lparr>sx := (sx w)\<lparr>radio_state := st\<rparr>\<rparr>"

definition sx126x_end_packet :: "env \<Rightarrow> world \<Rightarrow> world option" where
  "sx126x_end_packet E w = do {
     let w = set_radio_state SX126X_TX w;
     w \<leftarrow> wait_on_busy E w;
     let w = snd (set_packet_params_loRa E (save_preamble_len (sx w)) (save_header_type (sx w))
       (fifo_tx_addr_ptr (sx w)) (save_crc (sx w)) w);
     w \<leftarrow> set_irq_mask E w;
     let w = switch_ant w;
     w \<leftarrow> wait_on_busy E w;
     let w = snd (set_tx E 0 w);
     wait_on_busy E w }"

abbreviation "RX_CONTINUOUS \<equiv> 0xFFFFFF :: u32"
abbreviation "RX_SINGLE \<equiv> 0x000000 :: u32"

definition request_timeout :: "u32 \<Rightarrow> state_t \<times> u32" where
  "request_timeout timeout = (if timeout = RX_CONTINUOUS then (SX126X_RX_CONTINUOUS, timeout)
     else let timeout = push_bit 6 timeout
          in (SX126X_RX_SINGLE, if 0xFFFFFF < timeout then RX_SINGLE else timeout))"

definition sx126x_request :: "env \<Rightarrow> u32 \<Rightarrow> world \<Rightarrow> world option" where
  "sx126x_request E timeout w = do {
     let (st, timeout) = request_timeout timeout;
     let w = set_radio_state st w;
     w \<leftarrow> wait_on_busy E w;
     let w = snd (set_packet_params_loRa E (save_preamble_len (sx w)) (save_header_type (sx w))
       (payload_tx_rx (sx w)) (save_crc (sx w)) w);
     w \<leftarrow> set_irq_mask E w;
     let w = switch_ant w;
     w \<leftarrow> wait_on_busy E w;
     Some (snd (set_rx E timeout w)) }"

definition sx126x_available :: "world \<Rightarrow> u8" where
  "sx126x_available w = payload_tx_rx (sx w)"

definition sx126x_read :: "env \<Rightarrow> u16 \<Rightarrow> world \<Rightarrow> (u8 list \<times> world) option" where
  "sx126x_read E len w = do {
     w \<leftarrow> wait_on_busy E w;
     let (buf, w) = read_buffer E (unat len) w;
     let p = payload_tx_rx (sx w);
     Some (buf, w\<lparr>sx := (sx w)\<lparr>payload_tx_rx := (if unat len < unat p then p - ucast len else 0)\<rparr>\<rparr>) }"

subsection \<open>Signal readings\<close>

definition sx126x_packet_signal_raw :: "env \<Rightarrow> world \<Rightarrow> ((u8 \<times> u8 \<times> u8) \<times> world) option" where
  "sx126x_packet_signal_raw E w = do {
     w \<leftarrow> wait_on_busy E w;
     Some (get_packet_status E w) }"

definition sx126x_packet_signal :: "env \<Rightarrow> world \<Rightarrow> ((cfloat \<times> cfloat \<times> cfloat) \<times> world) option" where
  "sx126x_packet_signal E w = do {
     w \<leftarrow> wait_on_busy E w;
     let ((raw_rssi, raw_snr, raw_signal_rssi), w) = get_packet_status E w;
     Some ((f_div f32 (f_neg (fl raw_rssi)) (Fin 2), f_div f32 (f32 (of_int (sint raw_snr))) (Fin 4),
            f_div f32 (f_neg (fl raw_signal_rssi)) (Fin 2)), w) }"

text \<open>The byte read is taken as a signed byte, negated and halved.\<close>

definition rssi_of_byte :: "u8 \<Rightarrow> int" where
  "rssi_of_byte b = cdiv (- sint b) 2"

definition sx126x_current_rssi :: "env \<Rightarrow> world \<Rightarrow> (int \<times> world) option" where
  "sx126x_current_rssi E w = do {
     w \<leftarrow> wait_on_busy E w;
     let (b, w) = get_current_rssi E w;
     Some (rssi_of_byte b, w) }"

definition sx126x_get_state :: "world \<Rightarrow> state_t" where
  "sx126x_get_state w = radio_state (sx w)"

subsection \<open>Air time\<close>

text \<open>
  \<^verbatim>\<open>sx126x_air_time\<close>: the total, the preamble part and the data part, in milliseconds. Each of
  the three conversions to an integer may be undefined.
\<close>

definition air_t_sym :: "sx_st \<Rightarrow> cfloat" where
  "air_t_sym s = f_mul f32 (f_div f32 (fl_pow2 (save_sf s)) (fl (save_bw s))) (Fin 1000)"

definition air_bits :: "sx_st \<Rightarrow> u16 \<Rightarrow> cfloat" where
  "air_bits s len =
     (let bits = f_mul f32 (Fin 8) (fl len);
          bits = f_add f32 bits (f_neg (f_mul f32 (Fin 4) (fl (save_sf s))));
          bits = f_add f32 bits (Fin 8);
          bits = f_add f32 bits (Fin 16)
      in f_add f32 bits (Fin 20))"

definition air_payload :: "sx_st \<Rightarrow> u16 \<Rightarrow> u16 option" where
  "air_payload s len = f_to_u16 (f_add f64 (f_mul f64
     (f_ceil (f_div f32 (f_div f32 (air_bits s len) (Fin 4)) (fl (save_sf s)))) (fl (save_cr s))) (Fin 8))"

definition sx126x_air_time :: "sx_st \<Rightarrow> u16 \<Rightarrow> (u32 \<times> u32 \<times> u32) option" where
  "sx126x_air_time s len = do {
     payload \<leftarrow> air_payload s len;
     preamble \<leftarrow> f_to_u32 (f_mul f32 (f_add f32 (fl (save_preamble_len s)) (Fin (17 / 4))) (air_t_sym s));
     data \<leftarrow> f_to_u32 (f_mul f32 (fl payload) (air_t_sym s));
     Some (preamble + data, preamble, data) }"

subsection \<open>The interrupt handler\<close>

text \<open>
  One rising edge of DIO1 in \<^verbatim>\<open>irq_worker\<close>. The callbacks are \<open>None\<close> until they are registered;
  \<open>crc_ok\<close> is the local variable the loop keeps between events. \<open>irq_read\<close> is the event up to the point where
  the length of a received packet, if there is one, has been read from the radio; \<open>irq_event\<close> is all of it.
\<close>

definition medium_call :: "(cause_medium_t \<Rightarrow> world \<Rightarrow> world option) option \<Rightarrow> cause_medium_t \<Rightarrow> world \<Rightarrow> world option" where
  "medium_call cb cause w = (case cb of None \<Rightarrow> Some w | Some f \<Rightarrow> f cause w)"

definition irq_read ::
  "(cause_medium_t \<Rightarrow> world \<Rightarrow> world option) option \<Rightarrow> env \<Rightarrow> bool \<Rightarrow> world \<Rightarrow>
   ((u16 \<times> bool \<times> u8 option) \<times> world) option" where
  "irq_read medium E crc_ok w = do {
     let (status, w) = get_irq_status E w;
     let (crc_ok, w) = (if status AND 0x0040 \<noteq> 0 then (False, snd (clear_irq_status E 0x0040 w))
                        else (crc_ok, w));
     (crc_ok, w) \<leftarrow> (if status AND 0x0004 \<noteq> 0 then do {
          w \<leftarrow> medium_call medium CAUSE_PREAMBLE_DETECTED (snd (clear_irq_status E 0x0004 w));
          Some (True, w) }
        else Some (crc_ok, w));
     w \<leftarrow> (if status AND 0x0010 \<noteq> 0
          then medium_call medium CAUSE_HEADER_VALID (snd (clear_irq_status E 0x0010 w)) else Some w);
     w \<leftarrow> (if status AND 0x0020 \<noteq> 0
          then medium_call medium CAUSE_HEADER_ERR (snd (clear_irq_status E 0x0020 w)) else Some w);
     if status AND 0x0002 \<noteq> 0 then do {
       let w = (if radio_state (sx w) = SX126X_RX_CONTINUOUS then snd (clear_irq_status E 0x0002 w) else w);
       w \<leftarrow> medium_call medium CAUSE_RX_DONE w;
       if crc_ok then do {
         let (n, w) = get_rx_buffer_status E w;
         Some ((status, crc_ok, Some n), w\<lparr>sx := (sx w)\<lparr>payload_tx_rx := n\<rparr>\<rparr>) }
       else Some ((status, crc_ok, None), w) }
     else Some ((status, crc_ok, None), w) }"

definition irq_event ::
  "(u16 \<Rightarrow> world \<Rightarrow> world option) option \<Rightarrow> (world \<Rightarrow> world option) option \<Rightarrow>
   (cause_medium_t \<Rightarrow> world \<Rightarrow> world option) option \<Rightarrow> env \<Rightarrow> bool \<Rightarrow> world \<Rightarrow> (bool \<times> world) option" where
  "irq_event rx_done tx_done medium E crc_ok w = do {
     ((status, crc_ok, received), w) \<leftarrow> irq_read medium E crc_ok w;
     w \<leftarrow> (case received of None \<Rightarrow> Some w
        | Some n \<Rightarrow> (case rx_done of None \<Rightarrow> Some w | Some f \<Rightarrow> f (ucast n) w));
     w \<leftarrow> (if status AND 0x0001 \<noteq> 0 then do {
          w \<leftarrow> medium_call medium CAUSE_TX_DONE (snd (clear_irq_status E 0x0001 w));
          case tx_done of None \<Rightarrow> Some w | Some f \<Rightarrow> f w }
        else Some w);
     Some (crc_ok, w) }"

end
