(* ===== verification/DriverSafety.thy ===== *)
theory DriverSafety
  imports RadioCmds
begin

section \<open>Safety of the radio driver\<close>

text \<open>
  Every driver operation returns in a defined state, keeps the antenna switch safe (the transmit and
  the receive enable are never high together), frames every SPI transfer by the chip select, and touches
  nothing outside the driver and the host socket. The waiting operation is an interface, \<open>bus_wait\<close>, since
  the start-up sequence is used with two of them.
\<close>

subsection \<open>The lines a trace drives\<close>

primrec pin_after :: "io \<Rightarrow> (pin \<Rightarrow> bool) \<Rightarrow> (pin \<Rightarrow> bool)" where
  "pin_after (Pin p v) lv = lv(p := v)"
| "pin_after (Spi m) lv = lv"
| "pin_after (SpiXfer m n) lv = lv"
| "pin_after (SpiDuplex m) lv = lv"
| "pin_after (TcpSend b r) lv = lv"
| "pin_after (TcpClose fd) lv = lv"
| "pin_after (TcpAccept fd) lv = lv"

definition levels0 :: "pin \<Rightarrow> bool" where
  "levels0 p = (p = CS)"

definition levels :: "io list \<Rightarrow> pin \<Rightarrow> bool" where
  "levels tr = fold pin_after tr levels0"

text \<open>
  An event is safe after the lines \<open>lv\<close>: a transfer needs the chip select low, and no drive makes
  both antenna enables high.
\<close>

primrec io_safe :: "(pin \<Rightarrow> bool) \<Rightarrow> io \<Rightarrow> bool" where
  "io_safe lv (Pin p v) = (\<not> ((lv(p := v)) TX_EN \<and> (lv(p := v)) RX_EN))"
| "io_safe lv (Spi m) = (\<not> lv CS)"
| "io_safe lv (SpiXfer m n) = (\<not> lv CS)"
| "io_safe lv (SpiDuplex m) = (\<not> lv CS)"
| "io_safe lv (TcpSend b r) = True"
| "io_safe lv (TcpClose fd) = True"
| "io_safe lv (TcpAccept fd) = True"

fun trace_safe :: "(pin \<Rightarrow> bool) \<Rightarrow> io list \<Rightarrow> bool" where
  "trace_safe lv [] = True"
| "trace_safe lv (e # es) = (io_safe lv e \<and> trace_safe (pin_after e lv) es)"

lemma levels_app [simp]: "levels (xs @ ys) = fold pin_after ys (levels xs)"
  by (simp add: levels_def)

lemma trace_safe_app [simp]:
  "trace_safe lv (xs @ ys) = (trace_safe lv xs \<and> trace_safe (fold pin_after xs lv) ys)"
  by (induction xs arbitrary: lv) auto

lemma host_io_pins:
  assumes "list_all host_io es"
  shows "fold pin_after es lv = lv" and "trace_safe lv es"
proof -
  have *: "pin_after e lv = lv \<and> io_safe lv e" if "host_io e" for e
    using that by (cases e) auto
  show "fold pin_after es lv = lv" "trace_safe lv es"
    using assms * by (induction es) auto
qed

definition lines_ok :: "world \<Rightarrow> bool" where
  "lines_ok w \<longleftrightarrow> trace_safe levels0 (trace w) \<and> levels (trace w) CS
     \<and> (levels (trace w) TX_EN \<longrightarrow> tx_en_line (sx w)) \<and> (levels (trace w) RX_EN \<longrightarrow> rx_en_line (sx w))
     \<and> \<not> (levels (trace w) TX_EN \<and> levels (trace w) RX_EN)"

lemma trace_safe_levels: "trace_safe levels0 (xs @ ys) = (trace_safe levels0 xs \<and> trace_safe (levels xs) ys)"
  by (simp add: levels_def)

text \<open>
  The writes into the radio's transmit buffer that a trace contains: the address and the bytes.
\<close>

definition fifo_write :: "u8 list \<Rightarrow> (u8 \<times> u8 list) list" where
  "fifo_write m = (case m of c # p # d \<Rightarrow> if c = 0x0E then [(p, d)] else [] | _ \<Rightarrow> [])"

fun fifo_writes :: "io list \<Rightarrow> (u8 \<times> u8 list) list" where
  "fifo_writes [] = []"
| "fifo_writes (Spi m # es) = fifo_write m @ fifo_writes es"
| "fifo_writes (_ # es) = fifo_writes es"

lemma fifo_writes_app [simp]: "fifo_writes (xs @ ys) = fifo_writes xs @ fifo_writes ys"
  by (induction xs rule: fifo_writes.induct) auto

lemma host_io_fifo: "list_all host_io es \<Longrightarrow> fifo_writes es = []"
proof (induction es)
  case (Cons e es)
  then show ?case by (cases e) auto
qed simp

text \<open>
  The part of the world that driver operations do not change, except that the two configuration operations
  set the modem (spreading factor, coding rate, bandwidth and preamble) and that the two packet operations
  move the write pointer and write into the transmit buffer.
\<close>

type_synonym modem = "u8 \<times> u8 \<times> u32 \<times> u8"

definition modem :: "sx_st \<Rightarrow> modem" where
  "modem s = (save_sf s, save_cr s, save_bw s, save_preamble_len s)"

type_synonym txfifo = "u8 \<times> (u8 \<times> u8 list) list"

definition txfifo :: "world \<Rightarrow> txfifo" where
  "txfifo w = (fifo_tx_addr_ptr (sx w), fifo_writes (trace w))"

type_synonym rest = "kiss_st \<times> csma_st \<times> queue_st \<times> rnode_st \<times> modem \<times> txfifo"

definition rest :: "world \<Rightarrow> rest" where
  "rest w = (kiss_in w, cs w, qu w, rn w, modem (sx w), txfifo w)"

definition drv_ok :: "rest \<Rightarrow> world \<Rightarrow> bool" where
  "drv_ok R w \<longleftrightarrow> lines_ok w \<and> length (kiss_out w) = MTU \<and> rest w = R"

text \<open>\<open>f\<close> returns and keeps \<open>P\<close>; the second form is for operations with a result.\<close>

definition keeps :: "(world \<Rightarrow> bool) \<Rightarrow> (world \<Rightarrow> world option) \<Rightarrow> bool" where
  "keeps P f \<longleftrightarrow> (\<forall>w. P w \<longrightarrow> (\<exists>w'. f w = Some w' \<and> P w'))"

definition keepsr :: "(world \<Rightarrow> bool) \<Rightarrow> (world \<Rightarrow> ('r \<times> world) option) \<Rightarrow> bool" where
  "keepsr P f \<longleftrightarrow> (\<forall>w. P w \<longrightarrow> (\<exists>r w'. f w = Some (r, w') \<and> P w'))"

lemma keepsD: "keeps P f \<Longrightarrow> P w \<Longrightarrow> \<exists>w'. f w = Some w' \<and> P w'"
  by (simp add: keeps_def)

lemma keepsrD: "keepsr P f \<Longrightarrow> P w \<Longrightarrow> \<exists>r w'. f w = Some (r, w') \<and> P w'"
  by (simp add: keepsr_def)

text \<open>The outcome of one application, for chaining.\<close>

definition gives :: "(world \<Rightarrow> bool) \<Rightarrow> world option \<Rightarrow> bool" where
  "gives P m \<longleftrightarrow> (\<exists>w. m = Some w \<and> P w)"

definition givesr :: "(world \<Rightarrow> bool) \<Rightarrow> ('r \<times> world) option \<Rightarrow> bool" where
  "givesr P m \<longleftrightarrow> (\<exists>r w. m = Some (r, w) \<and> P w)"

lemma gives_Some [simp]: "gives P (Some w) = P w" and givesr_Some [simp]: "givesr P (Some (r, w)) = P w"
  by (simp_all add: gives_def givesr_def)

lemma givesr_Some_pair: "P (snd p) \<Longrightarrow> givesr P (Some p)"
  by (cases p) simp

lemma gives_mono: "gives P m \<Longrightarrow> (\<And>w. P w \<Longrightarrow> Q w) \<Longrightarrow> gives Q m"
  by (auto simp: gives_def)

lemma givesr_mono: "givesr P n \<Longrightarrow> (\<And>w. P w \<Longrightarrow> Q w) \<Longrightarrow> givesr Q n"
  by (auto simp: givesr_def)

lemma gives_bind: "gives P m \<Longrightarrow> (\<And>w. P w \<Longrightarrow> gives Q (f w)) \<Longrightarrow> gives Q (Option.bind m f)"
  by (auto simp: gives_def)

lemma givesr_bind: "gives P m \<Longrightarrow> (\<And>w. P w \<Longrightarrow> givesr Q (f w)) \<Longrightarrow> givesr Q (Option.bind m f)"
  by (auto simp: gives_def)

lemma gives_bindr: "givesr P m \<Longrightarrow> (\<And>r w. P w \<Longrightarrow> gives Q (f (r, w))) \<Longrightarrow> gives Q (Option.bind m f)"
  by (auto simp: givesr_def)

lemma givesr_bindr: "givesr P m \<Longrightarrow> (\<And>r w. P w \<Longrightarrow> givesr Q (f (r, w))) \<Longrightarrow> givesr Q (Option.bind m f)"
  by (auto simp: givesr_def)

text \<open>With one invariant throughout the rules chain by themselves.\<close>

lemmas gives_chain = gives_bind [where P = P and Q = P for P] givesr_bind [where P = P and Q = P for P]
  gives_bindr [where P = P and Q = P for P] givesr_bindr [where P = P and Q = P for P]

lemma keeps_gives: "keeps P f \<longleftrightarrow> (\<forall>w. P w \<longrightarrow> gives P (f w))"
  and keepsr_givesr: "keepsr P g \<longleftrightarrow> (\<forall>w. P w \<longrightarrow> givesr P (g w))"
  by (auto simp: keeps_def gives_def keepsr_def givesr_def)

text \<open>
  For operations with conversions that may be undefined: whenever the operation returns, \<open>P\<close> holds,
  and under the condition \<open>D\<close> it does return. \<open>D = True\<close> is \<open>gives\<close>; \<open>D = False\<close> is safety alone.
\<close>

definition outcome :: "bool \<Rightarrow> (world \<Rightarrow> bool) \<Rightarrow> world option \<Rightarrow> bool" where
  "outcome D P m \<longleftrightarrow> (\<forall>w. m = Some w \<longrightarrow> P w) \<and> (D \<longrightarrow> m \<noteq> None)"

definition outcomer :: "bool \<Rightarrow> (world \<Rightarrow> bool) \<Rightarrow> ('r \<times> world) option \<Rightarrow> bool" where
  "outcomer D P m \<longleftrightarrow> (\<forall>r w. m = Some (r, w) \<longrightarrow> P w) \<and> (D \<longrightarrow> m \<noteq> None)"

lemma outcome_Some [simp]: "outcome D P (Some w) = P w" and outcomer_Some [simp]: "outcomer D P (Some (r, w)) = P w"
  by (simp_all add: outcome_def outcomer_def)

lemma outcomer_Some_pair: "P (snd p) \<Longrightarrow> outcomer D P (Some p)"
  by (cases p) simp

lemma outcome_None [simp]: "outcome D P None = (\<not> D)" "outcomer D P None = (\<not> D)"
  by (simp_all add: outcome_def outcomer_def)

lemma outcome_True [simp]: "outcome True P m = gives P m" "outcomer True P n = givesr P n"
  by (auto simp: outcome_def gives_def outcomer_def givesr_def)

lemma gives_outcome: "gives P m \<Longrightarrow> outcome D P m"
  by (auto simp: outcome_def gives_def)

lemma givesr_outcomer: "givesr P m \<Longrightarrow> outcomer D P m"
  by (auto simp: outcomer_def givesr_def)

lemma outcome_bind: "outcome D P m \<Longrightarrow> (\<And>w. P w \<Longrightarrow> outcome D Q (f w)) \<Longrightarrow> outcome D Q (Option.bind m f)"
  by (cases m) (auto simp: outcome_def)

lemma outcomer_bind: "outcome D P m \<Longrightarrow> (\<And>w. P w \<Longrightarrow> outcomer D Q (f w)) \<Longrightarrow> outcomer D Q (Option.bind m f)"
  by (cases m) (auto simp: outcome_def)

lemma outcome_bindr: "outcomer D P m \<Longrightarrow> (\<And>r w. P w \<Longrightarrow> outcome D Q (f (r, w))) \<Longrightarrow> outcome D Q (Option.bind m f)"
  by (cases m) (auto simp: outcomer_def)

lemma outcomer_bindr: "outcomer D P m \<Longrightarrow> (\<And>r w. P w \<Longrightarrow> outcomer D Q (f (r, w))) \<Longrightarrow> outcomer D Q (Option.bind m f)"
  by (cases m) (auto simp: outcomer_def)

text \<open>A value computed on the way, and the same rule for operations with a result.\<close>

lemma outcome_value:
  "(D \<Longrightarrow> m \<noteq> None) \<Longrightarrow> (\<And>a. m = Some a \<Longrightarrow> outcome D Q (f a)) \<Longrightarrow> outcome D Q (Option.bind m f)"
  by (cases m) auto

lemma outcomer_value:
  "(D \<Longrightarrow> m \<noteq> None) \<Longrightarrow> (\<And>a. m = Some a \<Longrightarrow> outcomer D Q (f a)) \<Longrightarrow> outcomer D Q (Option.bind m f)"
  by (cases m) auto

lemma outcome_imp: "outcome D P m \<Longrightarrow> (\<And>w. P w \<Longrightarrow> Q w) \<Longrightarrow> outcome D Q m"
  by (auto simp: outcome_def)

lemmas outcome_chain = outcome_bind [where P = P and Q = P for P] outcomer_bind [where P = P and Q = P for P]
  outcome_bindr [where P = P and Q = P for P] outcomer_bindr [where P = P and Q = P for P]

subsection \<open>Primitive operations\<close>

lemma drv_ok_transfer:
  assumes "drv_ok R w" "\<And>lv. io_safe lv e = (\<not> lv CS)" "\<And>lv. pin_after e lv = lv" "fifo_writes [e] = []"
  shows "drv_ok R (emit [Pin CS False, e, Pin CS True] (next_read w))"
proof -
  have "fifo_writes [Pin CS False, e, Pin CS True] = []" using assms(4) by (cases e) auto
  with assms show ?thesis by (auto simp: drv_ok_def lines_ok_def rest_def levels_def txfifo_def)
qed

lemma drv_ok_write_bytes [simp, intro]:
  "drv_ok R w \<Longrightarrow> fifo_write buf = [] \<Longrightarrow> drv_ok R (snd (write_bytes E buf w))"
  by (simp add: write_bytes_def Let_def drv_ok_transfer)

lemma fifo_write_other [simp]: "c \<noteq> 0x0E \<Longrightarrow> fifo_write (c # m) = []"
  by (simp add: fifo_write_def split: list.split)

lemma drv_ok_write_read_bytes [simp, intro]: "drv_ok R w \<Longrightarrow> drv_ok R (snd (write_read_bytes E buf res w))"
  by (simp add: write_read_bytes_def Let_def drv_ok_transfer)

lemma drv_ok_read_bytes [simp, intro]: "drv_ok R w \<Longrightarrow> drv_ok R (snd (read_bytes E buf res w))"
  by (simp add: read_bytes_def Let_def drv_ok_transfer)

lemma drv_ok_sx [simp]:
  "drv_ok R w \<Longrightarrow> tx_en_line s = tx_en_line (sx w) \<Longrightarrow> rx_en_line s = rx_en_line (sx w) \<Longrightarrow>
     modem s = modem (sx w) \<Longrightarrow> fifo_tx_addr_ptr s = fifo_tx_addr_ptr (sx w) \<Longrightarrow> drv_ok R (w\<lparr>sx := s\<rparr>)"
  by (simp add: drv_ok_def lines_ok_def rest_def txfifo_def)

lemma modem_updates [simp]:
  "modem (s\<lparr>recovering := b\<rparr>) = modem s" "modem (s\<lparr>fifo_tx_addr_ptr := x\<rparr>) = modem s"
  "modem (s\<lparr>fifo_rx_addr_ptr := x\<rparr>) = modem s" "modem (s\<lparr>payload_tx_rx := x\<rparr>) = modem s"
  "modem (s\<lparr>preamble_symbols := y\<rparr>) = modem s" "modem (s\<lparr>radio_state := st\<rparr>) = modem s"
  "modem (s\<lparr>save_header_type := h\<rparr>) = modem s" "modem (s\<lparr>save_payload_len := x\<rparr>) = modem s"
  "modem (s\<lparr>save_crc := crc\<rparr>) = modem s"
  by (simp_all add: modem_def)

lemma drv_ok_next_read [simp, intro]: "drv_ok R w \<Longrightarrow> drv_ok R (next_read w)"
  by (simp add: drv_ok_def lines_ok_def rest_def txfifo_def)

lemma drv_ok_rst [simp, intro]: "drv_ok R w \<Longrightarrow> drv_ok R (set_pin RST v w)"
  by (auto simp: drv_ok_def lines_ok_def rest_def set_pin_def levels_def txfifo_def)

lemma drv_ok_switch_ant [simp, intro]: "drv_ok R w \<Longrightarrow> drv_ok R (switch_ant w)"
  by (auto simp: drv_ok_def lines_ok_def rest_def set_pin_def levels_def switch_ant_def Let_def txfifo_def
      split: state_t.split)

lemma drv_ok_host_send [simp, intro]:
  assumes "drv_ok R w" "length buf \<le> 511"
  shows "drv_ok R (host_send E buf w)"
proof -
  obtain es where es: "trace (host_send E buf w) = trace w @ es" "list_all host_io es"
    using host_send_trace by blast
  show ?thesis
    using assms es(1) host_io_pins [OF es(2)] kiss_frame_short [OF assms(2)] host_io_fifo [OF es(2)]
    by (simp add: drv_ok_def lines_ok_def rest_def trace_safe_levels txfifo_def)
qed

lemma drv_ok_report_error [intro]: "drv_ok R w \<Longrightarrow> gives (drv_ok R) (rnode_report_error E c w)"
  by (simp add: rnode_report_error_def kiss_encode_short drv_ok_def)
     (simp add: drv_ok_def [symmetric] drv_ok_host_send)

lemma snd_write_reg [simp]: "write_reg E reg buf = write_bytes E (0x0D # byte_at 8 reg # byte_at 0 reg # buf)"
  by (rule write_reg_def)

lemma drv_ok_commands [simp, intro]:
  assumes "drv_ok R w"
  shows "drv_ok R (snd (set_standby E x w))"
    "drv_ok R (snd (set_packet_type E x w))" "drv_ok R (snd (calibrate E x w))"
    "drv_ok R (snd (calibrate_image E mn mx w))" "drv_ok R (snd (clear_irq_status E m w))"
    "drv_ok R (snd (set_tx E t w))" "drv_ok R (snd (set_rx E t w))"
    "drv_ok R (snd (set_packet_params_loRa E pl ht py crc w))"
  using assms by (simp_all add: set_standby_def set_packet_type_def calibrate_def
      calibrate_image_def clear_irq_status_def set_tx_def set_rx_def set_packet_params_loRa_def Let_def)

lemma drv_ok_irq_setup [simp, intro]: "drv_ok R w \<Longrightarrow> drv_ok R (snd (irq_setup E a b c d w))"
  using drv_ok_commands(6) by (simp add: irq_setup_def Let_def case_prod_beta)

lemma drv_ok_queries [simp, intro]:
  assumes "drv_ok R w"
  shows "drv_ok R (snd (get_irq_status E w))" "drv_ok R (snd (get_rx_buffer_status E w))"
    "drv_ok R (snd (get_packet_status E w))" "drv_ok R (snd (get_current_rssi E w))"
    "drv_ok R (snd (sx126x_get_status_mode E w))" "drv_ok R (snd (read_buffer E n w))"
    "drv_ok R (snd (get_busy E w))"
  using assms by (simp_all add: get_irq_status_def get_rx_buffer_status_def get_packet_status_def
      get_current_rssi_def sx126x_get_status_mode_def read_buffer_def get_busy_def Let_def case_prod_beta)

lemma drv_ok_busy_poll [simp, intro]: "drv_ok R w \<Longrightarrow> drv_ok R (snd (busy_poll E count w))"
proof (induction E count w rule: busy_poll.induct)
  case (1 E count w)
  then show ?case
    by (subst busy_poll.simps) (auto simp: get_busy_def Let_def)
qed

lemma drv_ok_states [simp]:
  assumes "drv_ok R w"
  shows "drv_ok R (set_recovering b w)" "drv_ok R (set_radio_state st w)"
  using assms by (simp_all add: set_recovering_def set_radio_state_def)

subsection \<open>The waiting interface\<close>

locale bus_wait =
  fixes wait :: "env \<Rightarrow> world \<Rightarrow> world option"
  assumes wait_ok: "drv_ok R w \<Longrightarrow> gives (drv_ok R) (wait E w)"
begin

lemma set_irq_mask_ok: "drv_ok R w \<Longrightarrow> gives (drv_ok R) (set_irq_mask_by wait E w)"
  unfolding set_irq_mask_by_def Let_def by (auto intro!: gives_chain wait_ok)

lemma set_dio3_ok: "drv_ok R w \<Longrightarrow> gives (drv_ok R) (set_dio3_txco_ctrl_by wait E v d w)"
  unfolding set_dio3_txco_ctrl_by_def Let_def
  by (auto intro!: gives_chain wait_ok)

lemma begin_tail_ok: "drv_ok R w \<Longrightarrow> givesr (drv_ok R) (begin_tail_by wait E w)"
  unfolding begin_tail_by_def Let_def case_prod_beta
  by (auto intro!: gives_chain wait_ok set_irq_mask_ok)

lemma begin_ok: "drv_ok R w \<Longrightarrow> givesr (drv_ok R) (sx126x_begin_by wait E w)"
  unfolding sx126x_begin_by_def Let_def case_prod_beta
  by (auto intro!: gives_chain wait_ok set_dio3_ok begin_tail_ok)

end

interpretation nested: bus_wait wait_nested
  by unfold_locales (simp add: wait_nested_def)

lemma wait_on_busy_ok: "drv_ok R w \<Longrightarrow> gives (drv_ok R) (wait_on_busy E w)"
  unfolding wait_on_busy_def wait_body_def Let_def case_prod_beta
  by (auto intro!: gives_chain nested.begin_ok drv_ok_report_error)

interpretation busy: bus_wait wait_on_busy
  by unfold_locales (rule wait_on_busy_ok)

lemma sx126x_begin_ok: "drv_ok R w \<Longrightarrow> givesr (drv_ok R) (sx126x_begin E w)"
  unfolding sx126x_begin_def by (rule busy.begin_ok)

lemma set_irq_mask_drv: "drv_ok R w \<Longrightarrow> gives (drv_ok R) (set_irq_mask E w)"
  unfolding set_irq_mask_def by (rule busy.set_irq_mask_ok)

subsection \<open>The public operations\<close>

lemma drv_set_freq: "drv_ok R w \<Longrightarrow> gives (drv_ok R) (sx126x_set_freq E x w)"
  unfolding sx126x_set_freq_def Let_def case_prod_beta by (auto intro!: gives_chain wait_on_busy_ok)

lemma drv_set_tx_power: "drv_ok R w \<Longrightarrow> gives (drv_ok R) (sx126x_set_tx_power E db w)"
  unfolding sx126x_set_tx_power_def Let_def by (auto intro!: gives_chain wait_on_busy_ok)

lemma drv_set_sync_word: "drv_ok R w \<Longrightarrow> gives (drv_ok R) (sx126x_set_sync_word E x w)"
  unfolding sx126x_set_sync_word_def by (auto intro!: gives_chain wait_on_busy_ok)

lemma drv_set_lora_packet:
  assumes "drv_ok (k, c, q, r, (sf, cr, bw, pl), f) w"
  shows "gives (drv_ok (k, c, q, r, (sf, cr, bw, p), f)) (sx126x_set_lora_packet E h p n crc w)"
proof -
  let ?R = "(k, c, q, r, (sf, cr, bw, pl), f)"
  have "drv_ok (k, c, q, r, (sf, cr, bw, p), f) (w'\<lparr>sx := (sx w')\<lparr>save_preamble_len := p, save_header_type := h,
       save_payload_len := n, save_crc := crc\<rparr>\<rparr>)" if "drv_ok ?R w'" for w'
    using that by (simp add: drv_ok_def lines_ok_def rest_def modem_def txfifo_def)
  then show ?thesis
    unfolding sx126x_set_lora_packet_def Let_def
    by (intro gives_bind [OF wait_on_busy_ok [OF assms]]) simp
qed

text \<open>Starting a packet resets the write pointer; a write adds its bytes at the pointer.\<close>

lemma drv_begin_packet: "drv_ok (k, c, q, r, m, p, f) w \<Longrightarrow> drv_ok (k, c, q, r, m, 0, f) (sx126x_begin_packet w)"
  by (simp add: sx126x_begin_packet_def drv_ok_def lines_ok_def rest_def txfifo_def)

lemma drv_write:
  assumes "drv_ok (k, c, q, r, m, p, f) w" "unat n \<le> length buf"
  shows "gives (drv_ok (k, c, q, r, m, p + n, f @ [(p, take (unat n) buf)])) (sx126x_write E buf n w)"
proof -
  have "drv_ok (k, c, q, r, m, p + n, f @ [(p, take (unat n) buf)])
      ((snd (write_buffer E (take (unat n) buf) w'))\<lparr>sx := (sx (snd (write_buffer E (take (unat n) buf) w')))\<lparr>payload_tx_rx := x\<rparr>\<rparr>)"
    if "drv_ok (k, c, q, r, m, p, f) w'" for w' x
    using that assms(2)
    by (auto simp: drv_ok_def lines_ok_def rest_def txfifo_def levels_def write_buffer_def write_bytes_def
        fifo_write_def min_def)
  with assms(2) show ?thesis
    unfolding sx126x_write_def Let_def
    by (intro gives_bind [OF wait_on_busy_ok [OF assms(1)]]) simp
qed

lemma drv_end_packet: "drv_ok R w \<Longrightarrow> gives (drv_ok R) (sx126x_end_packet E w)"
  unfolding sx126x_end_packet_def Let_def
  by (auto intro!: gives_chain wait_on_busy_ok set_irq_mask_drv)

lemma drv_request: "drv_ok R w \<Longrightarrow> gives (drv_ok R) (sx126x_request E t w)"
  unfolding sx126x_request_def Let_def case_prod_beta
  by (auto intro!: gives_chain wait_on_busy_ok set_irq_mask_drv)

lemma drv_read: "drv_ok R w \<Longrightarrow> givesr (drv_ok R) (sx126x_read E n w)"
  unfolding sx126x_read_def Let_def case_prod_beta by (auto intro!: gives_chain wait_on_busy_ok)

lemma drv_packet_signal_raw: "drv_ok R w \<Longrightarrow> givesr (drv_ok R) (sx126x_packet_signal_raw E w)"
  unfolding sx126x_packet_signal_raw_def
  by (auto intro!: gives_chain wait_on_busy_ok givesr_Some_pair)

lemma drv_current_rssi: "drv_ok R w \<Longrightarrow> givesr (drv_ok R) (sx126x_current_rssi E w)"
  unfolding sx126x_current_rssi_def Let_def case_prod_beta by (auto intro!: gives_chain wait_on_busy_ok)

end
