(* ===== verification/DriverSpec.thy ===== *)
theory DriverSpec
  imports DriverSafety
begin

section \<open>What the driver tells the radio\<close>

text \<open>
  Functional facts about the radio commands when the radio is not busy: the messages on the bus, the
  accuracy of the frequency word, the limit of the power, the bound of the wait, and the
  truncated preamble length.
\<close>

subsection \<open>An idle bus\<close>

definition radio_idle :: "env \<Rightarrow> bool" where
  "radio_idle E \<longleftrightarrow> (\<forall>n. busy_line E n \<noteq> 1)"

text \<open>The messages of the write transfers of a trace.\<close>

fun spi_writes :: "io list \<Rightarrow> u8 list list" where
  "spi_writes [] = []"
| "spi_writes (Spi m # es) = m # spi_writes es"
| "spi_writes (_ # es) = spi_writes es"

lemma spi_writes_app [simp]: "spi_writes (xs @ ys) = spi_writes xs @ spi_writes ys"
  by (induction xs rule: spi_writes.induct) auto

definition wrote :: "world \<Rightarrow> u8 list list \<Rightarrow> world \<Rightarrow> bool" where
  "wrote w ms w' \<longleftrightarrow> spi_writes (trace w') = spi_writes (trace w) @ ms"

lemma wrote_refl: "wrote w [] w"
  by (simp add: wrote_def)

lemma wrote_trans: "wrote w xs w1 \<Longrightarrow> wrote w1 ys w2 \<Longrightarrow> wrote w (xs @ ys) w2"
  by (simp add: wrote_def)

lemma wrote_bytes [simp]: "wrote w0 ms w \<Longrightarrow> wrote w0 (ms @ [m]) (snd (write_bytes E m w))"
  by (simp add: wrote_def write_bytes_def Let_def)

text \<open>The wait returns at once.\<close>

lemma wait_idle: "radio_idle E \<Longrightarrow> wait_on_busy E w = Some (next_read w)"
  by (simp add: wait_on_busy_def wait_body_def busy_poll.simps get_busy_def radio_idle_def Let_def)

lemma wrote_next [simp]: "wrote w0 ms (next_read w) = wrote w0 ms w"
  by (simp add: wrote_def)

subsection \<open>Frequency\<close>

text \<open>Up to the range of the product the word is exact to one step of 0.95 Hz.\<close>

lemma freq_word_nat:
  assumes "unat x < 2 ^ 39"
  shows "unat (freq_word x) = unat x * 33554432 div 32000000"
proof -
  have "unat x * 33554432 < 2 ^ 64" using assms by simp
  then have "unat (x * 33554432) = unat x * 33554432" by (subst unat_mult_lem [THEN iffD1]) simp_all
  then show ?thesis by (simp add: freq_word_def unat_div)
qed

lemma freq_word_accuracy:
  assumes "unat x < 2 ^ 39"
  shows "unat (freq_word x) * 32000000 \<le> unat x * 33554432"
    and "unat x * 33554432 < (unat (freq_word x) + 1) * 32000000"
  using freq_word_nat [OF assms] by (simp_all add: dividend_less_div_times)

lemma set_freq_messages:
  assumes "radio_idle E"
  shows "\<exists>w'. sx126x_set_freq E x w = Some w' \<and> wrote w
    [[0x98, fst (cal_band x), snd (cal_band x)],
     [0x86, byte_at 24 (freq_word x), byte_at 16 (freq_word x), byte_at 8 (freq_word x), byte_at 0 (freq_word x)]] w'"
proof -
  define m1 where "m1 = [0x98, fst (cal_band x), snd (cal_band x)]"
  define m2 where "m2 = [0x86, byte_at 24 (freq_word x), byte_at 16 (freq_word x), byte_at 8 (freq_word x), byte_at 0 (freq_word x)]"
  have "wrote w ([] @ [m1] @ [m2]) (snd (write_bytes E m2 (next_read (snd (write_bytes E m1 (next_read w))))))"
    using wrote_bytes [of w "[m1]"] wrote_bytes [of w "[]" "next_read w" m1 E] by (simp add: wrote_refl)
  then show ?thesis
    using assms by (simp add: sx126x_set_freq_def wait_idle Let_def case_prod_unfold calibrate_image_def m1_def m2_def)
qed

subsection \<open>Power\<close>

text \<open>The power sent is at most 22, whatever is asked for.\<close>

lemma set_tx_power_messages:
  assumes "radio_idle E"
  shows "\<exists>w'. sx126x_set_tx_power E db w = Some w' \<and> wrote w
    [[0x95, 0x04, 0x07, 0x00, 0x01], [0x96, 0x01], [0x0D, 0x08, 0xE7, 0x38], [0x8E, min db 22, 0x02]] w'"
proof -
  define m1 m2 m3 m4 :: "u8 list" where "m1 = [0x95, 0x04, 0x07, 0x00, 0x01]" and "m2 = [0x96, 0x01]"
    and "m3 = [0x0D, 0x08, 0xE7, 0x38]" and "m4 = [0x8E, min db 22, 0x02]"
  define step where "step m w = snd (write_bytes E m (next_read w))" for m w
  have s: "wrote w0 ms v \<Longrightarrow> wrote w0 (ms @ [m]) (step m v)" for w0 ms v m by (simp add: step_def)
  have "wrote w ((([] @ [m1]) @ [m2]) @ [m3] @ [m4]) (step m4 (step m3 (step m2 (step m1 w))))"
    using s [OF s [OF s [OF s [OF wrote_refl]]]] by simp
  moreover have "sx126x_set_tx_power E db w = Some (step m4 (step m3 (step m2 (step m1 w))))"
  proof -
    have "(if 22 < db then 22 else db) = min db 22" by (auto simp: min_def dest: leD)
    moreover have "byte_at 0 (0x08E7 :: u16) = 0xE7" "byte_at 8 (0x08E7 :: u16) = 0x08" by (simp_all add: byte_at_def)
    ultimately show ?thesis
      using assms by (simp add: sx126x_set_tx_power_def wait_idle Let_def step_def m1_def m2_def m3_def m4_def)
  qed
  ultimately show ?thesis by (simp add: m1_def m2_def m3_def m4_def)
qed

subsection \<open>The wait\<close>

text \<open>At most 10000 polls, and a time-out only after as many readings of 1.\<close>

lemma busy_poll_bounded:
  assumes "count < 10000"
  shows "\<exists>k. reads (snd (busy_poll E count w)) = reads w + k \<and> 0 < k \<and> count + k \<le> 10000
    \<and> (fst (busy_poll E count w) \<longrightarrow> count + k = 10000 \<and> (\<forall>i<k. busy_line E (reads w + i) = 1))
    \<and> (\<not> fst (busy_poll E count w) \<longrightarrow> busy_line E (reads w + k - 1) \<noteq> 1 \<and> (\<forall>i<k - 1. busy_line E (reads w + i) = 1))"
  using assms
proof (induction E count w rule: busy_poll.induct)
  case (1 E count w)
  show ?case
  proof (cases "busy_line E (reads w) = 1 \<and> count + 1 < 10000")
    case True
    then have eq: "busy_poll E count w = busy_poll E (count + 1) (next_read w)"
      by (subst busy_poll.simps) (simp add: get_busy_def)
    obtain k where k: "reads (snd (busy_poll E (count + 1) (next_read w))) = reads (next_read w) + k" "0 < k" "count + 1 + k \<le> 10000"
      "fst (busy_poll E (count + 1) (next_read w)) \<longrightarrow> count + 1 + k = 10000 \<and> (\<forall>i<k. busy_line E (reads (next_read w) + i) = 1)"
      "\<not> fst (busy_poll E (count + 1) (next_read w)) \<longrightarrow> busy_line E (reads (next_read w) + k - 1) \<noteq> 1
        \<and> (\<forall>i<k - 1. busy_line E (reads (next_read w) + i) = 1)"
      using "1.IH" [of "(busy_line E (reads w), next_read w)" "busy_line E (reads w)" "next_read w"] True
      by (auto simp: get_busy_def)
    have all: "(\<forall>i<Suc n. busy_line E (reads w + i) = 1)" if "\<forall>i<n. busy_line E (reads (next_read w) + i) = 1" for n
      using that True by (auto simp: less_Suc_eq_0_disj)
    show ?thesis
    proof (rule exI [of _ "Suc k"], intro conjI impI)
      show "\<forall>i<Suc k - 1. busy_line E (reads w + i) = 1" if "\<not> fst (busy_poll E count w)"
        using k(2,5) that all [of "k - 1"] by (simp add: eq)
    qed (use k all in \<open>auto simp: eq\<close>)
  next
    case False
    then show ?thesis
      using 1(2) by (subst (1 2 3) busy_poll.simps) (auto simp: get_busy_def intro: exI [of _ 1])
  qed
qed

subsection \<open>The preamble length\<close>

text \<open>
  The packet parameters carry the length of the preamble in two bytes, but the argument has eight bits: the high
  byte sent is always zero.
\<close>

lemma packet_params_message:
  "\<exists>w'. set_packet_params_loRa E p h n crc w = (spi_ret E (reads w) = 10, w')
     \<and> wrote w [[0x8C, 0x00, p, header_code h, n, crc_code crc, 0, 0, 0, 0]] w'"
proof -
  have "byte_at 8 (ucast p :: u32) = 0"
    by (rule bit_word_eqI) (auto simp: byte_at_def bit_simps dest: bit_imp_le_length)
  then show ?thesis
    by (auto simp: set_packet_params_loRa_def Let_def write_bytes_def wrote_def)
qed

end
