(* ===== verification/AirTime.thy ===== *)
theory AirTime
  imports DriverSafety
begin

section \<open>Modulation settings and air time\<close>

text \<open>
  The floating point part of the driver. For spreading factors the radio has, all conversions are
  defined, and the number of payload symbols the code computes in \<^verbatim>\<open>float\<close> and \<^verbatim>\<open>double\<close> is the
  integer of the LoRa formula. For the spreading factor zero, which the host can leave in place, the computation
  leaves the defined part of C.
\<close>

lemma fl_bounds:
  fixes x :: "'a::len word"
  assumes "LENGTH('a) \<le> 127"
  shows "fin_up (int LENGTH('a)) (fl x)"
proof -
  have "unat x \<le> 2 ^ LENGTH('a)" by (rule less_imp_le) simp
  from fin_up_nat [OF this assms] show ?thesis by (simp add: fl_def)
qed

lemma fl_u8: "fin_up 8 (fl (x :: u8))"
  using fl_bounds [where 'a = 8, of x] by simp

lemma bw_value_range: "7800 \<le> unat (bw_value bw)" "unat (bw_value bw) \<le> 500000" "bw_value bw \<noteq> 0"
  by (cases bw; simp)+

lemma fl_bw: "fin_in 12 19 (fl (bw_value bw))"
  using fin_in_nat [of 12 "unat (bw_value bw)" 19] bw_value_range [of bw] by (simp add: fl_def)

lemma cr_value: "unat (cr_code cr + 4) \<in> {4..8}"
  by (cases cr) auto

lemma fl_cr: "fin_in 2 3 (fl (cr_code cr + 4))"
  using fin_in_nat [of 2 "unat (cr_code cr + 4)" 3] cr_value [of cr] by (simp add: fl_def)

lemma fl_pow2_small: "uint sf \<le> 127 \<Longrightarrow> fin_in (uint sf) (uint sf) (fl_pow2 sf)"
  using fin_in_pow2 [of "unat sf"] by (simp add: fl_pow2_def)

lemma fl_pow2_large: "\<not> uint sf \<le> 127 \<Longrightarrow> fl_pow2 sf = PInf"
proof -
  assume "\<not> uint sf \<le> 127"
  then have "128 \<le> int (unat sf)" by (simp only: uint_nat)
  then have "128 \<le> unat sf" by linarith
  then show ?thesis by (simp add: fl_pow2_def f32_pow2_overflow)
qed

lemma fin_const: "fin_in 2 2 (Fin 4)" "fin_in 9 10 (Fin 1000)" "fin_up 10 (Fin 1000)"
  by (simp_all add: fin_in_def fin_up_def)

text \<open>The bit rate of the modem is defined for every byte the host may set as spreading factor.\<close>

lemma modem_bitrate_defined: "\<exists>br. modem_bitrate sf (cr_code cr + 4) (bw_value bw) = Some br"
proof (cases "uint sf \<le> 127")
  case True
  have sf0: "0 \<le> uint sf" by simp
  have khz: "fin_in 2 10 (f_div f32 (fl (bw_value bw)) (Fin 1000))"
    using fin_div [OF fl_bw fin_const(2)] by simp
  have ts: "fin_in (uint sf - 10) (uint sf - 2)
      (f_div f32 (fl_pow2 sf) (f_div f32 (fl (bw_value bw)) (Fin 1000)))"
    using fin_div [OF fl_pow2_small [OF True] khz] True sf0 by simp
  have r: "fin_in (-1) 0 (f_div f32 (Fin 4) (fl (cr_code cr + 4)))"
    using fin_div [OF fin_const(1) fl_cr] by simp
  have "fin_in (- 1 - (uint sf - 2)) (0 - (uint sf - 10)) (f_div f32
      (f_div f32 (Fin 4) (fl (cr_code cr + 4)))
      (f_div f32 (fl_pow2 sf) (f_div f32 (fl (bw_value bw)) (Fin 1000))))"
    by (rule fin_div [OF r ts]) (use True sf0 in linarith)+
  then have "fin_up 10 (f_div f32 (f_div f32 (Fin 4) (fl (cr_code cr + 4)))
      (f_div f32 (fl_pow2 sf) (f_div f32 (fl (bw_value bw)) (Fin 1000))))"
    by (rule fin_in_up) simp
  from fin_up_mul [OF fin_up_mul [OF fl_u8 this] fin_const(3)] show ?thesis
    unfolding modem_bitrate_def by (intro fin_up_to_u32) auto
next
  case False
  have khz: "fin_in 2 10 (f_div f32 (fl (bw_value bw)) (Fin 1000))"
    using fin_div [OF fl_bw fin_const(2)] by simp
  then obtain k where k: "f_div f32 (fl (bw_value bw)) (Fin 1000) = Fin k" "0 < k"
    using fin_in_pos by (fastforce simp: fin_in_def)
  obtain r where r: "f_div f32 (Fin 4) (fl (cr_code cr + 4)) = Fin r"
    using fin_div [OF fin_const(1) fl_cr] by (auto simp: fin_in_def)
  obtain s where s: "fl sf = Fin s" using fl_u8 [of sf] by (auto simp: fin_up_def)
  show ?thesis
    using False k by (simp add: modem_bitrate_def fl_pow2_large r s f_to_u32_def)
qed

lemma drv_set_lora_modulation:
  assumes "drv_ok (k, c, q, r, (sf0, cr0, bw0, p), f) w"
  shows "gives (drv_ok (k, c, q, r, (sf, cr_code cr + 4, bw_value bw, p), f)) (sx126x_set_lora_modulation E sf bw cr ldro w)"
proof -
  obtain br where br: "modem_bitrate sf (cr_code cr + 4) (bw_value bw) = Some br"
    using modem_bitrate_defined by blast
  define rate where "rate = f_div f32 (fl (bw_value bw)) (fl_pow2 sf)"
  define s where "s = (sx w)\<lparr>save_sf := sf, save_cr := cr_code cr + 4, save_ldro := (ldro = LDRO_ON),
       save_bw := bw_value bw, symbol_rate := rate,
       symbol_time_ms := f_mul f32 (f_div f32 (Fin 1) rate) (Fin 1000), bitrate := br\<rparr>"
  have "drv_ok (k, c, q, r, (sf, cr_code cr + 4, bw_value bw, p), f) (w\<lparr>sx := s\<rparr>)"
    using assms by (simp add: s_def drv_ok_def lines_ok_def rest_def modem_def txfifo_def)
  then show ?thesis
    unfolding sx126x_set_lora_modulation_def Let_def br rate_def [symmetric] Option.bind.simps s_def [symmetric]
    by (auto intro!: gives_chain wait_on_busy_ok)
qed

subsection \<open>The payload length in symbols\<close>

text \<open>Rounding a quotient of small integers to \<^verbatim>\<open>float\<close> does not move it over an integer.\<close>

lemma ceil_f32_quotient:
  assumes a: "\<bar>a\<bar> < 2 ^ 16" and b: "0 < b" "b < 2 ^ 8"
  shows "\<exists>y. f32 (of_int a / of_int b) = Fin y \<and> \<lceil>y\<rceil> = \<lceil>of_int a / of_int b :: rat\<rceil>"
proof (cases "b dvd a")
  case True
  then obtain c where c: "a = b * c" by blast
  have "\<bar>c\<bar> \<le> \<bar>a\<bar>" using b(1) by (simp add: c abs_mult mult_le_cancel_right1)
  then have "f32 (of_int c) = Fin (of_int c)" using a by (intro f32_of_int) simp
  with b(1) show ?thesis by (simp add: c)
next
  case False
  define q n :: rat where "q = of_int a / of_int b" and "n = of_int \<lceil>q\<rceil>"
  have bq: "0 < (of_int b :: rat)" "of_int b \<le> (255::rat)"
  proof -
    show "0 < (of_int b :: rat)" using b(1) by simp
    have "b \<le> 255" using b(2) by simp
    then have "of_int b \<le> (of_int 255 :: rat)" by (simp only: of_int_le_iff)
    then show "of_int b \<le> (255::rat)" by simp
  qed
  have aq: "of_int a = of_int b * q" using bq(1) by (simp add: q_def)
  have q: "n - 1 < q" "q \<le> n" by (simp_all add: n_def) linarith+
  have "of_int (b * (\<lceil>q\<rceil> - 1)) < (of_int a :: rat)" "of_int a \<le> (of_int (b * \<lceil>q\<rceil>) :: rat)"
    using q bq(1) by (simp_all add: aq n_def)
  then have "b * (\<lceil>q\<rceil> - 1) < a" "a \<le> b * \<lceil>q\<rceil>" by (simp_all only: of_int_less_iff of_int_le_iff)
  moreover have "a \<noteq> b * \<lceil>q\<rceil>" using False by auto
  ultimately have "b * (\<lceil>q\<rceil> - 1) + 1 \<le> a" "a \<le> b * \<lceil>q\<rceil> - 1" by auto
  then have "of_int (b * (\<lceil>q\<rceil> - 1) + 1) \<le> (of_int a :: rat)" "of_int a \<le> (of_int (b * \<lceil>q\<rceil> - 1) :: rat)"
    by (simp_all only: of_int_le_iff)
  then have gap: "n - 1 + 1 / of_int b \<le> q" "q \<le> n - 1 / of_int b"
    using bq(1) by (simp_all add: aq n_def field_simps)
  have ib: "(1 / 255 :: rat) \<le> 1 / of_int b" using bq by (simp add: field_simps)
  have "of_int \<bar>a\<bar> < (of_int (2 ^ 16) :: rat)" using a by (simp only: of_int_less_iff)
  then have "\<bar>of_int a\<bar> < (2 ^ 16 :: rat)" by simp
  moreover have "\<bar>q\<bar> \<le> \<bar>of_int a\<bar>"
  proof -
    have "1 \<le> (of_int b :: rat)" using b(1) by simp
    then have "\<bar>of_int a\<bar> / of_int b \<le> (\<bar>of_int a\<bar> / 1 :: rat)" by (intro frac_le) auto
    then show ?thesis using bq(1) by (simp add: q_def abs_divide)
  qed
  ultimately have q16: "\<bar>q\<bar> < 2 ^ 16" by linarith
  have "a \<noteq> 0" using False by auto
  then have "1 \<le> \<bar>a\<bar>" by simp
  then have "of_int 1 \<le> (of_int \<bar>a\<bar> :: rat)" by (simp only: of_int_le_iff)
  then have "(1::rat) \<le> \<bar>of_int a\<bar>" by simp
  then have "1 / of_int b \<le> \<bar>q\<bar>" using bq(1) by (simp add: q_def abs_divide divide_right_mono)
  with ib have "1 / 255 \<le> \<bar>q\<bar>" by linarith
  moreover have "(2::rat) powi - 126 \<le> 1 / 255"
    using power_int_increasing [of "-126" "-8" "2::rat"] by simp
  moreover have "(2::rat) ^ 16 \<le> 2 powi 127"
    using power_int_increasing [of 16 127 "2::rat"] by simp
  ultimately obtain y where y: "f32 q = Fin y" "\<bar>y - q\<bar> \<le> \<bar>q\<bar> * 2 powi (- 24)"
    using fround_relative [of "-126" q 127 24] q16 by (auto simp: f32_def)
  have "\<bar>q\<bar> * 2 powi (- 24) < 2 ^ 16 * 2 powi (- 24)" using q16 by (intro mult_strict_right_mono) auto
  with y(2) ib have "\<bar>y - q\<bar> < 1 / of_int b" by (simp add: power_int_minus)
  with gap have "n - 1 < y" "y \<le> n" by linarith+
  then have "\<lceil>y\<rceil> = \<lceil>q\<rceil>" by (simp add: n_def ceiling_unique)
  with y(1) show ?thesis by (auto simp: q_def)
qed

lemma fl_exact:
  assumes "unat x < 2 ^ 24"
  shows "fl x = Fin (of_int (uint x))"
  using f32_of_nat [OF assms] by (simp add: fl_def)

lemma uint_u8: "0 \<le> uint (x :: u8)" "uint x < 256"
  and uint_u16: "0 \<le> uint (y :: u16)" "uint y < 65536"
  using unsigned_less [of x, where ?'a = int] unsigned_less [of y, where ?'a = int] by simp_all

lemma fl_u8_exact: "fl (x :: u8) = Fin (of_int (uint x))"
  and fl_u16_exact: "fl (y :: u16) = Fin (of_int (uint y))"
  using fl_exact [of x] fl_exact [of y] unat_u8 [of x] unat_u16 [of y] by simp_all

lemma f32_small_int: "\<bar>n\<bar> < 16777216 \<Longrightarrow> f32 (of_int n) = Fin (of_int n)"
  by (rule f32_of_int) simp

lemma f_add_int:
  "\<bar>x + y\<bar> < 16777216 \<Longrightarrow> f_add f32 (Fin (of_int x)) (Fin (of_int y)) = Fin (of_int (x + y))"
  using f32_small_int [of "x + y"] by simp

lemma f_mul_int:
  "\<bar>x * y\<bar> < 16777216 \<Longrightarrow> f_mul f32 (Fin (of_int x)) (Fin (of_int y)) = Fin (of_int (x * y))"
  using f32_small_int [of "x * y"] by simp

text \<open>The bit count is computed without rounding.\<close>

lemma air_bits_exact: "air_bits s len = Fin (of_int (8 * uint len - 4 * uint (save_sf s) + 44))"
proof -
  define L S where "L = uint len" and "S = uint (save_sf s)"
  have b: "0 \<le> L" "L < 65536" "0 \<le> S" "S < 256"
    using uint_u16 [of len] uint_u8 [of "save_sf s"] by (simp_all add: L_def S_def)
  have fl: "fl len = Fin (of_int L)" "fl (save_sf s) = Fin (of_int S)"
    by (simp_all only: L_def S_def fl_u8_exact fl_u16_exact)
  have "f_mul f32 (Fin 8) (Fin (of_int L)) = Fin (of_int (8 * L))"
    "f_neg (f_mul f32 (Fin 4) (Fin (of_int S))) = Fin (of_int (- 4 * S))"
    using f_mul_int [of 8 L] f_mul_int [of 4 S] b by simp_all
  moreover have "f_add f32 (Fin (of_int (8 * L))) (Fin (of_int (- 4 * S))) = Fin (of_int (8 * L + - 4 * S))"
    using b by (intro f_add_int) simp
  moreover have "f_add f32 (Fin (of_int (8 * L + - 4 * S))) (Fin 8) = Fin (of_int (8 * L + - 4 * S + 8))"
    using f_add_int [of "8 * L + - 4 * S" 8] b by simp
  moreover have "f_add f32 (Fin (of_int (8 * L + - 4 * S + 8))) (Fin 16) = Fin (of_int (8 * L + - 4 * S + 24))"
    using f_add_int [of "8 * L + - 4 * S + 8" 16] b by simp
  moreover have "f_add f32 (Fin (of_int (8 * L + - 4 * S + 24))) (Fin 20) = Fin (of_int (8 * L + - 4 * S + 44))"
    using f_add_int [of "8 * L + - 4 * S + 24" 20] b by simp
  ultimately have "air_bits s len = Fin (of_int (8 * L + - 4 * S + 44))"
    by (simp only: air_bits_def Let_def fl)
  then show ?thesis by (simp add: L_def S_def)
qed

text \<open>The LoRa formula, in integers: symbols of payload for a packet of \<open>len\<close> bytes with CRC.\<close>

definition lora_symbols :: "int \<Rightarrow> int \<Rightarrow> int \<Rightarrow> int" where
  "lora_symbols sf cr len = 8 + cr * - ((- (8 * len - 4 * sf + 44)) div (4 * sf))"

lemma lora_symbols_nonneg:
  assumes "0 < sf" "0 \<le> cr" "0 \<le> len"
  shows "8 \<le> lora_symbols sf cr len"
proof -
  have "- (8 * len - 4 * sf + 44) < 4 * sf" using assms by simp
  then have "(- (8 * len - 4 * sf + 44)) div (4 * sf) \<le> (4 * sf - 1) div (4 * sf)"
    using assms(1) by (intro zdiv_mono1) auto
  also have "\<dots> = 0" using assms(1) by (intro div_pos_pos_trivial) auto
  finally have "(- (8 * len - 4 * sf + 44)) div (4 * sf) \<le> 0" .
  with assms(2) show ?thesis by (simp add: lora_symbols_def mult_le_0_iff)
qed

lemma lora_symbols_le:
  assumes "0 < sf" "sf \<le> 255" "0 \<le> cr" "cr \<le> 8" "0 \<le> len"
  shows "lora_symbols sf cr len \<le> 16 * len + 112"
proof -
  let ?a = "8 * len - 4 * sf + 44"
  have "?a \<le> (2 * len + 13) * (4 * sf)"
  proof -
    have "1 * (8 * len + 52) \<le> sf * (8 * len + 52)" using assms by (intro mult_right_mono) auto
    then show ?thesis using assms(1) by (simp add: algebra_simps)
  qed
  then have "- (2 * len + 13) * (4 * sf) \<le> - ?a" by (simp add: algebra_simps)
  then have "(- (2 * len + 13) * (4 * sf)) div (4 * sf) \<le> (- ?a) div (4 * sf)"
    using assms(1) by (intro zdiv_mono1) auto
  then have "- (2 * len + 13) \<le> (- ?a) div (4 * sf)" using assms(1) by simp
  then have "cr * - ((- ?a) div (4 * sf)) \<le> cr * (2 * len + 13)"
    using assms by (intro mult_left_mono) auto
  also have "\<dots> \<le> 8 * (2 * len + 13)" using assms by (intro mult_right_mono) auto
  finally show ?thesis by (simp add: lora_symbols_def)
qed

lemma f64_int: "\<bar>n\<bar> < 2 ^ 53 \<Longrightarrow> f64 (of_int n) = Fin (of_int n)"
proof -
  assume n: "\<bar>n\<bar> < 2 ^ 53"
  then have "of_int \<bar>n\<bar> < (of_int (2 ^ 53) :: rat)" by (simp only: of_int_less_iff)
  then have "\<bar>of_int n * 2 powi 0\<bar> < (2::rat) ^ 53" by simp
  also have "\<dots> \<le> 2 powi (1023 + 1)"
    using power_int_increasing [of 53 "1023 + 1" "2::rat"] by simp
  finally show ?thesis using fround_exact [of n 53 "-1022" 0 1023] n by (simp add: f64_def)
qed

text \<open>
  The symbol count of the code is the LoRa formula: for a spreading factor from 1 to 255 and packets
  of up to 32000 bytes, in spite of the two roundings of the division.
\<close>

lemma air_payload_lora:
  assumes sf: "save_sf s \<noteq> 0" and len: "uint len \<le> 32000"
    and fit: "lora_symbols (uint (save_sf s)) (uint (save_cr s)) (uint len) < 65536"
  shows "air_payload s len =
     Some (of_int (lora_symbols (uint (save_sf s)) (uint (save_cr s)) (uint len)))"
proof -
  define L S C where "L = uint len" and "S = uint (save_sf s)" and "C = uint (save_cr s)"
  have "S \<noteq> 0" "0 \<le> S" using sf by (simp_all add: S_def uint_0_iff)
  then have b: "0 \<le> L" "L \<le> 32000" "0 < S" "S < 256" "0 \<le> C" "C < 256"
    using uint_u8 [of "save_sf s"] uint_u8 [of "save_cr s"] len uint_u16 [of len]
    by (linarith | simp add: L_def S_def C_def)+
  define a where "a = 2 * L - S + 11"
  define n where "n = \<lceil>of_int a / of_int S :: rat\<rceil>"
  have a: "\<bar>a\<bar> < 2 ^ 16" using b by (simp add: a_def)
  have n: "n = - ((- (8 * L - 4 * S + 44)) div (4 * S))"
  proof -
    have "n = - ((- a) div S)"
      by (simp add: n_def ceiling_def flip: floor_divide_of_int_eq [where 'a = rat])
    also have "\<dots> = - ((4 * - a) div (4 * S))" by simp
    finally show ?thesis by (simp add: a_def algebra_simps)
  qed
  have f: "fl (save_sf s) = Fin (of_int S)" "fl (save_cr s) = Fin (of_int C)"
    by (simp_all only: S_def C_def fl_u8_exact)
  have bits: "air_bits s len = Fin (of_int (4 * a))"
    by (simp only: air_bits_exact) (simp add: a_def L_def S_def algebra_simps)
  have q: "f_div f32 (Fin (of_int (4 * a))) (Fin 4) = Fin (of_int a)"
    using f32_small_int [of a] a by simp
  obtain y where y: "f32 (of_int a / of_int S) = Fin y" "\<lceil>y\<rceil> = n"
    using ceil_f32_quotient [OF a] b by (auto simp: n_def)
  have d: "f_div f32 (Fin (of_int a)) (Fin (of_int S)) = Fin y" using b(3) y(1) by simp
  have r: "lora_symbols S C L = 8 + C * n" by (simp add: lora_symbols_def n)
  have sym: "8 \<le> 8 + C * n" "8 + C * n < 65536"
    using lora_symbols_nonneg [of S C L] b fit by (simp_all add: r S_def [symmetric] C_def [symmetric] L_def [symmetric])
  have "f_mul f64 (Fin (of_int n)) (Fin (of_int C)) = Fin (of_int (C * n))"
    using f64_int [of "n * C"] sym by (simp add: mult.commute abs_if)
  moreover have "f_add f64 (Fin (of_int (C * n))) (Fin 8) = Fin (of_int (8 + C * n))"
    using f64_int [of "C * n + 8"] sym by (simp add: add.commute)
  ultimately have "air_payload s len = f_to_u16 (Fin (of_int (8 + C * n)))"
    by (simp only: air_payload_def bits f q d f_ceil.simps y(2))
  also have "\<dots> = Some (of_int (8 + C * n))"
    using sym by (simp only: f_to_u16_def f_to_int.simps rtrunc_of_int) simp
  finally show ?thesis by (simp only: r S_def [symmetric] C_def [symmetric] L_def [symmetric])
qed

text \<open>
  With the settings of a LoRa radio (spreading factor up to 16, the bandwidths and coding rates of the
  driver) and a packet of at most 1022 bytes, every conversion of the air time is defined.
\<close>

lemma air_t_sym_range:
  assumes "uint (save_sf s) \<le> 16" "save_bw s = bw_value bw"
  shows "fin_up 14 (air_t_sym s)"
proof -
  let ?S = "uint (save_sf s)"
  have S: "0 \<le> ?S" by simp
  have "fin_in (?S - 19) (?S - 12) (f_div f32 (fl_pow2 (save_sf s)) (fl (save_bw s)))"
    unfolding assms(2) by (rule fin_div [OF fl_pow2_small fl_bw]) (use assms(1) S in linarith)+
  then have "fin_up 4 (f_div f32 (fl_pow2 (save_sf s)) (fl (save_bw s)))"
    by (rule fin_in_up) (use assms(1) in linarith)
  from fin_up_mul [OF this fin_const(3)] show ?thesis by (simp add: air_t_sym_def)
qed

theorem air_time_defined:
  assumes "0 < uint (save_sf s)" "uint (save_sf s) \<le> 16" "uint (save_cr s) \<le> 8"
    "save_bw s = bw_value bw" "uint len \<le> 1022"
  shows "\<exists>r. sx126x_air_time s len = Some r"
proof -
  define n where "n = lora_symbols (uint (save_sf s)) (uint (save_cr s)) (uint len)"
  have l0: "0 \<le> uint len" "0 \<le> uint (save_cr s)" by simp_all
  have "n \<le> 16 * uint len + 112" "8 \<le> n"
    using lora_symbols_le [of "uint (save_sf s)" "uint (save_cr s)" "uint len"]
      lora_symbols_nonneg [of "uint (save_sf s)" "uint (save_cr s)" "uint len"] assms l0
    by (simp_all add: n_def)
  then have n: "8 \<le> n" "n \<le> 2 ^ 15" using assms(5) by simp_all
  have p: "air_payload s len = Some (of_int n)"
  proof -
    have "save_sf s \<noteq> 0" using assms(1) by auto
    moreover have "uint len \<le> 32000" "n < 65536" using assms(5) n by simp_all
    ultimately show ?thesis unfolding n_def by (rule air_payload_lora)
  qed
  have un: "unat (of_int n :: u16) = nat n" using n by (simp only: unat_eq_nat_uint uint_word_of_int) simp
  have "fin_up 15 (fl (of_int n :: u16))"
    using fin_up_nat [of "nat n" 15] n un by (simp add: fl_def)
  from fin_up_mul [OF this air_t_sym_range [OF assms(2,4)]]
  obtain d where d: "f_to_u32 (f_mul f32 (fl (of_int n :: u16)) (air_t_sym s)) = Some d"
    using fin_up_to_u32 by fastforce
  have "f_add f32 (fl (save_preamble_len s)) (Fin (17 / 4)) = f32 (of_int (uint (save_preamble_len s)) + 17 / 4)"
    by (simp add: fl_u8_exact)
  moreover have "fin_up 9 (f32 (of_int (uint (save_preamble_len s)) + 17 / 4))"
  proof -
    have "of_int (uint (save_preamble_len s)) \<le> (of_int 256 :: rat)" "0 \<le> (of_int (uint (save_preamble_len s)) :: rat)"
      using uint_u8 [of "save_preamble_len s"] by (simp_all only: of_int_le_iff of_int_0_le_iff)
    then show ?thesis
      using fround_upper [of "of_int (uint (save_preamble_len s)) + 17 / 4" 9 "-126" 127 24]
      by (simp add: f32_def fin_up_def)
  qed
  ultimately have "fin_up 9 (f_add f32 (fl (save_preamble_len s)) (Fin (17 / 4)))" by simp
  from fin_up_mul [OF this air_t_sym_range [OF assms(2,4)]]
  obtain q where q: "f_to_u32 (f_mul f32 (f_add f32 (fl (save_preamble_len s)) (Fin (17 / 4))) (air_t_sym s)) = Some q"
    using fin_up_to_u32 by fastforce
  from p d q show ?thesis by (simp add: sx126x_air_time_def)
qed

text \<open>
  With the spreading factor the daemon starts with, zero, the code divides by zero and converts an
  infinity to an integer: undefined, whatever the packet.
\<close>

theorem air_time_sf0: "save_sf s = 0 \<Longrightarrow> sx126x_air_time s len = None"
proof -
  assume s: "save_sf s = 0"
  obtain c where c: "fl (save_cr s) = Fin (of_int c)" "0 \<le> c"
    using fl_u8_exact [of "save_cr s"] uint_u8 [of "save_cr s"] by blast
  define L where "L = uint len"
  have L: "0 \<le> L" "L < 65536" using uint_u16 [of len] by (simp_all only: L_def)
  have bits: "air_bits s len = Fin (of_int (4 * (2 * L + 11)))"
    using air_bits_exact [of s len] s by (simp add: L_def)
  have q: "f_div f32 (Fin (of_int (4 * (2 * L + 11)))) (Fin 4) = Fin (of_int (2 * L + 11))"
  proof -
    have "of_int (4 * (2 * L + 11)) / 4 = (of_int (2 * L + 11) :: rat)" by simp
    moreover have "f32 (of_int (2 * L + 11)) = Fin (of_int (2 * L + 11))"
      using L by (intro f32_small_int) simp
    ultimately show ?thesis by (simp only: f_div.simps) simp
  qed
  have "0 < (of_int (2 * L + 11) :: rat)" using L by (simp only: of_int_0_less_iff)
  then have d: "f_div f32 (Fin (of_int (2 * L + 11))) (fl (save_sf s)) = PInf"
    using s by (simp add: fl_def f_sign_def del: of_int_add of_int_mult)
  have "f_mul f64 PInf (Fin (of_int c)) \<in> {PInf, Nan}"
    using c(2) by (cases "c = 0") (auto simp: f_sign_def)
  then have "f_to_u16 (f_add f64 (f_mul f64 PInf (Fin (of_int c))) (Fin 8)) = None"
    by (auto simp: f_to_u16_def)
  then have "air_payload s len = None"
    by (simp only: air_payload_def bits q d c(1) f_ceil.simps)
  then show ?thesis by (simp add: sx126x_air_time_def)
qed

end
