(* ===== verification/Csma.thy ===== *)
theory Csma
  imports AirTime
begin

section \<open>Channel access\<close>

text \<open>
  \<^verbatim>\<open>src/csma.c\<close>: the noise floor and interference detection, the channel utilisation, the air time
  bins, the contention window and the slot timing; and the two status reports of \<^verbatim>\<open>src/rnode.c\<close> it
  calls. Every store into the fixed arrays and every conversion from \<^verbatim>\<open>float\<close> to an integer
  type may be undefined, so the operations return an option.
\<close>

abbreviation "CMD_STAT_CHTM \<equiv> 0x25 :: u8"
abbreviation "CMD_STAT_CSMA \<equiv> 0x28 :: u8"

abbreviation "AIRTIME_LONGTERM_MS \<equiv> 3600000 :: u64"
abbreviation "AIRTIME_BINLEN_MS \<equiv> 7500 :: u64"
abbreviation "AIRTIME_BINS \<equiv> 480 :: nat"
abbreviation "DCD_SAMPLES \<equiv> 2500 :: nat"
abbreviation "UTIL_UPDATE_INTERVAL \<equiv> 333 :: nat"
abbreviation "NOISE_FLOOR_SAMPLES \<equiv> 128 :: nat"
abbreviation "CSMA_INFR_THRESHOLD_DB \<equiv> 11 :: int"
abbreviation "CSMA_RFENV_RECAL_MS \<equiv> 2500 :: u64"
abbreviation "CSMA_RFENV_RECAL_LIMIT_DB \<equiv> - 83 :: int"
abbreviation "CSMA_CW_PER_BAND_WINDOWS \<equiv> 15 :: int"

definition upd_channel :: "(csma_channel_t \<Rightarrow> csma_channel_t) \<Rightarrow> world \<Rightarrow> world" where
  "upd_channel f w = w\<lparr>cs := (cs w)\<lparr>channel := f (channel (cs w))\<rparr>\<rparr>"

subsection \<open>The status reports\<close>

definition rnode_send_stat_csma :: "env \<Rightarrow> csma_cw_t \<Rightarrow> world \<Rightarrow> world option" where
  "rnode_send_stat_csma E c = kiss_encode E [CMD_STAT_CSMA, cw_band c, cw_min c, cw_max c]"

text \<open>A share of 1 as hundredths of a percent, in sixteen bits.\<close>

definition stat_percent :: "cfloat \<Rightarrow> u16 option" where
  "stat_percent x = f_to_u16 (f_mul f32 (f_mul f32 x (Fin 100)) (Fin 100))"

definition csma_get_interference :: "world \<Rightarrow> bool" where
  "csma_get_interference w = interference_detected (cs w)"

definition rnode_send_stat_channel :: "env \<Rightarrow> csma_channel_t \<Rightarrow> world \<Rightarrow> world option" where
  "rnode_send_stat_channel E ch w = do {
     ats \<leftarrow> stat_percent (airtime ch);
     atl \<leftarrow> stat_percent (longterm_airtime ch);
     cls \<leftarrow> stat_percent (total_channel_util ch);
     cll \<leftarrow> stat_percent (longterm_channel_util ch);
     let crs = of_int (current_rssi ch);
     let nfl = of_int (noise_floor ch);
     let ntf = (if csma_get_interference w then of_int (current_rssi ch + sint (rssi_offset (rn w))) else 0xFF);
     kiss_encode E ([CMD_STAT_CHTM] @ be16 ats @ be16 atl @ be16 cls @ be16 cll @ [crs, nfl, ntf]) w }"

subsection \<open>Contention window\<close>

definition csma_map :: "int \<Rightarrow> int \<Rightarrow> int \<Rightarrow> int \<Rightarrow> int \<Rightarrow> int" where
  "csma_map x in_min in_max out_min out_max =
     cdiv ((x - in_min) * (out_max - out_min)) (in_max - in_min) + out_min"

definition cw_band_for :: "int \<Rightarrow> int" where
  "cw_band_for airtime_pct =
     (let band = (if airtime_pct \<le> 7 then 1 else csma_map (airtime_pct + 7) 7 85 2 4)
      in if 4 < band then 4 else band)"

definition update_csma_parameters :: "env \<Rightarrow> world \<Rightarrow> world option" where
  "update_csma_parameters E w = do {
     airtime_pct \<leftarrow> f_to_i32 (f_mul f32 (airtime (channel (cs w))) (Fin 100));
     let new_cw_band = cw_band_for airtime_pct;
     if new_cw_band \<noteq> uint (cw_band (cw (cs w))) then do {
       let band = (of_int new_cw_band :: u8);
       let c = \<lparr>cw_band = band, cw_min = of_int ((uint band - 1) * CSMA_CW_PER_BAND_WINDOWS),
                cw_max = of_int (uint band * CSMA_CW_PER_BAND_WINDOWS - 1)\<rparr>;
       rnode_send_stat_csma E c (w\<lparr>cs := (cs w)\<lparr>cw := c\<rparr>\<rparr>) }
     else Some w }"

text \<open>
  \<^verbatim>\<open>random() % (cw.max - cw.min + 1) + cw.min) * csma_slot_ms\<close>, in \<^verbatim>\<open>long\<close>, returned as 32 bits; the
  remainder by zero is undefined.
\<close>

definition csma_get_cw :: "env \<Rightarrow> world \<Rightarrow> (u32 \<times> world) option" where
  "csma_get_cw E w =
     (let c = cw (cs w); n = uint (cw_max c) - uint (cw_min c) + 1; (r, w) = random_long E w
      in if n = 0 then None
         else Some (of_int ((uint r - n * cdiv (uint r) n + uint (cw_min c)) * csma_slot_ms (cs w)), w))"

subsection \<open>Air time bins\<close>

definition current_airtime_bin :: "env \<Rightarrow> world \<Rightarrow> u16 \<times> world" where
  "current_airtime_bin E w =
     (let (t, w) = get_time E w in (ucast ((t mod AIRTIME_LONGTERM_MS) div AIRTIME_BINLEN_MS), w))"

definition next_bin :: "u16 \<Rightarrow> nat" where
  "next_bin cb = (if unat (cb + 1) = AIRTIME_BINS then 0 else unat (cb + 1))"

definition prev_bin :: "u16 \<Rightarrow> nat" where
  "prev_bin cb = (if uint cb - 1 < 0 then AIRTIME_BINS - 1 else unat (cb - 1))"

definition recent_airtime :: "u16 \<Rightarrow> u16 \<Rightarrow> cfloat" where
  "recent_airtime a b = f_cast f32 (f_div f64 (f32 (of_nat (unat a + unat b))) (Fin 15000))"

definition longterm_share :: "u16 list \<Rightarrow> cfloat" where
  "longterm_share bins = f_div f32 (fl (fold (\<lambda>x s. s + ucast x) bins (0 :: u32))) (Fin 3600000)"

definition util_mean :: "cfloat list \<Rightarrow> cfloat" where
  "util_mean bins = f_div f32 (fold (\<lambda>x s. f_add f32 s x) bins (Fin 0)) (Fin 480)"

definition csma_update_airtime :: "env \<Rightarrow> world \<Rightarrow> world option" where
  "csma_update_airtime E w = do {
     let (cb, w) = current_airtime_bin E w;
     bins \<leftarrow> store_at (airtime_bins (cs w)) (next_bin cb) 0;
     let w = w\<lparr>cs := (cs w)\<lparr>airtime_bins := bins\<rparr>\<rparr>;
     a \<leftarrow> read_at bins (unat cb);
     b \<leftarrow> read_at bins (prev_bin cb);
     let w = upd_channel (\<lambda>ch. ch\<lparr>airtime := recent_airtime a b,
       longterm_airtime := longterm_share (take AIRTIME_BINS bins),
       longterm_channel_util := util_mean (take AIRTIME_BINS (longterm_bins (cs w)))\<rparr>) w;
     w \<leftarrow> update_csma_parameters E w;
     rnode_send_stat_channel E (channel (cs w)) w }"

definition csma_add_airtime :: "env \<Rightarrow> u32 \<Rightarrow> world \<Rightarrow> world option" where
  "csma_add_airtime E ms w = do {
     let (cb, w) = current_airtime_bin E w;
     a \<leftarrow> read_at (airtime_bins (cs w)) (unat cb);
     bins \<leftarrow> store_at (airtime_bins (cs w)) (unat cb) (a + ucast ms);
     bins \<leftarrow> store_at bins (next_bin cb) 0;
     Some (w\<lparr>cs := (cs w)\<lparr>airtime_bins := bins\<rparr>\<rparr>) }"

subsection \<open>Reading the channel\<close>

text \<open>\<^verbatim>\<open>csma_update_current_rssi\<close> in its four parts: interference, its persistence, noise floor, utilisation.\<close>

definition detect_interference :: "csma_st \<Rightarrow> csma_st" where
  "detect_interference c = c\<lparr>interference_detected := (noise_floor_sampled c \<and> \<not> dcd c
     \<and> noise_floor (channel c) + CSMA_INFR_THRESHOLD_DB < current_rssi (channel c))\<rparr>"

definition check_persistence :: "env \<Rightarrow> world \<Rightarrow> world" where
  "check_persistence E w =
     (if interference_detected (cs w) \<and> current_rssi (channel (cs w)) < CSMA_RFENV_RECAL_LIMIT_DB then
        let (t, w) = get_time E w
        in if \<not> interference_persists (cs w)
           then w\<lparr>cs := (cs w)\<lparr>interference_persists := True, interference_start := t\<rparr>\<rparr>
           else if CSMA_RFENV_RECAL_MS \<le> t - interference_start (cs w)
           then w\<lparr>cs := (cs w)\<lparr>noise_floor_sampled := False, interference_persists := False\<rparr>\<rparr>
           else w
      else w\<lparr>cs := (cs w)\<lparr>interference_persists := False\<rparr>\<rparr>)"

definition track_noise_floor :: "csma_st \<Rightarrow> csma_st option" where
  "track_noise_floor c =
     (if \<not> dcd c \<and> (\<not> noise_floor_sampled c
          \<or> current_rssi (channel c) < noise_floor (channel c) + CSMA_INFR_THRESHOLD_DB) then do {
        buf \<leftarrow> store_at (noise_floor_buffer c) (noise_floor_sample c) (current_rssi (channel c));
        let k = (noise_floor_sample c + 1) mod NOISE_FLOOR_SAMPLES;
        let sampled = (if k = 0 then True else noise_floor_sampled c);
        let c = c\<lparr>noise_floor_buffer := buf, noise_floor_sample := k, noise_floor_sampled := sampled\<rparr>;
        Some (if sampled
          then c\<lparr>channel := (channel c)\<lparr>noise_floor := cdiv (sum_list (take NOISE_FLOOR_SAMPLES buf)) 128\<rparr>\<rparr>
          else c) }
      else Some c)"

definition channel_util :: "bool list \<Rightarrow> cfloat \<Rightarrow> cfloat \<times> cfloat" where
  "channel_util samples air =
     (let local_util = f_div f32 (f32 (of_nat (length (filter (\<lambda>b. b) samples)))) (Fin 2500);
          total = f_add f32 local_util air
      in (local_util, if f_less (Fin 1) total then Fin 1 else total))"

definition sample_util :: "env \<Rightarrow> world \<Rightarrow> world option" where
  "sample_util E w = do {
     samples \<leftarrow> store_at (util_samples (cs w)) (dcd_sample (cs w)) (dcd (cs w));
     let k = (dcd_sample (cs w) + 1) mod DCD_SAMPLES;
     let w = w\<lparr>cs := (cs w)\<lparr>util_samples := samples, dcd_sample := k\<rparr>\<rparr>;
     if k mod UTIL_UPDATE_INTERVAL = 0 then do {
       let (local_util, total) = channel_util (take DCD_SAMPLES samples) (airtime (channel (cs w)));
       let w = upd_channel (\<lambda>ch. ch\<lparr>total_channel_util := total\<rparr>)
         (w\<lparr>cs := (cs w)\<lparr>local_channel_util := local_util\<rparr>\<rparr>);
       let (cb, w) = current_airtime_bin E w;
       x \<leftarrow> read_at (longterm_bins (cs w)) (unat cb);
       bins \<leftarrow> store_at (longterm_bins (cs w)) (unat cb) (if f_less x total then total else x);
       bins \<leftarrow> store_at bins (next_bin cb) (Fin 0);
       csma_update_airtime E (w\<lparr>cs := (cs w)\<lparr>longterm_bins := bins\<rparr>\<rparr>) }
     else Some w }"

definition csma_update_current_rssi :: "env \<Rightarrow> world \<Rightarrow> world option" where
  "csma_update_current_rssi E w =
     (if sx126x_get_state w \<noteq> SX126X_RX_SINGLE \<and> sx126x_get_state w \<noteq> SX126X_RX_CONTINUOUS then Some w
      else do {
        (rssi, w) \<leftarrow> sx126x_current_rssi E w;
        let w = upd_channel (\<lambda>ch. ch\<lparr>current_rssi := rssi\<rparr>) w;
        let w = check_persistence E (w\<lparr>cs := detect_interference (cs w)\<rparr>);
        c \<leftarrow> track_noise_floor (cs w);
        sample_util E (w\<lparr>cs := c\<rparr>) })"

subsection \<open>Carrier state and parameters\<close>

definition csma_set_dcd :: "bool \<Rightarrow> world \<Rightarrow> world" where
  "csma_set_dcd b w = w\<lparr>cs := (cs w)\<lparr>dcd := b\<rparr>\<rparr>"

definition csma_should_flush :: "world \<Rightarrow> bool" where
  "csma_should_flush w = lora_should_flush (cs w)"

definition csma_medium_free :: "world \<Rightarrow> bool" where
  "csma_medium_free w =
     (if avoid_interference (cs w) \<and> interference_detected (cs w) then False else \<not> dcd (cs w))"

definition csma_get_difs_ms :: "world \<Rightarrow> int" where
  "csma_get_difs_ms w = difs_ms (cs w)"

definition csma_get_channel :: "world \<Rightarrow> csma_channel_t" where
  "csma_get_channel w = channel (cs w)"

definition csma_get_phy_params :: "world \<Rightarrow> cfloat \<times> cfloat \<times> int \<times> int \<times> int \<times> int" where
  "csma_get_phy_params w = (lora_symbol_time_ms (cs w), lora_symbol_rate (cs w),
     lora_preamble_symbols (cs w), lora_preamble_time_ms (cs w), csma_slot_ms (cs w), difs_ms (cs w))"

text \<open>
  \<^verbatim>\<open>1 << sf\<close> is a shift of an \<^verbatim>\<open>int\<close>: undefined from 31 on. The constant \<open>4.0 / 5.0\<close> is a \<^verbatim>\<open>double\<close>.
\<close>

definition int_shift :: "u8 \<Rightarrow> int option" where
  "int_shift sf = (if unat sf \<le> 30 then Some (2 ^ unat sf) else None)"

definition csma_bitrate :: "u8 \<Rightarrow> u32 \<Rightarrow> int \<Rightarrow> u32 option" where
  "csma_bitrate sf bw chips = f_to_u32 (f_mul f64
     (f_div f64 (f_mul f64 (fl sf) (f_div f64 (Fin 4) (Fin 5)))
       (f_div f64 (f32 (of_int chips)) (f_div f64 (fl bw) (Fin 1000)))) (Fin 1000))"

definition slot_for :: "cfloat \<Rightarrow> int \<Rightarrow> int option" where
  "slot_for sym_time slot_min = do {
     slot \<leftarrow> f_to_i32 (f_mul f32 sym_time (Fin 12));
     let slot = (if 100 < slot then 100 else slot);
     Some (if slot < slot_min then slot_min else slot) }"

definition preamble_for :: "cfloat \<Rightarrow> int \<Rightarrow> (int \<times> int) option" where
  "preamble_for sym_time target_ms = do {
     let target = f_div f32 (Fin (of_int target_ms)) sym_time;
     let target = (if f_less target (Fin 18) then Fin 18 else f_ceil target);
     syms \<leftarrow> f_to_i64 target;
     ms \<leftarrow> f_to_i64 (f_ceil (f_mul f32 (f32 (of_int syms)) sym_time));
     Some (syms, ms) }"

definition csma_update_radio_params :: "u8 \<Rightarrow> u32 \<Rightarrow> world \<Rightarrow> world option" where
  "csma_update_radio_params sf bw w =
     (if bw = 0 \<or> sf = 0 then Some w
      else do {
        chips \<leftarrow> int_shift sf;
        let rate = f_div f32 (fl bw) (f32 (of_int chips));
        let sym_time = f_cast f32 (f_mul f64 (f_div f64 (Fin 1) rate) (Fin 1000));
        lora_bitrate \<leftarrow> csma_bitrate sf bw chips;
        let fast_rate = 30000 < lora_bitrate;
        let lora_limit_rate = 60000 < lora_bitrate;
        let lora_guard_rate = (\<not> lora_limit_rate \<and> 14000 < lora_bitrate);
        slot \<leftarrow> slot_for sym_time (if fast_rate then 24 - 18 else 24);
        (syms, ms) \<leftarrow> preamble_for sym_time (if fast_rate then 24 - 18 else 24);
        Some (w\<lparr>cs := (cs w)\<lparr>lora_symbol_rate := rate, lora_symbol_time_ms := sym_time,
          lora_should_flush := (\<not> lora_limit_rate \<and> \<not> lora_guard_rate),
          csma_slot_ms := slot, difs_ms := 0 + 2 * slot,
          lora_preamble_symbols := syms, lora_preamble_time_ms := ms\<rparr>\<rparr>) })"

end
