(* ===== verification/CsmaInv.thy ===== *)
theory CsmaInv
  imports Csma
begin

section \<open>Correctness of the channel access\<close>

text \<open>
  The invariant of the state of \<^verbatim>\<open>src/csma.c\<close>, the ranges of what it computes, and the condition
  under which the status report is defined. Bounds of floating point values are stated with \<open>fin_le\<close>.
\<close>

subsection \<open>Contention bands\<close>

lemma cw_band_for_thresholds:
  "0 \<le> pct \<Longrightarrow> cw_band_for pct = (if pct \<le> 7 then 1 else if pct \<le> 38 then 2 else if pct \<le> 77 then 3 else 4)"
proof -
  assume "0 \<le> pct"
  then have "7 < pct \<Longrightarrow> csma_map (pct + 7) 7 85 2 4 = pct * 2 div 78 + 2"
    by (simp add: csma_map_def)
  then show ?thesis by (auto simp: cw_band_for_def Let_def)
qed

text \<open>The window of a band, or the window the daemon starts with.\<close>

definition cw_ok :: "csma_cw_t \<Rightarrow> bool" where
  "cw_ok c \<longleftrightarrow> c = \<lparr>cw_band = 1, cw_min = 0, cw_max = 15\<rparr>
     \<or> 1 \<le> uint (cw_band c) \<and> uint (cw_band c) \<le> 4 \<and> uint (cw_min c) = (uint (cw_band c) - 1) * 15
        \<and> uint (cw_max c) = uint (cw_band c) * 15 - 1"

lemma cw_ok_window:
  assumes "cw_ok c"
  shows "0 < uint (cw_max c) - uint (cw_min c) + 1" "uint (cw_max c) - uint (cw_min c) + 1 \<le> 16"
    "uint (cw_max c) \<le> 59" "0 \<le> uint (cw_min c)"
  using assms by (auto simp: cw_ok_def)

lemma cw_ok_band:
  assumes "b = 1 \<or> b = 2 \<or> b = 3 \<or> b = 4"
  shows "cw_ok \<lparr>cw_band = of_int b, cw_min = of_int ((uint (of_int b :: u8) - 1) * 15),
                cw_max = of_int (uint (of_int b :: u8) * 15 - 1)\<rparr>"
  using assms by (auto simp: cw_ok_def)

lemma cw_band_cases: "0 \<le> pct \<Longrightarrow> cw_band_for pct = 1 \<or> cw_band_for pct = 2 \<or> cw_band_for pct = 3 \<or> cw_band_for pct = 4"
  by (simp add: cw_band_for_thresholds)

subsection \<open>Bins\<close>

lemma airtime_bin_less: "unat (fst (current_airtime_bin E w)) < AIRTIME_BINS"
proof -
  obtain t w' where t: "get_time E w = (t, w')" by fastforce
  have "unat ((t mod AIRTIME_LONGTERM_MS) div AIRTIME_BINLEN_MS) = unat t mod 3600000 div 7500"
    by (simp add: unat_div unat_mod)
  moreover have "unat t mod 3600000 div 7500 < 480" by (simp add: div_less_iff_less_mult)
  ultimately show ?thesis
    by (simp add: current_airtime_bin_def t unsigned_ucast_eq take_bit_nat_eq_self)
qed

lemma airtime_bin_snd [simp]: "snd (current_airtime_bin E w) = next_read w"
  by (simp add: current_airtime_bin_def case_prod_beta)

lemma next_bin_less: "unat cb < AIRTIME_BINS \<Longrightarrow> next_bin cb < AIRTIME_BINS"
  by (simp add: next_bin_def unat_word_ariths)

lemma prev_bin_eq: "prev_bin cb = (if cb = 0 then 479 else unat cb - 1)"
proof (cases "cb = 0")
  case False
  then have "unat cb \<noteq> 0" by (simp add: unat_eq_0)
  then have "0 < int (unat cb)" by linarith
  then have "0 < uint cb" by (simp only: uint_nat)
  with False show ?thesis by (simp add: prev_bin_def unat_minus_one)
qed (simp add: prev_bin_def)

lemma prev_bin_less: "unat cb < AIRTIME_BINS \<Longrightarrow> prev_bin cb < AIRTIME_BINS"
  by (cases "cb = 0") (simp_all add: prev_bin_eq less_imp_diff_less)

text \<open>The three bins an update touches: the next is cleared, the current and the previous count.\<close>

lemma bins_neighbours:
  "unat cb < AIRTIME_BINS \<Longrightarrow> next_bin cb = (unat cb + 1) mod 480 \<and> prev_bin cb = (unat cb + 479) mod 480"
proof -
  assume cb: "unat cb < AIRTIME_BINS"
  have "next_bin cb = (unat cb + 1) mod 480"
    using cb by (auto simp: next_bin_def unat_word_ariths mod_if)
  moreover have "prev_bin cb = (unat cb + 479) mod 480"
  proof (cases "cb = 0")
    case False
    then have "unat cb \<noteq> 0" by (simp add: unat_eq_0)
    then obtain n where n: "unat cb = Suc n" using not0_implies_Suc by blast
    with cb False show ?thesis by (simp add: prev_bin_eq)
  qed (simp add: prev_bin_eq)
  ultimately show ?thesis by simp
qed

subsection \<open>Ranges of the shares\<close>

lemma fin_le_const [simp]: "fin_le c (Fin x) = (0 \<le> x \<and> x \<le> c)"
  by (auto simp: fin_le_def)

lemma stat_percent_defined: "fin_le 6 x \<Longrightarrow> stat_percent x \<noteq> None"
proof -
  assume x: "fin_le 6 x"
  have h: "fin_le 100 (Fin 100)" by simp
  from fin_le_mul [OF x h, of 600] have "fin_le 600 (f_mul f32 x (Fin 100))" by simp
  from fin_le_mul [OF this h, of 60000] have "fin_le 60000 (f_mul f32 (f_mul f32 x (Fin 100)) (Fin 100))" by simp
  from fin_le_to_int [OF this, of "2 ^ 16 - 1" 0] show ?thesis by (auto simp: stat_percent_def f_to_u16_def)
qed

lemma fin_le_div:
  "fin_le a v \<Longrightarrow> 0 < b \<Longrightarrow> a \<le> of_nat n * b \<Longrightarrow> n < 2 ^ 24 \<Longrightarrow> fin_le (of_nat n) (f_div f32 v (Fin b))"
proof -
  assume a: "fin_le a v" "0 < b" "a \<le> of_nat n * b" "n < 2 ^ 24"
  obtain x where x: "v = Fin x" "0 \<le> x" "x \<le> a" using a(1) by (auto simp: fin_le_def)
  then have "0 \<le> x / b" "x / b \<le> of_nat n" using a(2,3) by (simp_all add: divide_le_eq)
  then have "fin_le (of_nat n) (f32 (x / b))" using a(4) by (intro fin_le_f32_nat)
  with a(2) show ?thesis by (simp add: x(1))
qed

lemma recent_airtime_le: "unat a + unat b \<le> 15000 * n \<Longrightarrow> n \<le> 1000 \<Longrightarrow> fin_le (of_nat n) (recent_airtime a b)"
proof -
  assume s: "unat a + unat b \<le> 15000 * n" and n: "n \<le> 1000"
  define m where "m = unat a + unat b"
  have m: "m \<le> 15000 * n" "m < 2 ^ 24" using s n by (simp_all add: m_def)
  have f: "f32 (of_nat m) = Fin (of_nat m)" using m(2) by (rule f32_of_nat)
  have "of_nat m \<le> (of_nat (15000 * n) :: rat)" using m(1) by (simp only: of_nat_le_iff)
  then have "of_nat m / 15000 \<le> (of_nat n :: rat)" by simp
  then have "fin_le (of_nat n) (f64 (of_nat m / 15000))" using n by (intro fin_le_f64) simp_all
  then obtain y where y: "f64 (of_nat m / 15000) = Fin y" "0 \<le> y" "y \<le> of_nat n" by (auto simp: fin_le_def)
  have "fin_le (of_nat n) (f32 y)" using y n by (intro fin_le_f32_nat) simp_all
  then show ?thesis by (simp only: recent_airtime_def m_def [symmetric] f) (simp add: y)
qed

text \<open>The sum of the bins does not wrap.\<close>

lemma fold_bins:
  "unat s + sum_list (map unat bins) < 2 ^ 32 \<Longrightarrow>
     unat (fold (\<lambda>x s. s + ucast x) (bins :: u16 list) (s :: u32)) = unat s + sum_list (map unat bins)"
proof (induction bins arbitrary: s)
  case (Cons b bins)
  have u: "unat (ucast b :: u32) = unat b"
    by (simp add: unsigned_ucast_eq take_bit_nat_eq_self less_trans [OF unsigned_less])
  have "unat (s + ucast b) = unat s + unat b"
    using Cons.prems by (subst unat_add_lem [THEN iffD1]) (auto simp: u)
  with Cons.IH [of "s + ucast b"] Cons.prems show ?case by simp
qed simp

lemma sum_list_le: "\<forall>x\<in>set xs. x \<le> (m::nat) \<Longrightarrow> sum_list xs \<le> length xs * m"
  by (induction xs) auto

lemma longterm_share_le:
  assumes len: "length bins \<le> AIRTIME_BINS" and b: "\<forall>x\<in>set bins. unat x \<le> 7500 * k" and k: "k \<le> 9"
  shows "fin_le (of_nat k) (longterm_share bins)"
proof -
  define m where "m = sum_list (map unat bins)"
  have "m \<le> length bins * (7500 * k)"
    unfolding m_def using sum_list_le [of "map unat bins" "7500 * k"] b by simp
  also have "\<dots> \<le> 480 * (7500 * k)" using len by (rule mult_le_mono1)
  finally have m: "m \<le> 3600000 * k" by simp
  then have "unat (fold (\<lambda>x s. s + ucast x) bins (0 :: u32)) = m"
    using fold_bins [of 0 bins] k by (simp add: m_def)
  then have f: "fl (fold (\<lambda>x s. s + ucast x) bins (0 :: u32)) = f32 (of_nat m)" by (simp add: fl_def)
  have "of_nat m \<le> (of_nat (3600000 * k) :: rat)" using m by (simp only: of_nat_le_iff)
  then have "of_nat m \<le> (of_nat (112500 * k) * 2 ^ 5 :: rat)" by simp
  from fin_le_f32 [OF _ this] k have "fin_le (of_nat (112500 * k) * 2 ^ 5) (f32 (of_nat m))" by simp
  from fin_le_div [OF this, of 3600000 k] k f show ?thesis by (simp add: longterm_share_def)
qed

lemma util_sum_le:
  "\<forall>x\<in>set bins. fin_le 1 x \<Longrightarrow> fin_le (of_nat n) s \<Longrightarrow> n + length bins < 2 ^ 24 \<Longrightarrow>
     fin_le (of_nat (n + length bins)) (fold (\<lambda>x s. f_add f32 s x) bins s)"
proof (induction bins arbitrary: n s)
  case (Cons b bins)
  have "fin_le (of_nat (Suc n)) (f_add f32 s b)"
    using fin_le_add [of "of_nat n" s 1 b "Suc n"] Cons.prems by simp
  with Cons.IH [of "Suc n"] Cons.prems show ?case by simp
qed simp

lemma util_mean_le: "length bins \<le> AIRTIME_BINS \<Longrightarrow> \<forall>x\<in>set bins. fin_le 1 x \<Longrightarrow> fin_le 1 (util_mean bins)"
proof -
  assume b: "length bins \<le> AIRTIME_BINS" "\<forall>x\<in>set bins. fin_le 1 x"
  have "fin_le (of_nat (length bins)) (fold (\<lambda>x s. f_add f32 s x) bins (Fin 0))"
    using util_sum_le [OF b(2), of 0 "Fin 0"] b(1) by simp
  moreover have "of_nat (length bins) \<le> (of_nat 480 :: rat)" using b(1) by (simp only: of_nat_le_iff)
  ultimately have "fin_le 480 (fold (\<lambda>x s. f_add f32 s x) bins (Fin 0))" by (auto intro: fin_le_mono)
  from fin_le_div [OF this, of 480 1] show ?thesis by (simp add: util_mean_def)
qed

lemma channel_util_le: "length samples \<le> DCD_SAMPLES \<Longrightarrow> fin_le 9 air \<Longrightarrow> fin_le 1 (snd (channel_util samples air))"
proof -
  assume a: "length samples \<le> DCD_SAMPLES" "fin_le 9 air"
  define n where "n = length (filter (\<lambda>b. b) samples)"
  have n: "n \<le> 2500" unfolding n_def by (rule order_trans [OF length_filter_le a(1)])
  then have "of_nat n \<le> (of_nat 2500 :: rat)" by (simp only: of_nat_le_iff)
  then have "fin_le 2500 (f32 (of_nat n))" using f32_of_nat [of n] n by simp
  from fin_le_div [OF this, of 2500 1] have l: "fin_le 1 (f_div f32 (f32 (of_nat n)) (Fin 2500))" by simp
  from fin_le_add [OF this a(2), of 10]
  obtain t where t: "f_add f32 (f_div f32 (f32 (of_nat n)) (Fin 2500)) air = Fin t" "0 \<le> t"
    by (auto simp: fin_le_def)
  then show ?thesis by (simp add: channel_util_def Let_def n_def)
qed

subsection \<open>The invariant\<close>

definition rssi_ok :: "int \<Rightarrow> bool" where
  "rssi_ok r \<longleftrightarrow> - 63 \<le> r \<and> r \<le> 64"

definition csma_wf :: "csma_st \<Rightarrow> bool" where
  "csma_wf c \<longleftrightarrow> length (airtime_bins c) = AIRTIME_BINS \<and> length (longterm_bins c) = AIRTIME_BINS
     \<and> length (util_samples c) = DCD_SAMPLES \<and> dcd_sample c < DCD_SAMPLES
     \<and> length (noise_floor_buffer c) = NOISE_FLOOR_SAMPLES \<and> noise_floor_sample c < NOISE_FLOOR_SAMPLES
     \<and> list_all rssi_ok (noise_floor_buffer c) \<and> list_all (fin_le 1) (longterm_bins c)
     \<and> fin_le 9 (airtime (channel c)) \<and> fin_le 1 (total_channel_util (channel c))
     \<and> cw_ok (cw c) \<and> 6 \<le> csma_slot_ms c \<and> csma_slot_ms c \<le> 100 \<and> difs_ms c = 2 * csma_slot_ms c"

lemma csma_wf_init [simp]: "csma_wf csma_init"
  by (simp add: csma_wf_def csma_init_def cw_ok_def rssi_ok_def list_all_iff)

text \<open>No bin has collected more than 45 seconds of air time.\<close>

definition bins_low :: "csma_st \<Rightarrow> bool" where
  "bins_low c \<longleftrightarrow> list_all (\<lambda>x. unat x \<le> 45000) (airtime_bins c)"

type_synonym chan_rest = "kiss_st \<times> queue_st \<times> rnode_st \<times> modem \<times> txfifo"

definition chan_rest :: "world \<Rightarrow> chan_rest" where
  "chan_rest w = (kiss_in w, qu w, rn w, modem (sx w), txfifo w)"

definition chan_ok :: "chan_rest \<Rightarrow> world \<Rightarrow> bool" where
  "chan_ok R w \<longleftrightarrow> drv_ok (rest w) w \<and> csma_wf (cs w) \<and> chan_rest w = R"

lemma chan_ok_iff: "chan_ok R w \<longleftrightarrow> lines_ok w \<and> length (kiss_out w) = MTU \<and> csma_wf (cs w) \<and> chan_rest w = R"
  by (auto simp: chan_ok_def drv_ok_def)

lemma chan_ok_cs: "chan_ok R w \<Longrightarrow> csma_wf c \<Longrightarrow> chan_ok R (w\<lparr>cs := c\<rparr>)"
  by (simp add: chan_ok_iff chan_rest_def lines_ok_def txfifo_def)

lemma chan_ok_next_read [simp]: "chan_ok R w \<Longrightarrow> chan_ok R (next_read w)"
  by (simp add: chan_ok_iff chan_rest_def lines_ok_def txfifo_def)

lemma chan_ok_wf [simp]: "chan_ok R w \<Longrightarrow> csma_wf (cs w)"
  by (simp add: chan_ok_def)

text \<open>Driver operations keep the state of the channel access.\<close>

definition chan_fixed :: "chan_rest \<Rightarrow> csma_st \<Rightarrow> world \<Rightarrow> bool" where
  "chan_fixed R c w \<longleftrightarrow> chan_ok R w \<and> cs w = c"

lemma chan_drv:
  assumes "\<And>S. drv_ok S w \<Longrightarrow> gives (drv_ok S) m" "chan_ok R w"
  shows "gives (chan_fixed R (cs w)) m"
proof -
  have "gives (drv_ok (rest w)) m" using assms by (simp add: chan_ok_def)
  then show ?thesis using assms(2)
    by (auto simp: gives_def chan_fixed_def chan_ok_def drv_ok_def rest_def chan_rest_def)
qed

lemma chan_drvr:
  assumes "\<And>S. drv_ok S w \<Longrightarrow> givesr (drv_ok S) m" "chan_ok R w"
  shows "givesr (chan_fixed R (cs w)) m"
proof -
  have "givesr (drv_ok (rest w)) m" using assms by (simp add: chan_ok_def)
  then show ?thesis using assms(2)
    by (auto simp: givesr_def chan_fixed_def chan_ok_def drv_ok_def rest_def chan_rest_def)
qed

lemma chan_encode: "chan_ok R w \<Longrightarrow> length buf \<le> 511 \<Longrightarrow> gives (chan_fixed R (cs w)) (kiss_encode E buf w)"
proof (rule chan_drv)
  fix S assume "length buf \<le> 511" "drv_ok S w"
  then show "gives (drv_ok S) (kiss_encode E buf w)"
    by (simp add: kiss_encode_short drv_ok_def [THEN iffD1])
qed

subsection \<open>The operations keep it\<close>

lemma update_csma_parameters_ok:
  assumes "chan_ok R w"
  shows "gives (\<lambda>w'. chan_ok R w' \<and> (\<exists>c. cs w' = (cs w)\<lparr>cw := c\<rparr>)) (update_csma_parameters E w)"
proof -
  have "fin_le 9 (airtime (channel (cs w)))" using assms by (simp add: chan_ok_def csma_wf_def)
  from fin_le_mul [OF this, of 100 "Fin 100" 900]
  have "fin_le 900 (f_mul f32 (airtime (channel (cs w))) (Fin 100))" by simp
  from fin_le_to_int [OF this, of "2 ^ 31 - 1" "- (2 ^ 31)"]
  obtain pct where pct: "f_to_i32 (f_mul f32 (airtime (channel (cs w))) (Fin 100)) = Some pct" "0 \<le> pct"
    by (auto simp: f_to_i32_def)
  define b where "b = cw_band_for pct"
  define c where "c = \<lparr>cw_band = (of_int b :: u8), cw_min = of_int ((uint (of_int b :: u8) - 1) * 15),
     cw_max = of_int (uint (of_int b :: u8) * 15 - 1)\<rparr>"
  have "cw_ok c" using cw_ok_band [of b] cw_band_cases [OF pct(2)] by (simp only: b_def c_def)
  then have "csma_wf ((cs w)\<lparr>cw := c\<rparr>)" using assms by (simp add: chan_ok_def csma_wf_def)
  then have "chan_ok R (w\<lparr>cs := (cs w)\<lparr>cw := c\<rparr>\<rparr>)" using assms by (intro chan_ok_cs)
  from chan_encode [OF this, of "[CMD_STAT_CSMA, cw_band c, cw_min c, cw_max c]"]
  have "gives (\<lambda>w'. chan_ok R w' \<and> cs w' = (cs w)\<lparr>cw := c\<rparr>) (rnode_send_stat_csma E c (w\<lparr>cs := (cs w)\<lparr>cw := c\<rparr>\<rparr>))"
    by (simp add: rnode_send_stat_csma_def chan_fixed_def [abs_def])
  moreover have "update_csma_parameters E w = (if b \<noteq> uint (cw_band (cw (cs w)))
      then rnode_send_stat_csma E c (w\<lparr>cs := (cs w)\<lparr>cw := c\<rparr>\<rparr>) else Some w)"
    by (simp only: update_csma_parameters_def pct(1) Option.bind.simps Let_def b_def c_def)
  moreover have "\<exists>d. cs w = (cs w)\<lparr>cw := d\<rparr>" by (rule exI [of _ "cw (cs w)"]) simp
  ultimately show ?thesis using assms by (auto simp: gives_def)
qed

lemma stat_channel_ok:
  assumes "chan_ok R w"
    and "D \<Longrightarrow> fin_le 6 (airtime ch) \<and> fin_le 6 (longterm_airtime ch) \<and> fin_le 1 (total_channel_util ch)
      \<and> fin_le 1 (longterm_channel_util ch)"
  shows "outcome D (chan_ok R) (rnode_send_stat_channel E ch w)"
proof -
  have e: "outcome D (chan_ok R) (kiss_encode E buf w)" if "length buf \<le> 511" for buf
    by (rule gives_outcome) (use chan_encode [OF assms(1) that, of E] in \<open>auto simp: gives_def chan_fixed_def\<close>)
  have p: "D \<Longrightarrow> stat_percent (airtime ch) \<noteq> None" "D \<Longrightarrow> stat_percent (longterm_airtime ch) \<noteq> None"
    "D \<Longrightarrow> stat_percent (total_channel_util ch) \<noteq> None" "D \<Longrightarrow> stat_percent (longterm_channel_util ch) \<noteq> None"
    using assms(2) stat_percent_defined fin_le_mono [of 1 _ 6] by auto
  show ?thesis
    unfolding rnode_send_stat_channel_def Let_def by (intro outcome_value p e) auto
qed

lemma list_all_update: "list_all P xs \<Longrightarrow> P x \<Longrightarrow> list_all P (xs[i := x])"
  by (auto simp: list_all_iff dest: set_update_subset_insert [THEN subsetD])

lemma csma_wf_airtime:
  assumes c: "csma_wf c" and bins: "length bins = AIRTIME_BINS"
    and i: "i < AIRTIME_BINS" "j < AIRTIME_BINS"
  shows "csma_wf (c\<lparr>airtime_bins := bins, channel := (channel c)\<lparr>airtime := recent_airtime (bins ! i) (bins ! j),
     longterm_airtime := x, longterm_channel_util := y\<rparr>\<rparr>)"
proof -
  have "unat (bins ! i) + unat (bins ! j) \<le> 15000 * 9"
    using unat_u16 [of "bins ! i"] unat_u16 [of "bins ! j"] by simp
  from recent_airtime_le [OF this] c bins show ?thesis by (simp add: csma_wf_def)
qed

lemma csma_update_airtime_ok:
  assumes w: "chan_ok R w"
  shows "outcome (bins_low (cs w)) (chan_ok R) (csma_update_airtime E w)"
proof -
  obtain cb where cb: "current_airtime_bin E w = (cb, next_read w)" "unat cb < AIRTIME_BINS"
    using airtime_bin_less [of E w] airtime_bin_snd [of E w] by (metis prod.collapse)
  have len: "length (airtime_bins (cs w)) = AIRTIME_BINS" "length (longterm_bins (cs w)) = AIRTIME_BINS"
    and lt: "list_all (fin_le 1) (longterm_bins (cs w))" "fin_le 1 (total_channel_util (channel (cs w)))"
    using w by (simp_all add: chan_ok_def csma_wf_def)
  define bins where "bins = (airtime_bins (cs w))[next_bin cb := 0]"
  define a b where "a = bins ! unat cb" and "b = bins ! prev_bin cb"
  define c where "c = (cs w)\<lparr>airtime_bins := bins, channel := (channel (cs w))\<lparr>airtime := recent_airtime a b,
     longterm_airtime := longterm_share bins, longterm_channel_util := util_mean (longterm_bins (cs w))\<rparr>\<rparr>"
  have bl: "length bins = AIRTIME_BINS" by (simp add: bins_def len)
  have ok: "chan_ok R ((next_read w)\<lparr>cs := c\<rparr>)"
    using w cb(2) bl by (intro chan_ok_cs) (simp_all add: c_def a_def b_def csma_wf_airtime prev_bin_less)
  have "fin_le 6 (airtime (channel c))" "fin_le 6 (longterm_airtime (channel c))" if "bins_low (cs w)"
  proof -
    have all: "list_all (\<lambda>x. unat x \<le> 45000) bins"
      using that by (simp add: bins_def bins_low_def list_all_update)
    then have "unat a \<le> 45000" "unat b \<le> 45000"
      using cb(2) bl prev_bin_less [OF cb(2)] by (simp_all add: a_def b_def list_all_length)
    then show "fin_le 6 (airtime (channel c))" using recent_airtime_le [of a b 6] by (simp add: c_def)
    show "fin_le 6 (longterm_airtime (channel c))"
      using longterm_share_le [of bins 6] all bl by (simp add: c_def list_all_iff)
  qed
  moreover have "fin_le 1 (longterm_channel_util (channel c))" "fin_le 1 (total_channel_util (channel c))"
    using util_mean_le [of "longterm_bins (cs w)"] len lt by (simp_all add: c_def list_all_iff)
  ultimately have st: "outcome (bins_low (cs w)) (chan_ok R) (rnode_send_stat_channel E (channel (cs w')) w')"
    if "chan_ok R w' \<and> (\<exists>d. cs w' = c\<lparr>cw := d\<rparr>)" for w'
    using that by (intro stat_channel_ok) auto
  have up: "outcome (bins_low (cs w)) (\<lambda>w'. chan_ok R w' \<and> (\<exists>d. cs w' = c\<lparr>cw := d\<rparr>))
      (update_csma_parameters E ((next_read w)\<lparr>cs := c\<rparr>))"
    using update_csma_parameters_ok [OF ok] by (intro gives_outcome) simp
  have "csma_update_airtime E w = do { w \<leftarrow> update_csma_parameters E ((next_read w)\<lparr>cs := c\<rparr>);
      rnode_send_stat_channel E (channel (cs w)) w }"
    using len cb(2) bl
    by (simp add: csma_update_airtime_def cb(1) store_at_def read_at_def next_bin_less prev_bin_less
        bins_def [symmetric] a_def [symmetric] b_def [symmetric] upd_channel_def c_def)
  with outcome_bind [OF up st] show ?thesis by simp
qed

lemma csma_add_airtime_ok:
  assumes w: "chan_ok R w"
  shows "gives (chan_ok R) (csma_add_airtime E ms w)"
proof -
  obtain cb where cb: "current_airtime_bin E w = (cb, next_read w)" "unat cb < AIRTIME_BINS"
    using airtime_bin_less [of E w] airtime_bin_snd [of E w] by (metis prod.collapse)
  have len: "length (airtime_bins (cs w)) = AIRTIME_BINS" using w by (simp add: chan_ok_def csma_wf_def)
  have "csma_wf ((cs w)\<lparr>airtime_bins := bins\<rparr>)" if "length bins = AIRTIME_BINS" for bins
    using w that by (simp add: chan_ok_def csma_wf_def)
  then have "chan_ok R ((next_read w)\<lparr>cs := (cs w)\<lparr>airtime_bins := bins\<rparr>\<rparr>)" if "length bins = AIRTIME_BINS" for bins
    using w that by (intro chan_ok_cs) simp_all
  then show ?thesis
    using len cb(2) by (simp add: csma_add_airtime_def cb(1) read_at_def store_at_def next_bin_less)
qed

lemma sint_u8: "- 128 \<le> sint (x :: u8)" "sint (x :: u8) \<le> 127"
  using sint_greater_eq [of x] sint_less [of x] by simp_all

lemma rssi_of_byte_ok: "rssi_ok (rssi_of_byte b)"
proof (cases "0 < sint b")
  case True
  then have "cdiv (- sint b) 2 = - (sint b div 2)" by (simp add: cdiv_neg)
  moreover have "0 \<le> sint b div 2" "sint b div 2 \<le> 63" using True sint_u8(2) [of b] by linarith+
  ultimately show ?thesis by (simp add: rssi_of_byte_def rssi_ok_def)
next
  case False
  then have "0 \<le> - sint b div 2" "- sint b div 2 \<le> 64" using sint_u8(1) [of b] by linarith+
  with False show ?thesis by (simp add: rssi_of_byte_def rssi_ok_def)
qed

lemma track_noise_floor_ok:
  assumes "csma_wf c" "rssi_ok (current_rssi (channel c))"
  shows "\<exists>c'. track_noise_floor c = Some c' \<and> csma_wf c' \<and> airtime_bins c' = airtime_bins c"
proof (cases "\<not> dcd c \<and> (\<not> noise_floor_sampled c
          \<or> current_rssi (channel c) < noise_floor (channel c) + CSMA_INFR_THRESHOLD_DB)")
  case True
  define c' where "c' = the (track_noise_floor c)"
  have "noise_floor_sample c < length (noise_floor_buffer c)" using assms(1) by (simp add: csma_wf_def)
  then have "track_noise_floor c = Some c'" using True by (simp add: track_noise_floor_def store_at_def c'_def Let_def)
  moreover have "csma_wf c' \<and> airtime_bins c' = airtime_bins c"
    using True assms
    by (simp add: c'_def track_noise_floor_def store_at_def csma_wf_def Let_def list_all_update)
  ultimately show ?thesis by blast
next
  case False
  then show ?thesis using assms(1) by (simp only: track_noise_floor_def if_False) simp
qed

lemma sample_util_ok:
  assumes w: "chan_ok R w"
  shows "outcome (bins_low (cs w)) (chan_ok R) (sample_util E w)"
proof -
  define samples where "samples = (util_samples (cs w))[dcd_sample (cs w) := dcd (cs w)]"
  define k where "k = Suc (dcd_sample (cs w)) mod DCD_SAMPLES"
  define c where "c = (cs w)\<lparr>util_samples := samples, dcd_sample := k\<rparr>"
  have wf: "csma_wf (cs w)" using w by simp
  have s: "store_at (util_samples (cs w)) (dcd_sample (cs w)) (dcd (cs w)) = Some samples"
    using wf by (simp add: store_at_def csma_wf_def samples_def)
  have c: "csma_wf c" using wf by (simp add: csma_wf_def c_def samples_def k_def)
  show ?thesis
  proof (cases "k mod UTIL_UPDATE_INTERVAL = 0")
    case False
    then show ?thesis using w c
      by (simp add: sample_util_def s k_def [symmetric] c_def [symmetric] chan_ok_cs Let_def)
  next
    case True
    obtain lu total where u: "channel_util samples (airtime (channel (cs w))) = (lu, total)" by fastforce
    have l: "length samples = DCD_SAMPLES" "length (longterm_bins (cs w)) = AIRTIME_BINS"
      "list_all (fin_le 1) (longterm_bins (cs w))"
      using wf by (simp_all add: samples_def csma_wf_def)
    have total: "fin_le 1 total"
      using channel_util_le [of samples "airtime (channel (cs w))"] wf l u by (simp add: csma_wf_def)
    obtain cb where cb: "current_airtime_bin E w' = (cb, next_read w')" "unat cb < AIRTIME_BINS"
      if "reads w' = reads w" for w'
    proof -
      have "current_airtime_bin E w' = (fst (current_airtime_bin E w), next_read w')" if "reads w' = reads w" for w'
        using that by (simp add: current_airtime_bin_def get_time_def Let_def)
      then show ?thesis using airtime_bin_less that by blast
    qed
    define x where "x = (if f_less (longterm_bins (cs w) ! unat cb) total then total else longterm_bins (cs w) ! unat cb)"
    define bins where "bins = (longterm_bins (cs w))[unat cb := x, next_bin cb := Fin 0]"
    define c2 where "c2 = c\<lparr>local_channel_util := lu, channel := (channel c)\<lparr>total_channel_util := total\<rparr>,
       longterm_bins := bins\<rparr>"
    have "fin_le 1 x" using l(2,3) cb(2) total by (simp add: x_def list_all_length)
    then have "list_all (fin_le 1) bins" "length bins = AIRTIME_BINS"
      using l by (simp_all add: bins_def list_all_update)
    then have "csma_wf c2" using c total by (simp add: c2_def csma_wf_def)
    then have ok: "chan_ok R ((next_read w)\<lparr>cs := c2\<rparr>)" using w by (intro chan_ok_cs) simp_all
    have d: "dcd_sample (cs w) < length (util_samples (cs w))" using wf by (simp add: csma_wf_def)
    have "sample_util E w = csma_update_airtime E ((next_read w)\<lparr>cs := c2\<rparr>)"
      using True l cb(2) d u
      by (simp add: sample_util_def samples_def [symmetric] k_def [symmetric] upd_channel_def Let_def cb(1) read_at_def
          store_at_def next_bin_less x_def bins_def c2_def c_def next_read_def)
    with csma_update_airtime_ok [OF ok, of E] show ?thesis by (simp add: c2_def c_def bins_low_def)
  qed
qed

text \<open>
  The periodic reading of the channel keeps the invariant; while no bin has more than 45 seconds of air
  time it never leaves the defined part of C.
\<close>

lemma check_persistence_ok:
  assumes "chan_ok R w"
  shows "chan_ok R (check_persistence E w) \<and> airtime_bins (cs (check_persistence E w)) = airtime_bins (cs w)
    \<and> channel (cs (check_persistence E w)) = channel (cs w)"
proof -
  have "csma_wf ((cs w)\<lparr>interference_persists := b, interference_start := t\<rparr>)"
    "csma_wf ((cs w)\<lparr>noise_floor_sampled := s, interference_persists := b\<rparr>)"
    "csma_wf ((cs w)\<lparr>interference_persists := b\<rparr>)" for b t s
    using assms by (simp_all add: chan_ok_def csma_wf_def)
  with assms show ?thesis
    by (simp add: check_persistence_def Let_def case_prod_beta chan_ok_cs)
qed

lemma csma_update_current_rssi_ok:
  assumes w: "chan_ok R w"
  shows "outcome (bins_low (cs w)) (chan_ok R) (csma_update_current_rssi E w)"
proof (cases "sx126x_get_state w \<noteq> SX126X_RX_SINGLE \<and> sx126x_get_state w \<noteq> SX126X_RX_CONTINUOUS")
  case True
  then show ?thesis using w by (simp add: csma_update_current_rssi_def)
next
  case False
  obtain rssi w1 where r: "sx126x_current_rssi E w = Some (rssi, w1)" "chan_ok R w1" "cs w1 = cs w"
    using chan_drvr [of w "sx126x_current_rssi E w" R, OF drv_current_rssi w] by (auto simp: givesr_def chan_fixed_def)
  have rok: "rssi_ok rssi"
    using r(1) rssi_of_byte_ok by (auto simp: sx126x_current_rssi_def Let_def split: bind_splits prod.splits)
  define w2 where "w2 = upd_channel (\<lambda>ch. ch\<lparr>current_rssi := rssi\<rparr>) w1"
  define w3 where "w3 = w2\<lparr>cs := detect_interference (cs w2)\<rparr>"
  have "csma_wf (detect_interference ((cs w1)\<lparr>channel := (channel (cs w1))\<lparr>current_rssi := rssi\<rparr>\<rparr>))"
    using r(2) by (simp add: detect_interference_def chan_ok_def csma_wf_def)
  then have w3: "chan_ok R w3" "airtime_bins (cs w3) = airtime_bins (cs w)" "rssi_ok (current_rssi (channel (cs w3)))"
    using r rok by (simp_all add: w3_def w2_def upd_channel_def chan_ok_cs detect_interference_def)
  define w4 where "w4 = check_persistence E w3"
  have w4: "chan_ok R w4" "airtime_bins (cs w4) = airtime_bins (cs w)" "rssi_ok (current_rssi (channel (cs w4)))"
    using check_persistence_ok [OF w3(1), of E] w3 by (simp_all add: w4_def)
  obtain c where c: "track_noise_floor (cs w4) = Some c" "csma_wf c" "airtime_bins c = airtime_bins (cs w)"
    using track_noise_floor_ok [OF chan_ok_wf [OF w4(1)] w4(3)] w4(2) by auto
  have "csma_update_current_rssi E w = sample_util E (w4\<lparr>cs := c\<rparr>)"
    using False r(1) c(1)
    by (auto simp: csma_update_current_rssi_def w4_def w3_def w2_def Let_def)
  with sample_util_ok [OF chan_ok_cs [OF w4(1) c(2)], of E] c(3) show ?thesis
    by (simp add: bins_low_def)
qed

subsection \<open>The waiting times\<close>

lemma csma_get_cw_range:
  assumes "csma_wf (cs w)"
  shows "\<exists>t. csma_get_cw E w = Some (t, next_read w) \<and> uint t \<le> 59 * 100
    \<and> (\<exists>n. uint (cw_min (cw (cs w))) \<le> n \<and> n \<le> uint (cw_max (cw (cs w))) \<and> uint t = n * csma_slot_ms (cs w))"
proof -
  define lo hi s where "lo = uint (cw_min (cw (cs w)))" and "hi = uint (cw_max (cw (cs w)))"
    and "s = csma_slot_ms (cs w)"
  have c: "0 < hi - lo + 1" "hi \<le> 59" "0 \<le> lo" "6 \<le> s" "s \<le> 100"
    using assms cw_ok_window [of "cw (cs w)"] by (simp_all add: csma_wf_def lo_def hi_def s_def)
  obtain r where r: "random_long E w = (r, next_read w)" using random_long_snd [of E w] by (metis prod.collapse)
  define R where "R = uint r"
  have R: "0 \<le> R" by (simp add: R_def)
  define n where "n = R mod (hi - lo + 1) + lo"
  have n: "lo \<le> n" "n \<le> hi"
    using pos_mod_bound [OF c(1), of R] pos_mod_sign [OF c(1), of R] by (simp_all add: n_def)
  have "n * s \<le> 59 * 100" using n c by (intro mult_mono) auto
  moreover have "0 \<le> n * s" using n c by simp
  ultimately have p: "n * s \<le> 59 * 100" "0 \<le> n * s" .
  then have u: "uint (of_int (n * s) :: u32) = n * s" by (simp only: uint_word_of_int) simp
  have "R - (hi - lo + 1) * cdiv R (hi - lo + 1) = R mod (hi - lo + 1)"
    using R c(1) by (simp add: minus_mult_div_eq_mod)
  then have "csma_get_cw E w = Some (of_int (n * s), next_read w)"
    using c(1) by (simp add: csma_get_cw_def r Let_def R_def [symmetric] lo_def [symmetric] hi_def [symmetric]
        s_def [symmetric] n_def)
  with u n p(1) show ?thesis by (auto simp: lo_def hi_def s_def)
qed

end
