(* ===== verification/PacketQueue.thy ===== *)
theory PacketQueue
  imports CsmaInv
begin

section \<open>The transmit queue\<close>

text \<open>
  The linked list of \<^verbatim>\<open>src/queue.c\<close>: nodes in a heap, \<^verbatim>\<open>head\<close> and \<^verbatim>\<open>tail\<close> pointers, and a \<^verbatim>\<open>next\<close>
  field that \<^verbatim>\<open>queue_push\<close> leaves uninitialised. Reading a pointer that is null or freed is
  undefined. The interface \<open>fifo\<close> is what the transmit worker relies on; the list is
  shown to provide it, to free every node it drops, and never to read an uninitialised pointer.
\<close>

abbreviation "CMD_STAT_QUEUE \<equiv> 0x2A :: u8"

definition rnode_send_stat_queue :: "env \<Rightarrow> u16 \<Rightarrow> world \<Rightarrow> world option" where
  "rnode_send_stat_queue E depth = kiss_encode E (CMD_STAT_QUEUE # be16 depth)"

subsection \<open>The code\<close>

text \<open>\<^verbatim>\<open>p->field\<close> for a pointer that may be null.\<close>

definition deref :: "queue_st \<Rightarrow> nat option \<Rightarrow> item_t option" where
  "deref q p = Option.bind p (q_heap q)"

text \<open>The list part of \<^verbatim>\<open>queue_push\<close>: allocate, fill, link at the tail, count. \<open>junk\<close> is what \<^verbatim>\<open>malloc\<close> leaves in \<^verbatim>\<open>next\<close>.\<close>

definition q_append :: "nat option \<Rightarrow> u8 list \<Rightarrow> queue_st \<Rightarrow> queue_st option" where
  "q_append junk buf q = do {
     let item = q_brk q;
     let q = q\<lparr>q_heap := (q_heap q)(item \<mapsto> \<lparr>item_data = buf, item_next = junk\<rparr>), q_brk := item + 1\<rparr>;
     q \<leftarrow> (if q_head q = None \<and> q_tail q = None
          then Some (q\<lparr>q_head := Some item, q_tail := Some item\<rparr>)
          else do {
            t \<leftarrow> q_tail q;
            it \<leftarrow> deref q (q_tail q);
            Some (q\<lparr>q_heap := (q_heap q)(t \<mapsto> it\<lparr>item_next := Some item\<rparr>), q_tail := Some item\<rparr>) });
     Some (q\<lparr>queue_depth := queue_depth q + 1\<rparr>) }"

definition queue_push :: "env \<Rightarrow> u8 list \<Rightarrow> world \<Rightarrow> world option" where
  "queue_push E buf w = do {
     q \<leftarrow> q_append (malloc_junk E (reads w)) buf (qu w);
     rnode_send_stat_queue E (queue_depth q) ((next_read w)\<lparr>qu := q\<rparr>) }"

text \<open>The list part of \<^verbatim>\<open>send_packet\<close> after the transmission: unlink the head, free it, count.\<close>

definition q_remove :: "nat option \<Rightarrow> queue_st \<Rightarrow> queue_st option" where
  "q_remove item q = do {
     q \<leftarrow> (if q_head q = q_tail q then Some (q\<lparr>q_head := None, q_tail := None\<rparr>)
          else do { it \<leftarrow> deref q (q_head q); Some (q\<lparr>q_head := item_next it\<rparr>) });
     p \<leftarrow> item;
     it \<leftarrow> deref q item;
     Some (q\<lparr>q_heap := (q_heap q)(p := None), queue_depth := queue_depth q - 1\<rparr>) }"

definition queue_get_depth :: "world \<Rightarrow> u16" where
  "queue_get_depth w = queue_depth (qu w)"

definition queue_set_busy_timeout :: "u32 \<Rightarrow> u32 \<Rightarrow> world \<Rightarrow> world" where
  "queue_set_busy_timeout header_ms data_ms w =
     w\<lparr>qu := (qu w)\<lparr>tx_header_timeout := header_ms, tx_data_timeout := data_ms\<rparr>\<rparr>"

text \<open>
  \<^verbatim>\<open>queue_medium_state\<close>: the carrier state and the permission to send, on each cause. On
  \<^verbatim>\<open>CAUSE_HEADER_VALID\<close> a running flush is not stopped.
\<close>

definition queue_medium_state :: "env \<Rightarrow> cause_medium_t \<Rightarrow> world \<Rightarrow> world" where
  "queue_medium_state E cause w =
     (let (now, w) = get_time E w in
      case cause of
        CAUSE_INIT \<Rightarrow> (csma_set_dcd False w)\<lparr>qu := (qu w)\<lparr>tx_enable := True\<rparr>\<rparr>
      | CAUSE_TX_DONE \<Rightarrow> (csma_set_dcd False w)\<lparr>qu := (qu w)\<lparr>tx_enable := True\<rparr>\<rparr>
      | CAUSE_RX_DONE \<Rightarrow> (csma_set_dcd False w)\<lparr>qu := (qu w)\<lparr>tx_enable := True\<rparr>\<rparr>
      | CAUSE_HEADER_ERR \<Rightarrow> (csma_set_dcd False w)\<lparr>qu := (qu w)\<lparr>tx_enable := True\<rparr>\<rparr>
      | CAUSE_PREAMBLE_DETECTED \<Rightarrow> (csma_set_dcd True w)\<lparr>qu := (qu w)\<lparr>tx_enable := False,
          flushing := False, tx_disabled := now + ucast (tx_header_timeout (qu w))\<rparr>\<rparr>
      | CAUSE_HEADER_VALID \<Rightarrow> (csma_set_dcd True w)\<lparr>qu := (qu w)\<lparr>tx_enable := False,
          tx_disabled := now + ucast (tx_data_timeout (qu w))\<rparr>\<rparr>)"

subsection \<open>The interface of a queue\<close>

datatype 'a fifo_op = Push 'a | Pop

text \<open>The specification: a list, read at the front and extended at the end.\<close>

fun fifo_spec :: "'a fifo_op list \<Rightarrow> 'a list \<Rightarrow> 'a list \<times> 'a list" where
  "fifo_spec [] xs = ([], xs)"
| "fifo_spec (Push x # ops) xs = fifo_spec ops (xs @ [x])"
| "fifo_spec (Pop # ops) [] = fifo_spec ops []"
| "fifo_spec (Pop # ops) (x # xs) = (let (out, ys) = fifo_spec ops xs in (x # out, ys))"

fun fifo_run :: "('a \<Rightarrow> 'q \<Rightarrow> 'q option) \<Rightarrow> ('q \<Rightarrow> bool) \<Rightarrow> ('q \<Rightarrow> 'a option) \<Rightarrow> ('q \<Rightarrow> 'q option) \<Rightarrow>
    'a fifo_op list \<Rightarrow> 'q \<Rightarrow> ('a list \<times> 'q) option" where
  "fifo_run push is_nil peek unlink [] q = Some ([], q)"
| "fifo_run push is_nil peek unlink (Push x # ops) q = do {
     q \<leftarrow> push x q; fifo_run push is_nil peek unlink ops q }"
| "fifo_run push is_nil peek unlink (Pop # ops) q =
     (if is_nil q then fifo_run push is_nil peek unlink ops q
      else do { x \<leftarrow> peek q; q \<leftarrow> unlink q;
                (out, q) \<leftarrow> fifo_run push is_nil peek unlink ops q; Some (x # out, q) })"

locale fifo =
  fixes rep :: "'q \<Rightarrow> 'a list \<Rightarrow> bool"
    and push :: "'a \<Rightarrow> 'q \<Rightarrow> 'q option"
    and is_nil :: "'q \<Rightarrow> bool"
    and peek :: "'q \<Rightarrow> 'a option"
    and unlink :: "'q \<Rightarrow> 'q option"
  assumes rep_push: "rep q xs \<Longrightarrow> \<exists>q'. push x q = Some q' \<and> rep q' (xs @ [x])"
    and rep_empty: "rep q xs \<Longrightarrow> is_nil q \<longleftrightarrow> xs = []"
    and rep_peek: "rep q (x # xs) \<Longrightarrow> peek q = Some x"
    and rep_remove: "rep q (x # xs) \<Longrightarrow> \<exists>q'. unlink q = Some q' \<and> rep q' xs"
begin

lemma run_refines:
  "rep q xs \<Longrightarrow> \<exists>q'. fifo_run push is_nil peek unlink ops q = Some (fst (fifo_spec ops xs), q')
     \<and> rep q' (snd (fifo_spec ops xs))"
proof (induction ops xs arbitrary: q rule: fifo_spec.induct)
  case (1 xs)
  then show ?case by simp
next
  case (2 x ops xs)
  obtain q' where "push x q = Some q'" "rep q' (xs @ [x])" using rep_push [OF "2.prems"] by blast
  with "2.IH" show ?case by simp
next
  case (3 ops)
  then show ?case by (simp add: rep_empty)
next
  case (4 ops x xs)
  obtain q' where q: "unlink q = Some q'" "rep q' xs" using rep_remove [OF "4.prems"] by blast
  obtain q2 where "fifo_run push is_nil peek unlink ops q' = Some (fst (fifo_spec ops xs), q2)"
      "rep q2 (snd (fifo_spec ops xs))" using "4.IH" [OF q(2)] by blast
  with q rep_peek [OF "4.prems"] rep_empty [OF "4.prems"] show ?case by (simp add: case_prod_beta)
qed

text \<open>A removal started before some insertions removes the item it saw.\<close>

lemma remove_after_pushes:
  "rep q (x # xs) \<Longrightarrow> \<exists>q1 q2. fifo_run push is_nil peek unlink (map Push ys) q = Some ([], q1) \<and> peek q1 = Some x
     \<and> unlink q1 = Some q2 \<and> rep q2 (xs @ ys)"
proof -
  assume r: "rep q (x # xs)"
  have s: "fifo_spec (map Push ys) zs = ([], zs @ ys)" for zs by (induction ys arbitrary: zs) auto
  obtain q1 where "fifo_run push is_nil peek unlink (map Push ys) q = Some ([], q1)" "rep q1 (x # xs @ ys)"
    using run_refines [OF r, of "map Push ys"] s by auto
  moreover from rep_remove [OF this(2)] rep_peek [OF this(2)] show ?thesis using calculation by blast
qed

end

lemma fifo_spec_order: "fst (fifo_spec ops xs) @ snd (fifo_spec ops xs) = xs @ concat (map (\<lambda>p. case p of Push x \<Rightarrow> [x] | Pop \<Rightarrow> []) ops)"
  by (induction ops xs rule: fifo_spec.induct) (auto simp: case_prod_beta)

subsection \<open>The linked list is a queue\<close>

text \<open>
  The nodes \<open>ps\<close> carry the payloads \<open>xs\<close> and each but the last points to its successor; the
  \<^verbatim>\<open>next\<close> field of the last may be anything.
\<close>

fun q_seg :: "(nat \<rightharpoonup> item_t) \<Rightarrow> nat list \<Rightarrow> u8 list list \<Rightarrow> bool" where
  "q_seg h [] [] = True"
| "q_seg h (p # ps) (x # xs) = (case h p of None \<Rightarrow> False
     | Some it \<Rightarrow> item_data it = x \<and> (ps = [] \<or> item_next it = Some (hd ps)) \<and> q_seg h ps xs)"
| "q_seg h _ _ = False"

definition queue_at :: "queue_st \<Rightarrow> nat list \<Rightarrow> u8 list list \<Rightarrow> bool" where
  "queue_at q ps xs \<longleftrightarrow> distinct ps \<and> dom (q_heap q) = set ps \<and> (\<forall>p\<in>set ps. p < q_brk q)
     \<and> q_seg (q_heap q) ps xs \<and> q_head q = (if ps = [] then None else Some (hd ps))
     \<and> q_tail q = (if ps = [] then None else Some (last ps)) \<and> queue_depth q = of_nat (length xs)"

definition queue_rep :: "queue_st \<Rightarrow> u8 list list \<Rightarrow> bool" where
  "queue_rep q xs \<longleftrightarrow> (\<exists>ps. queue_at q ps xs)"

lemma queue_rep_init [simp]: "queue_rep queue_init_st []"
  by (auto simp: queue_rep_def queue_at_def queue_init_st_def)

lemma q_seg_other: "p \<notin> set ps \<Longrightarrow> q_seg (h(p := v)) ps xs = q_seg h ps xs"
  by (induction h ps xs rule: q_seg.induct) (auto split: option.split)

lemma q_seg_length: "q_seg h ps xs \<Longrightarrow> length ps = length xs"
  by (induction h ps xs rule: q_seg.induct) (auto split: option.splits)

lemma q_seg_snoc:
  assumes "q_seg h ps xs" "ps \<noteq> []" "distinct ps" "n \<notin> set ps" "h (last ps) = Some it"
  shows "q_seg (h(n \<mapsto> \<lparr>item_data = x, item_next = j\<rparr>, last ps \<mapsto> it\<lparr>item_next := Some n\<rparr>)) (ps @ [n]) (xs @ [x])"
  using assms
proof (induction h ps xs rule: q_seg.induct)
  case (2 h p ps y ys)
  show ?case
  proof (cases "ps = []")
    case True
    with 2 show ?thesis by (cases ys) auto
  next
    case False
    obtain ip where ip: "h p = Some ip" "item_data ip = y" "item_next ip = Some (hd ps)" "q_seg h ps ys"
      using 2(2) False by (auto split: option.splits)
    have "last ps \<noteq> p" using False 2(4) by auto
    moreover have "n \<noteq> p" using 2(5) by auto
    ultimately show ?thesis using 2 False ip by simp
  qed
qed auto

lemma q_seg_last: "q_seg h ps xs \<Longrightarrow> ps \<noteq> [] \<Longrightarrow> \<exists>it. h (last ps) = Some it"
  by (induction h ps xs rule: q_seg.induct) (auto split: option.splits if_splits)

lemma q_append_rep: "queue_at q ps xs \<Longrightarrow> \<exists>q'. q_append junk buf q = Some q' \<and> queue_at q' (ps @ [q_brk q]) (xs @ [buf])"
proof -
  assume q: "queue_at q ps xs"
  then have fresh: "q_brk q \<notin> set ps" by (auto simp: queue_at_def)
  show ?thesis
  proof (cases "ps = []")
    case True
    with q have "xs = []" by (cases xs) (auto simp: queue_at_def)
    with True q show ?thesis by (auto simp: q_append_def queue_at_def Let_def)
  next
    case False
    obtain it where it: "q_heap q (last ps) = Some it"
      using q_seg_last [of "q_heap q" ps xs] q False by (auto simp: queue_at_def)
    have l: "last ps \<in> set ps" "last ps \<noteq> q_brk q" using False fresh by (auto dest: last_in_set)
    from q_seg_snoc [of "q_heap q" ps xs "q_brk q" it buf junk] q False fresh it
    have "q_seg ((q_heap q)(q_brk q \<mapsto> \<lparr>item_data = buf, item_next = junk\<rparr>, last ps \<mapsto> it\<lparr>item_next := Some (q_brk q)\<rparr>))
        (ps @ [q_brk q]) (xs @ [buf])"
      by (simp add: queue_at_def)
    moreover have "dom ((q_heap q)(q_brk q \<mapsto> a, last ps \<mapsto> b)) = set (ps @ [q_brk q])" for a b
      using q l(1) by (auto simp: queue_at_def)
    ultimately show ?thesis
      using q False l it fresh
      by (auto simp: q_append_def queue_at_def Let_def deref_def less_SucI)
  qed
qed

lemma q_remove_rep:
  assumes "queue_at q ps (x # xs)"
  shows "\<exists>q'. q_remove (q_head q) q = Some q' \<and> queue_at q' (tl ps) xs"
proof -
  obtain p ps' where ps: "ps = p # ps'" using assms by (cases ps) (auto simp: queue_at_def)
  with assms obtain it where it: "q_heap q p = Some it" "ps' = [] \<or> item_next it = Some (hd ps')" "q_seg (q_heap q) ps' xs"
    by (auto simp: queue_at_def split: option.splits)
  have eq: "q_head q = q_tail q \<longleftrightarrow> ps' = []"
    using assms ps by (auto simp: queue_at_def)
  have "p \<notin> set ps'" using assms ps by (simp add: queue_at_def)
  then have seg: "q_seg ((q_heap q)(p := None)) ps' xs" using it(3) by (simp add: q_seg_other)
  moreover have d: "dom ((q_heap q)(p := None)) = set ps'" using assms ps by (auto simp: queue_at_def)
  moreover have "(q_heap q)(p := None) = Map.empty" if "ps' = []"
    using d that by (simp only: dom_eq_empty_conv set_empty2 list.set)
  moreover have "q_head q = Some p" using assms ps by (simp add: queue_at_def)
  moreover have "queue_depth q - 1 = of_nat (length xs)" using assms by (simp add: queue_at_def)
  ultimately show ?thesis
    using assms ps it(1,2) eq \<open>p \<notin> set ps'\<close>
    by (cases "ps' = []") (auto simp: q_remove_def deref_def queue_at_def)
qed

definition q_peek :: "queue_st \<Rightarrow> u8 list option" where
  "q_peek q = map_option item_data (deref q (q_head q))"

lemma q_peek_rep: "queue_at q ps (x # xs) \<Longrightarrow> q_peek q = Some x"
  by (cases ps) (auto simp: queue_at_def q_peek_def deref_def split: option.splits)

interpretation pq: fifo queue_rep "q_append junk" "\<lambda>q. q_head q = None" q_peek "\<lambda>q. q_remove (q_head q) q" for junk
proof unfold_locales
  fix q xs x
  show "queue_rep q xs \<Longrightarrow> \<exists>q'. q_append junk x q = Some q' \<and> queue_rep q' (xs @ [x])"
    using q_append_rep by (fastforce simp: queue_rep_def)
  show "queue_rep q xs \<Longrightarrow> q_head q = None \<longleftrightarrow> xs = []"
    by (auto simp: queue_rep_def queue_at_def split: if_splits dest: q_seg_length)
  show "queue_rep q (x # xs) \<Longrightarrow> q_peek q = Some x"
    using q_peek_rep by (fastforce simp: queue_rep_def)
  show "queue_rep q (x # xs) \<Longrightarrow> \<exists>q'. q_remove (q_head q) q = Some q' \<and> queue_rep q' xs"
    using q_remove_rep by (fastforce simp: queue_rep_def)
qed

subsection \<open>What the operations do to the rest of the world\<close>

lemma chan_ok_qu:
  "chan_ok (k, q, r, m) w \<Longrightarrow> chan_ok (k, q', r, m) (w\<lparr>qu := q'\<rparr>)"
  by (simp add: chan_ok_iff chan_rest_def lines_ok_def txfifo_def)

text \<open>A push appends the packet, reports the new depth, and changes nothing else.\<close>

lemma queue_push_ok:
  assumes w: "chan_ok (k, q, r, m) w" and q: "queue_rep q xs"
  shows "\<exists>q' w'. queue_push E buf w = Some w' \<and> chan_ok (k, q', r, m) w' \<and> cs w' = cs w
     \<and> queue_rep q' (xs @ [buf])
     \<and> q' = q\<lparr>q_heap := q_heap q', q_brk := q_brk q', q_head := q_head q', q_tail := q_tail q', queue_depth := queue_depth q'\<rparr>"
proof -
  have qw: "qu w = q" using w by (simp add: chan_ok_iff chan_rest_def)
  obtain q' where q': "q_append (malloc_junk E (reads w)) buf q = Some q'" "queue_rep q' (xs @ [buf])"
    using pq.rep_push [OF q] by blast
  have "chan_ok (k, q', r, m) ((next_read w)\<lparr>qu := q'\<rparr>)"
    using w by (intro chan_ok_qu [of k q r m]) simp
  from chan_encode [OF this, of "CMD_STAT_QUEUE # be16 (queue_depth q')" E]
  obtain w' where w': "rnode_send_stat_queue E (queue_depth q') ((next_read w)\<lparr>qu := q'\<rparr>) = Some w'"
      "chan_ok (k, q', r, m) w'" "cs w' = cs w"
    by (auto simp: gives_def chan_fixed_def rnode_send_stat_queue_def)
  have "q' = q\<lparr>q_heap := q_heap q', q_brk := q_brk q', q_head := q_head q', q_tail := q_tail q', queue_depth := queue_depth q'\<rparr>"
    using q'(1) by (auto simp: q_append_def Let_def split: bind_splits if_splits)
  with q' w' show ?thesis by (auto simp: queue_push_def qw)
qed

lemma queue_medium_state_ok:
  assumes w: "chan_ok (k, q, r, m) w"
  shows "\<exists>q'. chan_ok (k, q', r, m) (queue_medium_state E c w)
    \<and> q' = q\<lparr>tx_enable := tx_enable q', flushing := flushing q', tx_disabled := tx_disabled q'\<rparr>
    \<and> dcd (cs (queue_medium_state E c w)) = (c = CAUSE_PREAMBLE_DETECTED \<or> c = CAUSE_HEADER_VALID)
    \<and> tx_enable q' = (c \<noteq> CAUSE_PREAMBLE_DETECTED \<and> c \<noteq> CAUSE_HEADER_VALID)"
proof -
  obtain t where t: "get_time E w = (t, next_read w)" using get_time_snd [of E w] by (metis prod.collapse)
  have qw: "qu w = q" using w by (simp add: chan_ok_iff chan_rest_def)
  have "csma_wf ((cs w)\<lparr>dcd := b\<rparr>)" for b using w by (simp add: chan_ok_def csma_wf_def)
  then have d: "chan_ok (k, q, r, m) (csma_set_dcd b (next_read w))" for b
    unfolding csma_set_dcd_def using w by (intro chan_ok_cs) simp_all
  show ?thesis
    using chan_ok_qu [OF d] by (cases c) (force simp: queue_medium_state_def t qw csma_set_dcd_def)+
qed

end
