(* ===== verification/CsmaParams.thy ===== *)
theory CsmaParams
  imports CsmaInv
begin

section \<open>Slot timing for a modulation\<close>

text \<open>
  \<^verbatim>\<open>csma_update_radio_params\<close> is defined exactly for spreading factors up to 30, for every
  bandwidth of the driver, and then sets a slot between 6 and 100 ms and a preamble of at least 18 symbols.
\<close>

lemma chips_range: "int k \<le> 30 \<Longrightarrow> fin_in (int k) (int k) (f32 (of_int (2 ^ k)))"
  using fin_in_pow2 [of k] by simp

definition params_rate :: "u8 \<Rightarrow> u32 \<Rightarrow> cfloat" where
  "params_rate sf bw = f_div f32 (fl bw) (f32 (of_int (2 ^ unat sf)))"

definition params_time :: "u8 \<Rightarrow> u32 \<Rightarrow> cfloat" where
  "params_time sf bw = f_cast f32 (f_mul f64 (f_div f64 (Fin 1) (params_rate sf bw)) (Fin 1000))"

lemma fin_in_one: "fin_in 0 0 (Fin 1)"
  by (simp add: fin_in_def)

lemma params_time_range:
  assumes "unat sf \<le> 30"
  shows "fin_in (int (unat sf) - 10) (int (unat sf) - 2) (params_time sf (bw_value bw))"
proof -
  define S where "S = int (unat sf)"
  have S: "0 \<le> S" "S \<le> 30" using assms by (simp_all only: S_def of_nat_0_le_iff)
  have "fin_in S S (f32 (of_int (2 ^ unat sf)))" using chips_range [of "unat sf"] S by (simp only: S_def)
  from fin_in_div [OF rounds_f32 fl_bw this] S
  have r: "fin_in (12 - S) (19 - S) (params_rate sf (bw_value bw))" unfolding params_rate_def by simp
  have i: "fin_in (0 - (19 - S)) (0 - (12 - S)) (f_div f64 (Fin 1) (params_rate sf (bw_value bw)))"
    by (rule fin_in_div [OF rounds_f64 fin_in_one r]) (use S in linarith)+
  have "fin_in (0 - (19 - S) + 9) (0 - (12 - S) + 10)
      (f_mul f64 (f_div f64 (Fin 1) (params_rate sf (bw_value bw))) (Fin 1000))"
    by (rule fin_in_mul [OF rounds_f64 i fin_const(2)]) (use S in linarith)+
  then have "fin_in (0 - (19 - S) + 9) (0 - (12 - S) + 10) (params_time sf (bw_value bw))"
    unfolding params_time_def by (rule fin_in_cast [OF rounds_f32]) (use S in linarith)+
  then show ?thesis by (rule fin_in_mono) (use S in \<open>simp_all add: S_def\<close>)
qed

lemma csma_bitrate_defined:
  assumes "unat sf \<le> 30" "sf \<noteq> 0"
  shows "csma_bitrate sf (bw_value bw) (2 ^ unat sf) \<noteq> None"
proof -
  define S where "S = int (unat sf)"
  have "unat sf \<noteq> 0" using assms(2) by (simp add: unat_eq_0)
  then have S: "1 \<le> S" "S \<le> 30" "1 \<le> unat sf" "unat sf \<le> 32" using assms(1) unfolding S_def by linarith+
  have s: "fin_in 0 5 (fl sf)" using fin_in_nat [of 0 "unat sf" 5] S by (simp add: fl_def)
  have c: "fin_in (-1) 0 (f_div f64 (Fin 4) (Fin 5))"
    using rounds_f64 [unfolded rounds_def, rule_format, of "-1" "4 / 5" 0] by simp
  have n: "fin_in (-1) 5 (f_mul f64 (fl sf) (f_div f64 (Fin 4) (Fin 5)))"
    using fin_in_mul [OF rounds_f64 s c] by simp
  have b: "fin_in 2 10 (f_div f64 (fl (bw_value bw)) (Fin 1000))"
    using fin_in_div [OF rounds_f64 fl_bw fin_const(2)] by simp
  have "fin_in S S (f32 (of_int (2 ^ unat sf)))" using chips_range [of "unat sf"] S by (simp only: S_def)
  from fin_in_div [OF rounds_f64 this b]
  have d: "fin_in (S - 10) (S - 2) (f_div f64 (f32 (of_int (2 ^ unat sf))) (f_div f64 (fl (bw_value bw)) (Fin 1000)))"
    using S by simp
  have "fin_in (-1 - (S - 2) + 9) (5 - (S - 10) + 10) (f_mul f64 (f_div f64
      (f_mul f64 (fl sf) (f_div f64 (Fin 4) (Fin 5)))
      (f_div f64 (f32 (of_int (2 ^ unat sf))) (f_div f64 (fl (bw_value bw)) (Fin 1000)))) (Fin 1000))"
    by (rule fin_in_mul [OF rounds_f64 fin_in_div [OF rounds_f64 n d] fin_const(2)]) (use S in linarith)+
  then have "fin_up 24 (f_mul f64 (f_div f64
      (f_mul f64 (fl sf) (f_div f64 (Fin 4) (Fin 5)))
      (f_div f64 (f32 (of_int (2 ^ unat sf))) (f_div f64 (fl (bw_value bw)) (Fin 1000)))) (Fin 1000))"
    by (rule fin_in_up) (use S in linarith)
  from fin_up_to_u32 [OF this] show ?thesis by (auto simp: csma_bitrate_def)
qed

lemma slot_for_clamp: "slot_for t m = Some s \<Longrightarrow> m \<le> 100 \<Longrightarrow> m \<le> s \<and> s \<le> 100"
  by (auto simp: slot_for_def Let_def split: bind_splits if_splits)

lemma preamble_for_defined:
  assumes t: "fin_in a b t" "-10 \<le> a" "a \<le> b" "b \<le> 28" and m: "m = 6 \<or> m = 24"
  shows "\<exists>n ms. preamble_for t m = Some (n, ms) \<and> 18 \<le> n"
proof -
  define g where "g = f_div f32 (Fin (of_int m)) t"
  have "fin_in 2 5 (Fin (of_int m))" using m by (auto simp: fin_in_def)
  from fin_in_div [OF rounds_f32 this t(1)] t(2-4) have "fin_in (2 - b) (5 - a) g" unfolding g_def by simp
  then have g: "fin_up 15 g" by (rule fin_in_up) (use t(2) in simp)
  then obtain x where x: "g = Fin x" "0 \<le> x" by (auto simp: fin_up_def)
  define h where "h = (if f_less g (Fin 18) then Fin 18 else f_ceil g)"
  have h: "fin_up 15 h" using fin_up_ceil [OF g] by (auto simp: h_def) (simp add: fin_up_def)
  from fin_up_to_int [OF h, of 15 "2 ^ 63 - 1" "- (2 ^ 63)"]
  obtain n where n: "f_to_i64 h = Some n" "0 \<le> n" "n \<le> 2 ^ 15" by (auto simp: f_to_i64_def)
  have "18 \<le> n"
  proof (cases "x < 18")
    case True
    then have "h = Fin (of_int 18)" by (simp add: h_def x)
    with n(1) show ?thesis by (simp add: f_to_i64_def rtrunc_def split: if_splits)
  next
    case False
    then have "h = Fin (of_int \<lceil>x\<rceil>)" by (simp add: h_def x)
    then have "n = \<lceil>x\<rceil>" using n(1) by (simp add: f_to_i64_def split: if_splits)
    with False show ?thesis by linarith
  qed
  have u: "fin_up 15 (f32 (of_int n))"
    using fin_up_nat [of "nat n" 15] n(2,3) by (simp add: nat_le_iff)
  have tu: "fin_up 28 t" using t(1,4) by (rule fin_in_up)
  from fin_up_mul [OF u tu] have "fin_up 43 (f_mul f32 (f32 (of_int n)) t)" by simp
  from fin_up_ceil [OF this] have "fin_up 43 (f_ceil (f_mul f32 (f32 (of_int n)) t))" by simp
  from fin_up_to_int [OF this, of 43 "2 ^ 63 - 1" "- (2 ^ 63)"]
  obtain ms where ms: "f_to_i64 (f_ceil (f_mul f32 (f32 (of_int n)) t)) = Some ms" by (auto simp: f_to_i64_def)
  show ?thesis
    using n(1) ms \<open>18 \<le> n\<close> by (simp add: preamble_for_def Let_def g_def [symmetric] h_def [symmetric])
qed

text \<open>The symbol time, and with it the slot, is bounded: the symbol rate is computed without rounding.\<close>

lemma f32_scaled: "n < 2 ^ 24 \<Longrightarrow> -126 \<le> e \<Longrightarrow> e \<le> 100 \<Longrightarrow> f32 (of_nat n * 2 powi e) = Fin (of_nat n * 2 powi e)"
proof -
  assume n: "n < 2 ^ 24" and e: "-126 \<le> e" "e \<le> 100"
  have "of_nat n < (of_nat (2 ^ 24) :: rat)" using n by (simp only: of_nat_less_iff)
  then have "of_nat n * 2 powi e < (2::rat) powi 24 * 2 powi e" by simp
  also have "\<dots> = 2 powi (24 + e)" by (simp add: power_int_add)
  also have "\<dots> \<le> 2 powi (127 + 1)" using e by (intro power_int_increasing) auto
  finally have "\<bar>of_int (int n) * 2 powi e\<bar> < (2::rat) powi (127 + 1)" by (simp only: of_int_of_nat_eq abs_mult) simp
  from fround_exact [OF _ _ _ this, of 24 "-126"] n e show ?thesis by (simp add: f32_def)
qed

lemma params_rate_exact:
  assumes "unat sf \<le> 30"
  shows "params_rate sf (bw_value bw) = Fin (of_nat (unat (bw_value bw)) / 2 ^ unat sf)"
proof -
  have b: "unat (bw_value bw) < 2 ^ 24" using bw_value_range(2) [of bw] by simp
  then have f: "fl (bw_value bw) = Fin (of_nat (unat (bw_value bw)))" using f32_of_nat [OF b] by (simp add: fl_def)
  have "f32 (2 ^ n) = Fin (2 ^ n)" if "n \<le> 30" for n using f32_scaled [of 1 "int n"] that by simp
  from this [OF assms] have p: "f32 (of_int (2 ^ unat sf)) = Fin (2 ^ unat sf)" by simp
  have "f32 (of_nat (unat (bw_value bw)) * 2 powi (- int (unat sf)))
      = Fin (of_nat (unat (bw_value bw)) * 2 powi (- int (unat sf)))"
    using b assms by (intro f32_scaled) linarith+
  moreover have "of_nat (unat (bw_value bw)) * 2 powi (- int (unat sf)) = (of_nat (unat (bw_value bw)) / 2 ^ unat sf :: rat)"
    by (simp only: power_int_minus power_int_of_nat divide_inverse)
  ultimately show ?thesis unfolding params_rate_def f p by (simp only: f_div.simps) simp
qed

lemma params_time_le:
  assumes "unat sf \<le> 30"
  shows "fin_le 137660000 (params_time sf (bw_value bw))"
proof -
  define n where "n = unat sf"
  define b :: rat where "b = of_nat (unat (bw_value bw))"
  have "of_nat 7800 \<le> b" unfolding b_def of_nat_le_iff by (rule bw_value_range(1))
  then have b: "7800 \<le> b" "0 < b" by simp_all
  have "(2::rat) ^ n \<le> 2 ^ 30" using assms unfolding n_def by (intro power_increasing) auto
  also have "\<dots> \<le> 137660 * 7800" by simp
  also have "\<dots> \<le> 137660 * b" using b(1) by simp
  finally have "1 / (b / 2 ^ n) \<le> of_nat 137660" "0 \<le> 1 / (b / 2 ^ n)" using b(2) by (simp_all add: divide_le_eq)
  then have "fin_le (of_nat 137660) (f64 (1 / (b / 2 ^ n)))" by (intro fin_le_f64) simp_all
  then obtain y where y: "f64 (1 / (b / 2 ^ n)) = Fin y" "0 \<le> y" "y \<le> 137660" by (auto simp: fin_le_def)
  then have "fin_le (of_nat 137660000) (f64 (y * 1000))" by (intro fin_le_f64) simp_all
  then obtain z where z: "f64 (y * 1000) = Fin z" "0 \<le> z" "z \<le> 137660000" by (auto simp: fin_le_def)
  have "fin_le (of_nat 8603750 * 2 ^ 4) (f32 z)" using z by (intro fin_le_f32) simp_all
  moreover have "params_time sf (bw_value bw) = f32 z"
    unfolding params_time_def params_rate_exact [OF assms] using b(2) y z(1) by (simp add: b_def n_def)
  ultimately show ?thesis by simp
qed

lemma slot_for_defined: "unat sf \<le> 30 \<Longrightarrow> slot_for (params_time sf (bw_value bw)) m \<noteq> None"
proof -
  assume "unat sf \<le> 30"
  from params_time_le [OF this, of bw]
  obtain x where x: "params_time sf (bw_value bw) = Fin x" "0 \<le> x" "x \<le> 137660000" by (auto simp: fin_le_def)
  then have "fin_le (of_nat 12905625 * 2 ^ 7) (f32 (x * 12))" by (intro fin_le_f32) simp_all
  then have "fin_le 1651920000 (f_mul f32 (params_time sf (bw_value bw)) (Fin 12))" by (simp add: x(1))
  from fin_le_to_int [OF this, of "2 ^ 31 - 1" "- (2 ^ 31)"] show ?thesis
    by (auto simp: slot_for_def f_to_i32_def Let_def)
qed

lemma csma_update_radio_params_cases:
  shows "sf = 0 \<Longrightarrow> csma_update_radio_params sf bw w = Some w"
    and "31 \<le> unat sf \<Longrightarrow> csma_update_radio_params sf (bw_value b) w = None"
    and "sf \<noteq> 0 \<Longrightarrow> unat sf \<le> 30 \<Longrightarrow> \<exists>c. csma_update_radio_params sf (bw_value b) w = Some (w\<lparr>cs := c\<rparr>)
      \<and> (csma_wf (cs w) \<longrightarrow> csma_wf c) \<and> airtime_bins c = airtime_bins (cs w) \<and> channel c = channel (cs w) \<and> 6 \<le> csma_slot_ms c \<and> csma_slot_ms c \<le> 100
      \<and> difs_ms c = 2 * csma_slot_ms c \<and> 18 \<le> lora_preamble_symbols c"
proof -
  show "sf = 0 \<Longrightarrow> csma_update_radio_params sf bw w = Some w" by (simp add: csma_update_radio_params_def)
  assume "31 \<le> unat sf"
  moreover from this have "sf \<noteq> 0" by auto
  ultimately show "csma_update_radio_params sf (bw_value b) w = None"
    by (simp add: csma_update_radio_params_def int_shift_def bw_value_range)
next
  assume sf: "sf \<noteq> 0" "unat sf \<le> 30"
  define t where "t = params_time sf (bw_value b)"
  have t: "fin_in (int (unat sf) - 10) (int (unat sf) - 2) t" using params_time_range [OF sf(2)] by (simp only: t_def)
  obtain br where br: "csma_bitrate sf (bw_value b) (2 ^ unat sf) = Some br"
    using csma_bitrate_defined [OF sf(2,1)] by blast
  define m :: int where "m = (if 30000 < br then 24 - 18 else 24)"
  have m: "m = 6 \<or> m = 24" by (simp add: m_def)
  have "slot_for t m \<noteq> None" unfolding t_def by (rule slot_for_defined [OF sf(2)])
  then obtain s where s: "slot_for t m = Some s" by blast
  have srange: "6 \<le> s" "s \<le> 100" using slot_for_clamp [OF s] m by auto
  obtain n ms where p: "preamble_for t m = Some (n, ms)" "18 \<le> n"
    using preamble_for_defined [OF t _ _ _ m] sf(2) by fastforce
  have "\<exists>x y z. csma_update_radio_params sf (bw_value b) w = Some (w\<lparr>cs := (cs w)\<lparr>lora_symbol_rate := x, lora_symbol_time_ms := y,
     lora_should_flush := z, csma_slot_ms := s, difs_ms := 0 + 2 * s, lora_preamble_symbols := n, lora_preamble_time_ms := ms\<rparr>\<rparr>)"
    using sf br s p(1) bw_value_range(3) [of b]
    by (simp add: csma_update_radio_params_def int_shift_def Let_def t_def params_time_def params_rate_def m_def) blast
  then show "\<exists>c. csma_update_radio_params sf (bw_value b) w = Some (w\<lparr>cs := c\<rparr>)
      \<and> (csma_wf (cs w) \<longrightarrow> csma_wf c) \<and> airtime_bins c = airtime_bins (cs w) \<and> channel c = channel (cs w) \<and> 6 \<le> csma_slot_ms c \<and> csma_slot_ms c \<le> 100
      \<and> difs_ms c = 2 * csma_slot_ms c \<and> 18 \<le> lora_preamble_symbols c"
    using srange p(2) by (auto simp: csma_wf_def)
qed

end
