(* ===== verification/RnodeAir.thy ===== *)
theory RnodeAir
  imports PacketQueue CsmaParams
begin

section \<open>Packets between the host and the air\<close>

text \<open>
  The radio half of \<^verbatim>\<open>src/rnode.c\<close>: sending a packet in one or two radio frames, reassembling
  received frames, and the callbacks of the radio interrupts. The fixed buffers \<^verbatim>\<open>buf_in\<close> and
  \<^verbatim>\<open>buf_tx\<close> are lists of their size, and a copy that does not fit is undefined.
\<close>

abbreviation "CMD_DATA \<equiv> 0x00 :: u8"
abbreviation "CMD_STAT_RSSI \<equiv> 0x23 :: u8"
abbreviation "CMD_STAT_SNR \<equiv> 0x24 :: u8"
abbreviation "SINGLE_MTU \<equiv> 255 :: nat"
abbreviation "DATA_MTU \<equiv> 254 :: nat"
abbreviation "FLAG_SPLIT \<equiv> 0x01 :: u8"
abbreviation "SEQ_UNSET \<equiv> 0xFF :: u8"

definition upd_rn :: "(rnode_st \<Rightarrow> rnode_st) \<Rightarrow> world \<Rightarrow> world" where
  "upd_rn f w = w\<lparr>rn := f (rn w)\<rparr>"

subsection \<open>Receiving\<close>

definition rnode_signal_stat :: "env \<Rightarrow> u8 \<Rightarrow> u8 \<Rightarrow> u8 \<Rightarrow> world \<Rightarrow> world option" where
  "rnode_signal_stat E rssi snr signal_rssi w = do {
     let rssi = rssi + rssi_offset (rn w);
     let signal_rssi = signal_rssi + rssi_offset (rn w);
     w \<leftarrow> kiss_encode E [CMD_STAT_RSSI, rssi] w;
     kiss_encode E [CMD_STAT_SNR, snr] w }"

definition append_buf :: "u8 list \<Rightarrow> rnode_st \<Rightarrow> rnode_st option" where
  "append_buf buf r = do {
     b \<leftarrow> copy_into (rn_buf_in r) (rn_len_in r) buf (length buf);
     Some (r\<lparr>rn_buf_in := b, rn_len_in := rn_len_in r + length buf\<rparr>) }"

text \<open>The reassembly of one frame: the new state and whether a packet is complete.\<close>

definition reassemble :: "u8 \<Rightarrow> u8 list \<Rightarrow> rnode_st \<Rightarrow> (bool \<times> rnode_st) option" where
  "reassemble header buf r =
     (let split = (header AND FLAG_SPLIT \<noteq> 0); sequence = drop_bit 4 header in
      if split then
        if rn_seq r = SEQ_UNSET then do {
          r \<leftarrow> append_buf buf (r\<lparr>rn_len_in := 0\<rparr>);
          Some (False, r\<lparr>rn_seq := sequence\<rparr>) }
        else if rn_seq r = sequence then do {
          r \<leftarrow> append_buf buf r;
          Some (True, r\<lparr>rn_seq := SEQ_UNSET\<rparr>) }
        else do {
          r \<leftarrow> append_buf buf (r\<lparr>rn_len_in := 0\<rparr>);
          Some (False, r\<lparr>rn_seq := sequence\<rparr>) }
      else do {
        let r = (if rn_seq r \<noteq> SEQ_UNSET then r\<lparr>rn_len_in := 0, rn_seq := SEQ_UNSET\<rparr> else r);
        r \<leftarrow> append_buf buf r;
        Some (True, r) })"

definition rnode_from_air :: "env \<Rightarrow> u8 list \<Rightarrow> world \<Rightarrow> world option" where
  "rnode_from_air E buf w =
     (if promisc (rn w) then do {
        w \<leftarrow> kiss_encode E (CMD_DATA # buf) w;
        Some (upd_rn (\<lambda>r. r\<lparr>stat_rx := stat_rx r + 1\<rparr>) w) }
      else case buf of [] \<Rightarrow> None
      | header # buf \<Rightarrow> do {
          (ready, r) \<leftarrow> reassemble header buf (rn w);
          let w = w\<lparr>rn := r\<rparr>;
          if ready then do {
            w \<leftarrow> kiss_encode E (CMD_DATA # take (rn_len_in r) (rn_buf_in r)) w;
            Some (upd_rn (\<lambda>r. r\<lparr>rn_len_in := 0, stat_rx := stat_rx r + 1\<rparr>) w) }
          else Some w })"

text \<open>The buffer is an array of \<^verbatim>\<open>len\<close> bytes on the stack, declared before the test of \<^verbatim>\<open>len\<close>: an array of no bytes is undefined.\<close>

definition rnode_rx_done :: "env \<Rightarrow> u16 \<Rightarrow> world \<Rightarrow> world option" where
  "rnode_rx_done E len w =
     (if 0 < len then do {
        ((rssi, snr, signal_rssi), w) \<leftarrow> sx126x_packet_signal_raw E w;
        (buf, w) \<leftarrow> sx126x_read E len w;
        w \<leftarrow> rnode_signal_stat E rssi snr signal_rssi w;
        rnode_from_air E buf w }
      else None)"

subsection \<open>Sending\<close>

definition tx_frame :: "env \<Rightarrow> u8 list \<Rightarrow> u8 \<Rightarrow> world \<Rightarrow> world option" where
  "tx_frame E air len w = do {
     w \<leftarrow> sx126x_write E air len (sx126x_begin_packet w);
     sx126x_end_packet E w }"

text \<open>\<^verbatim>\<open>tx_buf\<close>: header byte and data; the length passed on has eight bits.\<close>

definition tx_buf :: "env \<Rightarrow> u8 list \<Rightarrow> nat \<Rightarrow> u8 \<Rightarrow> world \<Rightarrow> world option" where
  "tx_buf E buf len flag w =
     (if len \<le> length buf
      then tx_frame E ((seq_tx (rn w) OR flag) # take len buf) (of_nat (len + 1)) w
      else None)"

definition rnode_to_air :: "env \<Rightarrow> u8 list \<Rightarrow> world \<Rightarrow> (u32 \<times> world) option" where
  "rnode_to_air E buf w =
     (let len = length buf in
      if promisc (rn w) then do {
        w \<leftarrow> tx_frame E buf (of_nat len) w;
        (air_time, _, _) \<leftarrow> sx126x_air_time (sx w) (of_nat len);
        w \<leftarrow> csma_add_airtime E air_time w;
        Some (air_time, upd_rn (\<lambda>r. r\<lparr>stat_tx := stat_tx r + 1\<rparr>) w) }
      else do {
        let (r, w) = random_long E w;
        let w = upd_rn (\<lambda>s. s\<lparr>seq_tx := ucast r AND 0xF0\<rparr>) w;
        (air_time, w) \<leftarrow>
          (if len \<le> DATA_MTU then do {
             w \<leftarrow> tx_buf E buf len 0 w;
             let w = upd_rn (\<lambda>s. s\<lparr>len_tx := 0\<rparr>) w;
             (air_time, _, _) \<leftarrow> sx126x_air_time (sx w) (of_nat len);
             Some (air_time, w) }
           else do {
             let tail = len - DATA_MTU;
             b \<leftarrow> copy_into (buf_tx (rn w)) 0 (drop DATA_MTU buf) tail;
             let w = upd_rn (\<lambda>s. s\<lparr>len_tx := tail, buf_tx := b\<rparr>) w;
             (air_time, _, _) \<leftarrow> sx126x_air_time (sx w) (of_nat tail);
             w \<leftarrow> tx_buf E buf DATA_MTU FLAG_SPLIT w;
             (air_time2, _, _) \<leftarrow> sx126x_air_time (sx w) (of_nat DATA_MTU);
             Some (air_time + air_time2, w) });
        w \<leftarrow> csma_add_airtime E air_time w;
        Some (air_time, upd_rn (\<lambda>r. r\<lparr>stat_tx := stat_tx r + 1\<rparr>) w) })"

definition rnode_tx_done :: "env \<Rightarrow> world \<Rightarrow> world option" where
  "rnode_tx_done E w =
     (if len_tx (rn w) \<noteq> 0 then do {
        w \<leftarrow> tx_buf E (buf_tx (rn w)) (len_tx (rn w)) FLAG_SPLIT w;
        Some (upd_rn (\<lambda>s. s\<lparr>len_tx := 0\<rparr>) w) }
      else sx126x_request E RX_CONTINUOUS w)"

subsection \<open>Air time locks\<close>

definition rnode_check_airtime_lock :: "world \<Rightarrow> bool" where
  "rnode_check_airtime_lock w =
     (let st = st_airtime_limit (rn w); lt = lt_airtime_limit (rn w); ch = csma_get_channel w in
      if f_eq st (Fin 0) \<and> f_eq lt (Fin 0) then False
      else if \<not> f_eq st (Fin 0) \<and> f_le st (airtime ch) then True
      else if \<not> f_eq lt (Fin 0) \<and> f_le lt (longterm_airtime ch) then True
      else False)"

end
