(* ===== verification/SplitPackets.thy ===== *)
theory SplitPackets
  imports RnodeAir
begin

section \<open>Correctness of packet splitting and reassembly\<close>

text \<open>
  The buffers of \<^verbatim>\<open>src/rnode.c\<close> are never overrun by frames from the air; a packet cut
  in two radio frames is put together again; what \<^verbatim>\<open>rnode_to_air\<close> and \<^verbatim>\<open>rnode_tx_done\<close> write into
  the radio are these frames, for up to 508 bytes; and the exact length from which they overrun \<^verbatim>\<open>buf_tx\<close>.
\<close>

subsection \<open>The invariant of the packet buffers\<close>

definition rn_wf :: "rnode_st \<Rightarrow> bool" where
  "rn_wf r \<longleftrightarrow> length (rn_buf_in r) = MTU \<and> rn_len_in r \<le> DATA_MTU \<and> (rn_seq r = SEQ_UNSET \<longrightarrow> rn_len_in r = 0)
     \<and> length (buf_tx r) = SINGLE_MTU \<and> len_tx r \<le> SINGLE_MTU \<and> length (dev_hash r) = 32"

text \<open>What of the protocol state decides how packets are sent: only commands of the host change it.\<close>

definition rn_mode :: "rnode_st \<Rightarrow> u8 \<times> bool" where
  "rn_mode r = (current_sf r, promisc r)"

definition air_limits :: "rnode_st \<Rightarrow> cfloat \<times> cfloat" where
  "air_limits r = (st_airtime_limit r, lt_airtime_limit r)"

lemma rn_wf_init [simp]: "rn_wf rnode_init"
  by (simp add: rn_wf_def rnode_init_def)

lemma drv_ok_rn: "drv_ok (k, c, q, r, e) w \<Longrightarrow> drv_ok (k, c, q, r', e) (w\<lparr>rn := r'\<rparr>)"
  by (auto simp: drv_ok_def lines_ok_def rest_def txfifo_def)

lemma drv_rn_eq [simp]: "drv_ok (k, c, q, r, e) w \<Longrightarrow> rn w = r"
  by (simp add: drv_ok_def rest_def)

lemma drv_encode: "drv_ok R w \<Longrightarrow> length buf \<le> 511 \<Longrightarrow> gives (drv_ok R) (kiss_encode E buf w)"
  by (simp add: kiss_encode_short drv_ok_def [THEN iffD1])

lemma drv_signal_stat: "drv_ok R w \<Longrightarrow> gives (drv_ok R) (rnode_signal_stat E a b c w)"
  unfolding rnode_signal_stat_def Let_def by (auto intro!: gives_chain drv_encode)

subsection \<open>One frame\<close>

lemma nibble_not_unset: "drop_bit 4 (h :: u8) \<noteq> SEQ_UNSET"
proof -
  have "unat (drop_bit 4 h) < 16" using unat_u8 [of h] by (simp add: drop_bit_eq_div unat_div less_mult_imp_div_less)
  moreover have "unat SEQ_UNSET = 255" by simp
  ultimately show ?thesis by (metis not_less numeral_le_iff semiring_norm(68,71,72))
qed

lemma append_buf_Some:
  assumes "length (rn_buf_in r) = MTU" "rn_len_in r + length buf \<le> MTU"
  shows "\<exists>b. append_buf buf r = Some (r\<lparr>rn_buf_in := b, rn_len_in := rn_len_in r + length buf\<rparr>) \<and> length b = MTU
    \<and> take (rn_len_in r + length buf) b = take (rn_len_in r) (rn_buf_in r) @ buf"
proof -
  from assms obtain b where b: "copy_into (rn_buf_in r) (rn_len_in r) buf (length buf) = Some b"
    using copy_into_Some_iff [of "rn_buf_in r" "rn_len_in r" buf "length buf"] by auto
  with copy_into_length [OF b] copy_into_take [OF b] assms(1) show ?thesis
    by (intro exI [of _ b]) (simp add: append_buf_def)
qed

lemma reassemble_ok:
  assumes "rn_wf r" "length buf \<le> DATA_MTU"
  shows "\<exists>ready r'. reassemble header buf r = Some (ready, r') \<and> rn_len_in r' \<le> 508 \<and> length (rn_buf_in r') = MTU
    \<and> (if ready then rn_wf (r'\<lparr>rn_len_in := 0\<rparr>) else rn_wf r') \<and> rn_mode r' = rn_mode r"
proof -
  obtain b0 where b0: "append_buf buf (r\<lparr>rn_len_in := 0\<rparr>) = Some (r\<lparr>rn_buf_in := b0, rn_len_in := length buf\<rparr>)" "length b0 = MTU"
    using append_buf_Some [of "r\<lparr>rn_len_in := 0\<rparr>" buf] assms by (auto simp: rn_wf_def)
  obtain b1 where b1: "append_buf buf r = Some (r\<lparr>rn_buf_in := b1, rn_len_in := rn_len_in r + length buf\<rparr>)" "length b1 = MTU"
    using append_buf_Some [of r buf] assms by (auto simp: rn_wf_def)
  obtain b2 where b2: "append_buf buf (r\<lparr>rn_len_in := 0, rn_seq := SEQ_UNSET\<rparr>) =
      Some (r\<lparr>rn_seq := SEQ_UNSET, rn_buf_in := b2, rn_len_in := length buf\<rparr>)" "length b2 = MTU"
    using append_buf_Some [of "r\<lparr>rn_len_in := 0, rn_seq := SEQ_UNSET\<rparr>" buf] assms by (auto simp: rn_wf_def)
  have wf: "length (buf_tx r) = SINGLE_MTU" "len_tx r \<le> SINGLE_MTU" "length (dev_hash r) = 32" "rn_len_in r \<le> DATA_MTU"
    "rn_seq r = SEQ_UNSET \<Longrightarrow> rn_len_in r = 0" using assms(1) by (simp_all add: rn_wf_def)
  consider (first) "header AND FLAG_SPLIT \<noteq> 0" "rn_seq r \<noteq> drop_bit 4 header"
    | (second) "header AND FLAG_SPLIT \<noteq> 0" "rn_seq r = drop_bit 4 header"
    | (single) "header AND FLAG_SPLIT = 0" "rn_seq r = SEQ_UNSET" | (drop) "header AND FLAG_SPLIT = 0" "rn_seq r \<noteq> SEQ_UNSET"
    by blast
  then show ?thesis
  proof cases
    case first
    then have "reassemble header buf r = Some (False, r\<lparr>rn_buf_in := b0, rn_len_in := length buf, rn_seq := drop_bit 4 header\<rparr>)"
      by (simp add: reassemble_def Let_def b0)
    with b0(2) wf assms(2) nibble_not_unset [of header] show ?thesis by (auto simp: rn_wf_def rn_mode_def)
  next
    case second
    with nibble_not_unset [of header]
    have "reassemble header buf r = Some (True, r\<lparr>rn_buf_in := b1, rn_len_in := rn_len_in r + length buf, rn_seq := SEQ_UNSET\<rparr>)"
      by (simp add: reassemble_def Let_def b1)
    with b1(2) wf assms(2) show ?thesis by (auto simp: rn_wf_def rn_mode_def)
  next
    case single
    then have "reassemble header buf r = Some (True, r\<lparr>rn_buf_in := b1, rn_len_in := rn_len_in r + length buf\<rparr>)"
      by (simp add: reassemble_def Let_def b1)
    with b1(2) wf assms(2) single show ?thesis by (auto simp: rn_wf_def rn_mode_def)
  next
    case drop
    then have "reassemble header buf r = Some (True, r\<lparr>rn_seq := SEQ_UNSET, rn_buf_in := b2, rn_len_in := length buf\<rparr>)"
      by (simp add: reassemble_def Let_def b2)
    with b2(2) wf assms(2) show ?thesis by (auto simp: rn_wf_def rn_mode_def)
  qed
qed

theorem rnode_from_air_ok:
  assumes w: "drv_ok (k, c, q, r, e) w" "rn_wf r" and buf: "0 < length buf" "length buf \<le> SINGLE_MTU"
  shows "gives (\<lambda>w'. \<exists>r'. drv_ok (k, c, q, r', e) w' \<and> rn_wf r' \<and> rn_mode r' = rn_mode r) (rnode_from_air E buf w)"
proof (cases "promisc r")
  case True
  obtain w' where w': "kiss_encode E (CMD_DATA # buf) w = Some w'" "drv_ok (k, c, q, r, e) w'"
    using drv_encode [OF w(1), of "CMD_DATA # buf" E] buf by (auto simp: gives_def)
  moreover have "rn_wf (r\<lparr>stat_rx := x\<rparr>)" "rn_mode (r\<lparr>stat_rx := x\<rparr>) = rn_mode r" for x
    using w(2) by (simp_all add: rn_wf_def rn_mode_def)
  ultimately show ?thesis
    using True w(1) drv_ok_rn [OF w'(2)] by (auto simp: rnode_from_air_def upd_rn_def)
next
  case False
  obtain h data where hd: "buf = h # data" "length data \<le> DATA_MTU" using buf by (cases buf) auto
  obtain ready r1 where r1: "reassemble h data r = Some (ready, r1)" "rn_len_in r1 \<le> 508" "length (rn_buf_in r1) = MTU"
      "if ready then rn_wf (r1\<lparr>rn_len_in := 0\<rparr>) else rn_wf r1" "rn_mode r1 = rn_mode r"
    using reassemble_ok [OF w(2) hd(2), of h] by blast
  have w1: "drv_ok (k, c, q, r1, e) (w\<lparr>rn := r1\<rparr>)" using drv_ok_rn [OF w(1)] .
  show ?thesis
  proof (cases ready)
    case True
    obtain w' where w': "kiss_encode E (CMD_DATA # take (rn_len_in r1) (rn_buf_in r1)) (w\<lparr>rn := r1\<rparr>) = Some w'"
        "drv_ok (k, c, q, r1, e) w'"
      using drv_encode [OF w1, of "CMD_DATA # take (rn_len_in r1) (rn_buf_in r1)" E] r1(2,3) by (auto simp: gives_def)
    moreover have "rn_wf (r1\<lparr>rn_len_in := 0, stat_rx := x\<rparr>)" "rn_mode (r1\<lparr>rn_len_in := 0, stat_rx := x\<rparr>) = rn_mode r" for x
      using r1(4,5) True by (simp_all add: rn_wf_def rn_mode_def)
    ultimately show ?thesis
      using False True w(1) hd r1(1) drv_ok_rn [OF w'(2)] by (auto simp: rnode_from_air_def upd_rn_def Let_def)
  next
    case nr: False
    then show ?thesis using False w(1) hd r1 w1 by (auto simp: rnode_from_air_def Let_def)
  qed
qed

lemma read_length: "sx126x_read E n w = Some (buf, w') \<Longrightarrow> length buf = unat n"
  by (auto simp: sx126x_read_def read_buffer_def write_read_bytes_def Let_def split: bind_splits)

lemma rnode_rx_done_ok:
  assumes w: "drv_ok (k, c, q, r, e) w" "rn_wf r" and len: "0 < unat len" "unat len \<le> SINGLE_MTU"
  shows "gives (\<lambda>w'. \<exists>r'. drv_ok (k, c, q, r', e) w' \<and> rn_wf r' \<and> rn_mode r' = rn_mode r) (rnode_rx_done E len w)"
proof -
  obtain a b d w1 where w1: "sx126x_packet_signal_raw E w = Some ((a, b, d), w1)" "drv_ok (k, c, q, r, e) w1"
    using drv_packet_signal_raw [OF w(1), of E] by (auto simp: givesr_def)
  obtain buf w2 where w2: "sx126x_read E len w1 = Some (buf, w2)" "drv_ok (k, c, q, r, e) w2"
    using drv_read [OF w1(2), of E len] by (auto simp: givesr_def)
  obtain w3 where w3: "rnode_signal_stat E a b d w2 = Some w3" "drv_ok (k, c, q, r, e) w3"
    using drv_signal_stat [OF w2(2), of E a b d] by (auto simp: gives_def)
  have "length buf = unat len" "0 < length buf" "0 < len" using read_length [OF w2(1)] len(1) by (auto simp: unat_gt_0 word_gt_0)
  with rnode_from_air_ok [OF w3(2) w(2), of buf E] len w1(1) w2(1) w3(1) show ?thesis
    by (simp add: rnode_rx_done_def)
qed

lemma rnode_rx_done_empty [simp]: "rnode_rx_done E 0 w = None"
  by (simp add: rnode_rx_done_def)

subsection \<open>A packet cut in two comes back whole\<close>

text \<open>The frames of a packet for the sequence nibble \<open>s\<close>.\<close>

definition split_frames :: "u8 \<Rightarrow> u8 list \<Rightarrow> u8 list list" where
  "split_frames s p = (if length p \<le> DATA_MTU then [s # p]
     else [(s OR FLAG_SPLIT) # take DATA_MTU p, (s OR FLAG_SPLIT) # drop DATA_MTU p])"

fun receive :: "env \<Rightarrow> u8 list list \<Rightarrow> world \<Rightarrow> world option" where
  "receive E [] w = Some w"
| "receive E (f # fs) w = do { w \<leftarrow> rnode_from_air E f w; receive E fs w }"

text \<open>The state after a complete packet has been handed to the host.\<close>

definition delivered :: "env \<Rightarrow> u8 list \<Rightarrow> world \<Rightarrow> world \<Rightarrow> bool" where
  "delivered E p w w' \<longleftrightarrow> (\<exists>b r. length b = MTU \<and> rn_seq r = SEQ_UNSET \<and> rn_len_in r = 0
     \<and> r = (rn w)\<lparr>rn_buf_in := b, rn_len_in := 0, rn_seq := SEQ_UNSET, stat_rx := stat_rx (rn w) + 1\<rparr>
     \<and> w' = (host_send E (CMD_DATA # p) w)\<lparr>rn := r\<rparr>)"

lemma flag_bits:
  assumes "(s :: u8) AND 0x0F = 0"
  shows "s AND FLAG_SPLIT = 0" "(s OR FLAG_SPLIT) AND FLAG_SPLIT \<noteq> 0" "drop_bit 4 (s OR FLAG_SPLIT) = drop_bit 4 s"
proof -
  have "\<not> bit s 0"
  proof
    assume "bit s 0"
    then have "bit (s AND 0x0F) 0" by (simp add: bit_simps)
    with assms show False by simp
  qed
  then show "s AND FLAG_SPLIT = 0" by (simp add: and_one_eq mod2_eq_if even_bit_succ_iff bit_0)
  show "(s OR FLAG_SPLIT) AND FLAG_SPLIT \<noteq> 0" by (simp add: and_one_eq bit_simps odd_iff_mod_2_eq_one [symmetric] flip: bit_0)
  show "drop_bit 4 (s OR FLAG_SPLIT) = drop_bit 4 s" by (simp add: drop_bit_or)
qed

lemma host_send_rn: "host_send E buf (w\<lparr>rn := r\<rparr>) = (host_send E buf w)\<lparr>rn := r\<rparr>"
  by (auto simp: host_send_def tcp_send_def emit_def next_read_def Let_def split: send_result.split)

lemma from_air_ready:
  assumes "\<not> promisc (rn w)" "reassemble h data (rn w) = Some (True, r)" "length (kiss_out w) = MTU"
    "rn_len_in r \<le> 508" "length (rn_buf_in r) = MTU"
  shows "rnode_from_air E (h # data) w = Some ((host_send E (CMD_DATA # take (rn_len_in r) (rn_buf_in r)) w)
     \<lparr>rn := r\<lparr>rn_len_in := 0, stat_rx := stat_rx r + 1\<rparr>\<rparr>)"
  using assms
  by (simp add: rnode_from_air_def Let_def kiss_encode_short upd_rn_def host_send_rn)

text \<open>
  Whatever was left in the reassembly buffer, the frames of a packet of at most 508 bytes deliver
  exactly that packet, once; a packet in two frames only needs that no half packet with the same
  sequence number is pending.
\<close>

theorem receive_split_frames:
  assumes w: "rn_wf (rn w)" "\<not> promisc (rn w)" "length (kiss_out w) = MTU"
    and s: "s AND 0x0F = 0" and p: "length p \<le> 508"
    and pend: "length p \<le> DATA_MTU \<or> rn_seq (rn w) \<noteq> drop_bit 4 s"
  shows "\<exists>w'. receive E (split_frames s p) w = Some w' \<and> delivered E p w w'"
proof (cases "length p \<le> DATA_MTU")
  case True
  define r0 where "r0 = (if rn_seq (rn w) \<noteq> SEQ_UNSET then (rn w)\<lparr>rn_len_in := 0, rn_seq := SEQ_UNSET\<rparr> else rn w)"
  have r0: "rn_len_in r0 = 0" "length (rn_buf_in r0) = MTU" "rn_seq r0 = SEQ_UNSET"
    using w(1) by (simp_all add: r0_def rn_wf_def)
  obtain b where b: "append_buf p r0 = Some (r0\<lparr>rn_buf_in := b, rn_len_in := length p\<rparr>)" "length b = MTU" "take (length p) b = p"
    using append_buf_Some [of r0 p] r0 True by auto
  have "reassemble s p (rn w) = Some (True, r0\<lparr>rn_buf_in := b, rn_len_in := length p\<rparr>)"
    using flag_bits(1) [OF s] b(1) by (simp add: reassemble_def Let_def r0_def)
  from from_air_ready [OF w(2) this w(3)] b(2,3) True
  have "rnode_from_air E (s # p) w = Some ((host_send E (CMD_DATA # p) w)
      \<lparr>rn := r0\<lparr>rn_buf_in := b, rn_len_in := 0, stat_rx := stat_rx r0 + 1\<rparr>\<rparr>)" by simp
  moreover have "r0\<lparr>rn_buf_in := b, rn_len_in := 0, stat_rx := stat_rx r0 + 1\<rparr>
      = (rn w)\<lparr>rn_buf_in := b, rn_len_in := 0, rn_seq := SEQ_UNSET, stat_rx := stat_rx (rn w) + 1\<rparr>"
    by (simp add: r0_def)
  ultimately show ?thesis using True b(2) by (auto simp: split_frames_def delivered_def)
next
  case False
  define h where "h = s OR FLAG_SPLIT"
  have h: "h AND FLAG_SPLIT \<noteq> 0" "drop_bit 4 h = drop_bit 4 s" using flag_bits [OF s] by (simp_all add: h_def)
  have l: "length (take DATA_MTU p) = DATA_MTU" "length (drop DATA_MTU p) = length p - DATA_MTU" using False by simp_all
  have bl: "length (rn_buf_in (rn w)) = MTU" using w(1) by (simp add: rn_wf_def)
  obtain b where b: "append_buf (take DATA_MTU p) ((rn w)\<lparr>rn_len_in := 0\<rparr>)
        = Some ((rn w)\<lparr>rn_buf_in := b, rn_len_in := DATA_MTU\<rparr>)" "length b = MTU" "take DATA_MTU b = take DATA_MTU p"
    using append_buf_Some [of "(rn w)\<lparr>rn_len_in := 0\<rparr>" "take DATA_MTU p"] bl False by auto
  define r1 where "r1 = (rn w)\<lparr>rn_buf_in := b, rn_len_in := DATA_MTU, rn_seq := drop_bit 4 s\<rparr>"
  have "reassemble h (take DATA_MTU p) (rn w) = Some (False, r1)"
    using h pend False b(1) by (simp add: reassemble_def Let_def r1_def)
  then have first: "rnode_from_air E (h # take DATA_MTU p) w = Some (w\<lparr>rn := r1\<rparr>)"
    using w(2) by (simp add: rnode_from_air_def Let_def)
  obtain b2 where b2: "append_buf (drop DATA_MTU p) r1 = Some (r1\<lparr>rn_buf_in := b2, rn_len_in := length p\<rparr>)"
      "length b2 = MTU" "take (length p) b2 = p"
    using append_buf_Some [of r1 "drop DATA_MTU p"] b(2,3) False p by (auto simp: r1_def)
  have "reassemble h (drop DATA_MTU p) r1 = Some (True, r1\<lparr>rn_buf_in := b2, rn_len_in := length p, rn_seq := SEQ_UNSET\<rparr>)"
    using h nibble_not_unset [of s] b2(1) by (simp add: reassemble_def Let_def r1_def)
  from from_air_ready [where w = "w\<lparr>rn := r1\<rparr>", simplified, OF _ this w(3)] b2(2,3) p w(2)
  have "rnode_from_air E (h # drop DATA_MTU p) (w\<lparr>rn := r1\<rparr>) = Some ((host_send E (CMD_DATA # p) w)
      \<lparr>rn := r1\<lparr>rn_buf_in := b2, rn_len_in := 0, rn_seq := SEQ_UNSET, stat_rx := stat_rx r1 + 1\<rparr>\<rparr>)"
    by (simp add: r1_def host_send_rn)
  with first False b2(2) show ?thesis
    by (auto simp: split_frames_def h_def [symmetric] delivered_def r1_def)
qed

subsection \<open>Sending\<close>

lemma drv_tx_frame:
  assumes "drv_ok (k, c, q, r, m, p, f) w" "unat n \<le> length air"
  shows "gives (drv_ok (k, c, q, r, m, n, f @ [(0, take (unat n) air)])) (tx_frame E air n w)"
  unfolding tx_frame_def
  using gives_bind [OF drv_write [OF drv_begin_packet [OF assms(1)] assms(2)] drv_end_packet] by simp

lemma drv_tx_buf:
  assumes "drv_ok (k, c, q, r, m, p, f) w" "len \<le> length buf" "len \<le> DATA_MTU"
  shows "gives (drv_ok (k, c, q, r, m, of_nat (len + 1), f @ [(0, (seq_tx r OR flag) # take len buf)])) (tx_buf E buf len flag w)"
proof -
  have u: "unat (of_nat (len + 1) :: u8) = len + 1"
    using assms(3) by (simp only: unat_of_nat) simp
  have "gives (drv_ok (k, c, q, r, m, of_nat (len + 1), f @ [(0, take (unat (of_nat (len + 1) :: u8)) ((seq_tx r OR flag) # take len buf))]))
      (tx_frame E ((seq_tx r OR flag) # take len buf) (of_nat (len + 1)) w)"
    by (rule drv_tx_frame [OF assms(1)]) (use assms(2) u in simp)
  then show ?thesis using assms(1,2) u by (simp add: tx_buf_def)
qed

text \<open>With a tail of 255 bytes the length wraps to zero and an empty frame is written.\<close>

lemma drv_tx_buf_255:
  assumes "drv_ok (k, c, q, r, m, p, f) w" "length buf = SINGLE_MTU"
  shows "gives (drv_ok (k, c, q, r, m, 0, f @ [(0, [])])) (tx_buf E buf SINGLE_MTU flag w)"
proof -
  have "gives (drv_ok (k, c, q, r, m, 0, f @ [(0, [])])) (tx_frame E ((seq_tx r OR flag) # buf) n w)" if "n = 0" for n
    using that drv_tx_frame [OF assms(1), of 0 "(seq_tx r OR flag) # buf" E] by simp
  from this [of 256] show ?thesis using assms by (simp add: tx_buf_def)
qed

text \<open>The modem settings for which air times are defined, and their use.\<close>

definition modem_ok :: "modem \<Rightarrow> bool" where
  "modem_ok m = (case m of (sf, cr, bw, pl) \<Rightarrow>
     0 < uint sf \<and> uint sf \<le> 16 \<and> uint cr \<le> 8 \<and> bw \<in> range bw_value)"

lemma air_time_modem: "modem s = modem s' \<Longrightarrow> sx126x_air_time s len = sx126x_air_time s' len"
  by (simp add: modem_def sx126x_air_time_def air_payload_def air_bits_def air_t_sym_def)

lemma air_time_modem_ok:
  assumes "modem_ok (modem s)" "n \<le> 1022"
  shows "\<exists>a b c. sx126x_air_time s (of_nat n) = Some (a, b, c)"
proof -
  obtain b where "save_bw s = bw_value b" using assms(1) by (auto simp: modem_ok_def modem_def)
  moreover have "uint (of_nat n :: u16) \<le> 1022"
  proof -
    have "unat (of_nat n :: u16) = n" using assms(2) by (simp only: unat_of_nat) simp
    then have "uint (of_nat n :: u16) = int n" by (simp only: uint_nat)
    with assms(2) show ?thesis by simp
  qed
  ultimately have "\<exists>r. sx126x_air_time s (of_nat n) = Some r"
    using assms(1) by (intro air_time_defined) (auto simp: modem_ok_def modem_def)
  then show ?thesis by force
qed

lemma drv_modem: "drv_ok (k, c, q, r, m, e) w \<Longrightarrow> modem (sx w) = m"
  by (simp add: drv_ok_def rest_def del: drv_rn_eq)

lemma drv_add_airtime:
  assumes "drv_ok (k, c, q, r, e) w" "csma_wf c"
  shows "gives (\<lambda>w'. \<exists>c'. drv_ok (k, c', q, r, e) w' \<and> csma_wf c') (csma_add_airtime E ms w)"
proof -
  have "chan_ok (k, q, r, e) w" using assms by (auto simp: chan_ok_def drv_ok_def rest_def chan_rest_def simp del: drv_rn_eq)
  from csma_add_airtime_ok [OF this, of E ms] show ?thesis
    by (auto simp: gives_def chan_ok_def drv_ok_def rest_def chan_rest_def simp del: drv_rn_eq)
qed

subsection \<open>What \<^verbatim>\<open>rnode_to_air\<close> and \<^verbatim>\<open>rnode_tx_done\<close> put into the radio\<close>

lemma nibble_seq: "(ucast (x :: u64) AND 0xF0 :: u8) AND 0x0F = 0"
  by (simp add: and.assoc)

lemma to_air_step:
  assumes "drv_ok (k, c, q, r, e) w" "csma_wf c" "rn_wf r"
  shows "gives (\<lambda>w'. \<exists>c'. drv_ok (k, c', q, r\<lparr>stat_tx := stat_tx r + 1\<rparr>, e) w' \<and> csma_wf c')
     (map_option (upd_rn (\<lambda>r. r\<lparr>stat_tx := stat_tx r + 1\<rparr>)) (csma_add_airtime E a w))"
proof -
  obtain c' w' where "csma_add_airtime E a w = Some w'" "drv_ok (k, c', q, r, e) w'" "csma_wf c'"
    using drv_add_airtime [OF assms(1,2), of E a] by (auto simp: gives_def)
  with drv_ok_rn [of k c' q r e w' "r\<lparr>stat_tx := stat_tx r + 1\<rparr>"] show ?thesis by (auto simp: upd_rn_def)
qed

theorem rnode_to_air_frames:
  assumes w: "drv_ok (k, c, q, r, m, p, f) w" "csma_wf c" "rn_wf r" and r: "\<not> promisc r"
    and m: "modem_ok m" and buf: "length buf \<le> 508"
  shows "\<exists>a w' c' r' p' s. rnode_to_air E buf w = Some (a, w') \<and> s AND 0x0F = 0
    \<and> drv_ok (k, c', q, r', m, p', f @ [(0, hd (split_frames s buf))]) w' \<and> csma_wf c' \<and> rn_wf r' \<and> seq_tx r' = s
    \<and> len_tx r' = length buf - DATA_MTU \<and> take (len_tx r') (buf_tx r') = drop DATA_MTU buf \<and> rn_mode r' = rn_mode r
    \<and> air_limits r' = air_limits r"
proof -
  obtain x where x: "random_long E w = (x, next_read w)" using random_long_snd [of E w] by (metis prod.collapse)
  define s :: u8 where "s = ucast x AND 0xF0"
  define r1 where "r1 = r\<lparr>seq_tx := s\<rparr>"
  define w1 where "w1 = (next_read w)\<lparr>rn := r1\<rparr>"
  have w1: "drv_ok (k, c, q, r1, m, p, f) w1" unfolding w1_def using w(1) by (intro drv_ok_rn [where r = r]) simp
  have wf1: "rn_wf r1" using w(3) by (simp add: r1_def rn_wf_def)
  have s: "s AND 0x0F = 0" unfolding s_def by (rule nibble_seq)
  have up: "upd_rn (\<lambda>t. t\<lparr>seq_tx := ucast x AND 0xF0\<rparr>) (next_read w) = w1"
    using w(1) by (simp add: upd_rn_def w1_def r1_def s_def)
  show ?thesis
  proof (cases "length buf \<le> DATA_MTU")
    case True
    define r2 where "r2 = r1\<lparr>len_tx := 0\<rparr>"
    obtain w2 where w2: "tx_buf E buf (length buf) 0 w1 = Some w2"
        "drv_ok (k, c, q, r1, m, of_nat (length buf + 1), f @ [(0, s # buf)]) w2"
      using drv_tx_buf [OF w1 _ True, of buf 0 E] by (auto simp: gives_def r1_def)
    have w3: "drv_ok (k, c, q, r2, m, of_nat (length buf + 1), f @ [(0, s # buf)]) (w2\<lparr>rn := r2\<rparr>)"
      using w2(2) by (rule drv_ok_rn)
    obtain a a1 a2 where a: "sx126x_air_time (sx (w2\<lparr>rn := r2\<rparr>)) (of_nat (length buf)) = Some (a, a1, a2)"
      using air_time_modem_ok [of "sx (w2\<lparr>rn := r2\<rparr>)" "length buf"] m drv_modem [OF w3] buf by auto
    have wf2: "rn_wf r2" using wf1 by (simp add: r2_def rn_wf_def)
    obtain w4 c' where w4: "map_option (upd_rn (\<lambda>r. r\<lparr>stat_tx := stat_tx r + 1\<rparr>)) (csma_add_airtime E a (w2\<lparr>rn := r2\<rparr>)) = Some w4"
        "drv_ok (k, c', q, r2\<lparr>stat_tx := stat_tx r2 + 1\<rparr>, m, of_nat (length buf + 1), f @ [(0, s # buf)]) w4" "csma_wf c'"
      using to_air_step [OF w3 w(2) wf2, of E a] by (auto simp: gives_def)
    have "upd_rn (\<lambda>s. s\<lparr>len_tx := 0\<rparr>) w2 = w2\<lparr>rn := r2\<rparr>" using w2(2) by (simp add: upd_rn_def r2_def)
    then have "rnode_to_air E buf w = Some (a, w4)"
      using r w(1) True w2(1) a w4(1) by (auto simp: rnode_to_air_def x up)
    moreover have "rn_wf (r2\<lparr>stat_tx := stat_tx r2 + 1\<rparr>)" using wf2 by (simp add: rn_wf_def)
    ultimately show ?thesis
      using w4(2,3) s True by (intro exI conjI) (assumption | simp add: split_frames_def r2_def r1_def rn_mode_def air_limits_def)+
  next
    case False
    define n where "n = length buf - DATA_MTU"
    have n: "0 < n" "n \<le> DATA_MTU" "length buf = DATA_MTU + n" using False buf by (simp_all add: n_def)
    obtain b where b: "copy_into (buf_tx r1) 0 (drop DATA_MTU buf) n = Some b" "length b = SINGLE_MTU" "take n b = drop DATA_MTU buf"
    proof -
      have "\<exists>b. copy_into (buf_tx r1) 0 (drop DATA_MTU buf) n = Some b"
        using n wf1 by (simp add: copy_into_Some_iff rn_wf_def)
      then show ?thesis using that copy_into_length copy_into_take [of "buf_tx r1" 0] n wf1 by (fastforce simp: rn_wf_def)
    qed
    define r2 where "r2 = r1\<lparr>len_tx := n, buf_tx := b\<rparr>"
    have wf2: "rn_wf r2" using wf1 b(2) n by (simp add: r2_def rn_wf_def)
    have w2: "drv_ok (k, c, q, r2, m, p, f) (w1\<lparr>rn := r2\<rparr>)" using w1 by (rule drv_ok_rn)
    obtain a a1 a2 where a: "sx126x_air_time (sx (w1\<lparr>rn := r2\<rparr>)) (of_nat n) = Some (a, a1, a2)"
      using air_time_modem_ok [of "sx (w1\<lparr>rn := r2\<rparr>)" n] m drv_modem [OF w2] n by auto
    obtain w3 where w3: "tx_buf E buf DATA_MTU FLAG_SPLIT (w1\<lparr>rn := r2\<rparr>) = Some w3"
        "drv_ok (k, c, q, r2, m, of_nat (DATA_MTU + 1), f @ [(0, (s OR FLAG_SPLIT) # take DATA_MTU buf)]) w3"
      using drv_tx_buf [OF w2, of DATA_MTU buf FLAG_SPLIT E] n by (auto simp: gives_def r2_def r1_def)
    obtain d a3 a4 where d: "sx126x_air_time (sx w3) (of_nat DATA_MTU) = Some (d, a3, a4)"
      using air_time_modem_ok [of "sx w3" DATA_MTU] m drv_modem [OF w3(2)] by auto
    obtain w4 c' where w4: "map_option (upd_rn (\<lambda>r. r\<lparr>stat_tx := stat_tx r + 1\<rparr>)) (csma_add_airtime E (a + d) w3) = Some w4"
        "drv_ok (k, c', q, r2\<lparr>stat_tx := stat_tx r2 + 1\<rparr>, m, of_nat (DATA_MTU + 1), f @ [(0, (s OR FLAG_SPLIT) # take DATA_MTU buf)]) w4"
        "csma_wf c'"
      using to_air_step [OF w3(2) w(2) wf2, of E "a + d"] by (auto simp: gives_def)
    have "upd_rn (\<lambda>s. s\<lparr>len_tx := n, buf_tx := b\<rparr>) w1 = w1\<lparr>rn := r2\<rparr>" "rn w1 = r1"
      using w1 by (simp_all add: upd_rn_def r2_def)
    then have "rnode_to_air E buf w = Some (a + d, w4)"
      using r w(1) False a b(1) w3(1) d w4(1)
      by (auto simp: rnode_to_air_def x up n_def [symmetric])
    moreover have "rn_wf (r2\<lparr>stat_tx := stat_tx r2 + 1\<rparr>)" using wf2 by (simp add: rn_wf_def)
    ultimately show ?thesis
      using w4(2,3) s False b(3) by (intro exI conjI) (assumption | simp add: split_frames_def r2_def r1_def n_def rn_mode_def air_limits_def)+
  qed
qed

text \<open>The interrupt after the first frame sends the tail, if there is one, and otherwise goes back to reception.\<close>

lemma rnode_tx_done_tail:
  assumes w: "drv_ok (k, c, q, r, m, p, f) w" "rn_wf r" and len: "0 < len_tx r" "len_tx r \<le> DATA_MTU"
  shows "gives (\<lambda>w'. \<exists>p'. drv_ok (k, c, q, r\<lparr>len_tx := 0\<rparr>, m, p',
      f @ [(0, (seq_tx r OR FLAG_SPLIT) # take (len_tx r) (buf_tx r))]) w') (rnode_tx_done E w)"
proof -
  have "len_tx r \<le> length (buf_tx r)" using w(2) by (simp add: rn_wf_def)
  from drv_tx_buf [OF w(1) this len(2), of FLAG_SPLIT E]
  obtain w1 where w1: "tx_buf E (buf_tx r) (len_tx r) FLAG_SPLIT w = Some w1"
      "drv_ok (k, c, q, r, m, of_nat (len_tx r + 1), f @ [(0, (seq_tx r OR FLAG_SPLIT) # take (len_tx r) (buf_tx r))]) w1"
    by (auto simp: gives_def)
  with drv_ok_rn [OF w1(2), of "r\<lparr>len_tx := 0\<rparr>"] w(1) len(1) show ?thesis
    by (auto simp: rnode_tx_done_def upd_rn_def)
qed

lemma rnode_tx_done_idle:
  "drv_ok (k, c, q, r, e) w \<Longrightarrow> len_tx r = 0 \<Longrightarrow> gives (drv_ok (k, c, q, r, e)) (rnode_tx_done E w)"
  by (simp add: rnode_tx_done_def drv_request)

text \<open>
  A packet handed to \<^verbatim>\<open>rnode_to_air\<close> and the transmission interrupts that follow it: the radio's
  buffer has received the frames of the packet, in order, and no others.
\<close>

definition send_and_finish :: "env \<Rightarrow> u8 list \<Rightarrow> world \<Rightarrow> world option" where
  "send_and_finish E buf w = do {
     (a, w) \<leftarrow> rnode_to_air E buf w;
     if len_tx (rn w) \<noteq> 0 then do { w \<leftarrow> rnode_tx_done E w; rnode_tx_done E w } else rnode_tx_done E w }"

theorem send_and_finish_frames:
  assumes w: "drv_ok (k, c, q, r, m, p, f) w" "csma_wf c" "rn_wf r" and r: "\<not> promisc r"
    and m: "modem_ok m" and buf: "length buf \<le> 508"
  shows "\<exists>w' s. send_and_finish E buf w = Some w' \<and> s AND 0x0F = 0
    \<and> fifo_writes (trace w') = f @ map (Pair 0) (split_frames s buf)"
proof -
  obtain a w1 c1 r1 p1 s where w1: "rnode_to_air E buf w = Some (a, w1)" "s AND 0x0F = 0"
      "drv_ok (k, c1, q, r1, m, p1, f @ [(0, hd (split_frames s buf))]) w1" "rn_wf r1" "seq_tx r1 = s"
      "len_tx r1 = length buf - DATA_MTU" "take (len_tx r1) (buf_tx r1) = drop DATA_MTU buf"
    using rnode_to_air_frames [OF assms, of E] by blast
  have fw: "fifo_writes (trace w') = g" if "drv_ok (k', c', q', r', m', p', g) w'" for k' c' q' r' m' p' g w'
    using that by (simp add: drv_ok_def rest_def txfifo_def del: drv_rn_eq)
  show ?thesis
  proof (cases "length buf \<le> DATA_MTU")
    case True
    then have "len_tx r1 = 0" using w1(6) by simp
    with rnode_tx_done_idle [OF w1(3), of E] w1(1,3)
    obtain w2 where "send_and_finish E buf w = Some w2" "drv_ok (k, c1, q, r1, m, p1, f @ [(0, hd (split_frames s buf))]) w2"
      by (auto simp: send_and_finish_def gives_def)
    with True w1(2) fw [of k c1 q r1 m p1 _ w2] show ?thesis by (auto simp: split_frames_def)
  next
    case False
    then have len: "0 < len_tx r1" "len_tx r1 \<le> DATA_MTU" using w1(6) buf by simp_all
    obtain w2 p2 where w2: "rnode_tx_done E w1 = Some w2" "drv_ok (k, c1, q, r1\<lparr>len_tx := 0\<rparr>, m, p2,
        (f @ [(0, hd (split_frames s buf))]) @ [(0, (seq_tx r1 OR FLAG_SPLIT) # take (len_tx r1) (buf_tx r1))]) w2"
      using rnode_tx_done_tail [OF w1(3,4) len, of E] by (auto simp: gives_def)
    obtain w3 where w3: "rnode_tx_done E w2 = Some w3" "drv_ok (k, c1, q, r1\<lparr>len_tx := 0\<rparr>, m, p2,
        (f @ [(0, hd (split_frames s buf))]) @ [(0, (seq_tx r1 OR FLAG_SPLIT) # take (len_tx r1) (buf_tx r1))]) w3"
      using rnode_tx_done_idle [OF w2(2), of E] by (auto simp: gives_def)
    have "send_and_finish E buf w = Some w3"
      using w1(1,3) w2(1) w3(1) len by (auto simp: send_and_finish_def)
    moreover have "fifo_writes (trace w3) = f @ map (Pair 0) (split_frames s buf)"
      using fw [OF w3(2)] False w1(5,7) by (simp add: split_frames_def)
    ultimately show ?thesis using w1(2) by blast
  qed
qed

text \<open>
  A longer packet: from 510 bytes on the copy of the tail overruns \<^verbatim>\<open>buf_tx\<close>; at 509 the copy fits,
  but the interrupt that sends the tail writes an empty frame.
\<close>

lemma rnode_to_air_overrun:
  assumes "rn_wf (rn w)" "\<not> promisc (rn w)" "509 < length buf"
  shows "rnode_to_air E buf w = None"
proof -
  obtain x where x: "random_long E w = (x, next_read w)" using random_long_snd [of E w] by (metis prod.collapse)
  have "copy_into (buf_tx (rn w)) 0 (drop DATA_MTU buf) (length buf - DATA_MTU) = None"
    using assms by (simp add: copy_into_def rn_wf_def)
  then show ?thesis using assms(2,3) by (simp add: rnode_to_air_def x Let_def upd_rn_def)
qed

lemma rnode_tx_done_509:
  assumes w: "drv_ok (k, c, q, r, m, p, f) w" "rn_wf r" and len: "len_tx r = SINGLE_MTU"
  shows "gives (\<lambda>w'. drv_ok (k, c, q, r\<lparr>len_tx := 0\<rparr>, m, 0, f @ [(0, [])]) w') (rnode_tx_done E w)"
proof -
  have "length (buf_tx r) = SINGLE_MTU" using w(2) by (simp add: rn_wf_def)
  from drv_tx_buf_255 [OF w(1) this, of E FLAG_SPLIT]
  obtain w1 where w1: "tx_buf E (buf_tx r) SINGLE_MTU FLAG_SPLIT w = Some w1" "drv_ok (k, c, q, r, m, 0, f @ [(0, [])]) w1"
    by (auto simp: gives_def)
  with drv_ok_rn [OF w1(2), of "r\<lparr>len_tx := 0\<rparr>"] w(1) len show ?thesis
    by (auto simp: rnode_tx_done_def upd_rn_def)
qed

lemma rnode_tx_done_ok:
  assumes w: "drv_ok (k, c, q, r, m, p, f) w" "rn_wf r"
  shows "gives (\<lambda>w'. \<exists>r' p' f'. drv_ok (k, c, q, r', m, p', f') w' \<and> rn_wf r' \<and> rn_mode r' = rn_mode r) (rnode_tx_done E w)"
proof -
  have wf: "rn_wf (r\<lparr>len_tx := 0\<rparr>)" "rn_mode (r\<lparr>len_tx := 0\<rparr>) = rn_mode r" using w(2) by (simp_all add: rn_wf_def rn_mode_def)
  consider "len_tx r = 0" | "0 < len_tx r" "len_tx r \<le> DATA_MTU" | "len_tx r = SINGLE_MTU"
    using w(2) by (fastforce simp: rn_wf_def)
  then show ?thesis
  proof cases
    case 1
    from rnode_tx_done_idle [OF w(1) this, of E] w(2) show ?thesis by (auto simp: gives_def)
  next
    case 2
    from rnode_tx_done_tail [OF w 2, of E] wf show ?thesis by (fastforce simp: gives_def)
  next
    case 3
    from rnode_tx_done_509 [OF w 3, of E] wf show ?thesis by (fastforce simp: gives_def)
  qed
qed

subsection \<open>Safety for any packet\<close>

definition air_inv :: "kiss_st \<Rightarrow> queue_st \<Rightarrow> modem \<Rightarrow> world \<Rightarrow> bool" where
  "air_inv k q m w \<longleftrightarrow> (\<exists>c r e. drv_ok (k, c, q, r, m, e) w \<and> csma_wf c \<and> rn_wf r)"

lemma air_invI: "drv_ok (k, c, q, r, m, e) w \<Longrightarrow> csma_wf c \<Longrightarrow> rn_wf r \<Longrightarrow> air_inv k q m w"
  unfolding air_inv_def by blast

lemma air_inv_obtain:
  assumes "air_inv k q m w"
  obtains c r p f where "drv_ok (k, c, q, r, m, p, f) w" "csma_wf c" "rn_wf r"
  using assms by (auto simp: air_inv_def)

lemma air_inv_drv:
  assumes "\<And>R. drv_ok R w \<Longrightarrow> gives (drv_ok R) n" "air_inv k q m w"
  shows "gives (air_inv k q m) n"
  using assms(2)
  by (rule air_inv_obtain) (rule gives_mono [OF assms(1)], assumption, rule air_invI)

lemma air_inv_upd_rn: "air_inv k q m w \<Longrightarrow> (rn_wf (rn w) \<Longrightarrow> rn_wf (g (rn w))) \<Longrightarrow> air_inv k q m (upd_rn g w)"
  unfolding air_inv_def upd_rn_def by (metis drv_ok_rn drv_rn_eq)

lemma air_inv_wf: "air_inv k q m w \<Longrightarrow> rn_wf (rn w)"
  by (auto simp: air_inv_def)

lemma air_inv_next [simp]: "air_inv k q m w \<Longrightarrow> air_inv k q m (next_read w)"
  by (erule air_inv_obtain, rule air_invI) auto

lemma air_inv_tx_frame: "air_inv k q m w \<Longrightarrow> unat n \<le> length air \<Longrightarrow> gives (air_inv k q m) (tx_frame E air n w)"
  by (erule air_inv_obtain, rule gives_mono, rule drv_tx_frame) (auto intro: air_invI)

lemma unat_of_nat_le: "unat (of_nat n :: u8) \<le> n"
  by (simp only: unat_of_nat mod_less_eq_dividend)

lemma air_inv_tx_buf: "air_inv k q m w \<Longrightarrow> len \<le> length buf \<Longrightarrow> gives (air_inv k q m) (tx_buf E buf len flag w)"
  unfolding tx_buf_def using unat_of_nat_le [of "len + 1"] by (simp add: air_inv_tx_frame)

lemma air_inv_add_airtime: "air_inv k q m w \<Longrightarrow> gives (air_inv k q m) (csma_add_airtime E a w)"
  by (erule air_inv_obtain, rule gives_mono, rule drv_add_airtime) (auto intro: air_invI)

lemma air_inv_air_time:
  assumes "air_inv k q m w" "modem_ok m" "n \<le> 1022"
  shows "sx126x_air_time (sx w) (of_nat n) \<noteq> None"
proof -
  have "modem (sx w) = m" using assms(1) by (rule air_inv_obtain) (rule drv_modem)
  with air_time_modem_ok [of "sx w" n] assms(2,3) show ?thesis by auto
qed

lemma air_inv_count: "air_inv k q m w \<Longrightarrow> air_inv k q m (upd_rn (\<lambda>r. r\<lparr>stat_tx := x r\<rparr>) w)"
  "air_inv k q m w \<Longrightarrow> air_inv k q m (upd_rn (\<lambda>r. r\<lparr>len_tx := 0\<rparr>) w)"
  by (erule air_inv_upd_rn, simp add: rn_wf_def)+

lemma rnode_to_air_outcome:
  assumes w: "air_inv k q m w"
  shows "outcomer (modem_ok m \<and> length buf \<le> 1022 \<and> (promisc (rn w) \<or> length buf \<le> 509)) (air_inv k q m) (rnode_to_air E buf w)"
    (is "outcomer ?D _ _")
proof -
  have fin: "outcomer ?D (air_inv k q m) (do { w \<leftarrow> csma_add_airtime E a w';
      Some (a, upd_rn (\<lambda>r. r\<lparr>stat_tx := stat_tx r + 1\<rparr>) w) })" if "air_inv k q m w'" for a w'
    by (rule outcomer_bind [OF gives_outcome [OF air_inv_add_airtime [OF that]]])
       (simp add: air_inv_count)
  have time: "?D \<Longrightarrow> sx126x_air_time (sx w') (of_nat n) \<noteq> None" if "air_inv k q m w'" "n \<le> length buf \<or> n \<le> DATA_MTU" for w' n
    using air_inv_air_time [OF that(1), of n] that(2) by force
  show ?thesis
  proof (cases "promisc (rn w)")
    case True
    have "outcomer ?D (air_inv k q m) (do {
        w' \<leftarrow> tx_frame E buf (of_nat (length buf)) w;
        (air_time, _, _) \<leftarrow> sx126x_air_time (sx w') (of_nat (length buf));
        w' \<leftarrow> csma_add_airtime E air_time w';
        Some (air_time, upd_rn (\<lambda>r. r\<lparr>stat_tx := stat_tx r + 1\<rparr>) w') })"
      by (rule outcomer_bind [OF gives_outcome [OF air_inv_tx_frame [OF w unat_of_nat_le]]], rule outcomer_value)
         (simp_all add: time fin split: prod.split)
    then show ?thesis using True by (simp add: rnode_to_air_def Let_def)
  next
    case False
    obtain x where x: "random_long E w = (x, next_read w)" using random_long_snd [of E w] by (metis prod.collapse)
    define w1 where "w1 = upd_rn (\<lambda>s. s\<lparr>seq_tx := ucast x AND 0xF0\<rparr>) (next_read w)"
    have w1: "air_inv k q m w1" unfolding w1_def using w by (intro air_inv_upd_rn) (simp_all add: rn_wf_def)
    show ?thesis
    proof (cases "length buf \<le> DATA_MTU")
      case True
      have "outcomer ?D (air_inv k q m) (do {
          w \<leftarrow> tx_buf E buf (length buf) 0 w1;
          let w = upd_rn (\<lambda>s. s\<lparr>len_tx := 0\<rparr>) w;
          (air_time, _, _) \<leftarrow> sx126x_air_time (sx w) (of_nat (length buf));
          w \<leftarrow> csma_add_airtime E air_time w;
          Some (air_time, upd_rn (\<lambda>r. r\<lparr>stat_tx := stat_tx r + 1\<rparr>) w) })"
        unfolding Let_def
        by (rule outcomer_bind [OF gives_outcome [OF air_inv_tx_buf [OF w1 order_refl]]], rule outcomer_value)
           (simp_all add: time fin air_inv_count split: prod.split)
      then show ?thesis using False True
        by (simp add: rnode_to_air_def x w1_def [symmetric] Let_def case_prod_unfold)
    next
      case long: False
      define n where "n = length buf - DATA_MTU"
      show ?thesis
      proof (cases "copy_into (buf_tx (rn w1)) 0 (drop DATA_MTU buf) n")
        case None
        then have "\<not> length buf \<le> 509"
          using air_inv_wf [OF w1] long by (auto simp: copy_into_def rn_wf_def n_def split: if_splits)
        then show ?thesis using False long None
          by (simp add: rnode_to_air_def x w1_def [symmetric] Let_def n_def [symmetric])
      next
        case (Some b)
        define w2 where "w2 = upd_rn (\<lambda>s. s\<lparr>len_tx := n, buf_tx := b\<rparr>) w1"
        have "n \<le> SINGLE_MTU" "length b = SINGLE_MTU"
          using Some copy_into_length [OF Some] air_inv_wf [OF w1] by (auto simp: copy_into_def rn_wf_def split: if_splits)
        then have w2: "air_inv k q m w2" unfolding w2_def using w1 by (intro air_inv_upd_rn) (simp_all add: rn_wf_def)
        have l: "DATA_MTU \<le> length buf" using long by simp
        have "outcomer ?D (air_inv k q m) (do {
            (air_time, _, _) \<leftarrow> sx126x_air_time (sx w2) (of_nat n);
            w \<leftarrow> tx_buf E buf DATA_MTU FLAG_SPLIT w2;
            (air_time2, _, _) \<leftarrow> sx126x_air_time (sx w) (of_nat DATA_MTU);
            w \<leftarrow> csma_add_airtime E (air_time + air_time2) w;
            Some (air_time + air_time2, upd_rn (\<lambda>r. r\<lparr>stat_tx := stat_tx r + 1\<rparr>) w) })"
        proof (rule outcomer_value)
          show "?D \<Longrightarrow> sx126x_air_time (sx w2) (of_nat n) \<noteq> None" using time [OF w2, of n] by (simp add: n_def)
          have rest: "outcomer ?D (air_inv k q m) (do {
              (air_time2, _, _) \<leftarrow> sx126x_air_time (sx w') (of_nat DATA_MTU);
              w \<leftarrow> csma_add_airtime E (t + air_time2) w';
              Some (t + air_time2, upd_rn (\<lambda>r. r\<lparr>stat_tx := stat_tx r + 1\<rparr>) w) })" if "air_inv k q m w'" for t w'
            by (rule outcomer_value) (use time [OF that, of DATA_MTU] fin [OF that] in \<open>simp_all split: prod.split\<close>)
          show "outcomer ?D (air_inv k q m) (case x of (air_time, _, _) \<Rightarrow> do {
              w \<leftarrow> tx_buf E buf DATA_MTU FLAG_SPLIT w2;
              (air_time2, _, _) \<leftarrow> sx126x_air_time (sx w) (of_nat DATA_MTU);
              w \<leftarrow> csma_add_airtime E (air_time + air_time2) w;
              Some (air_time + air_time2, upd_rn (\<lambda>r. r\<lparr>stat_tx := stat_tx r + 1\<rparr>) w) })" for x
            by (cases x) (simp only: prod.case, rule outcomer_bind [OF gives_outcome [OF air_inv_tx_buf [OF w2 l]] rest])
        qed
        then show ?thesis using False long Some
          by (simp add: rnode_to_air_def x w1_def [symmetric] w2_def [symmetric] Let_def n_def [symmetric] case_prod_unfold)
      qed
    qed
  qed
qed

end
