(* ===== verification/Sha256.thy ===== *)
theory Sha256
  imports Prelude
begin

section \<open>The device hash: SHA-256\<close>

text \<open>
  The SHA-256 routine of \<^verbatim>\<open>src/rnode.c\<close> (\<^verbatim>\<open>sha256_compute\<close>), loop for loop, and a reference
  definition written the way FIPS 180-4 states the algorithm: padding as concatenation, the
  message schedule as a recursive function of the index, rotations as rotations. The theorems
  show that the routine never writes outside its buffer and computes the reference function.
\<close>

subsection \<open>The code\<close>

definition sha256_K :: "u32 list" where
  "sha256_K = concat
    [[0x428a2f98, 0x71374491, 0xb5c0fbcf, 0xe9b5dba5, 0x3956c25b, 0x59f111f1, 0x923f82a4, 0xab1c5ed5],
     [0xd807aa98, 0x12835b01, 0x243185be, 0x550c7dc3, 0x72be5d74, 0x80deb1fe, 0x9bdc06a7, 0xc19bf174],
     [0xe49b69c1, 0xefbe4786, 0x0fc19dc6, 0x240ca1cc, 0x2de92c6f, 0x4a7484aa, 0x5cb0a9dc, 0x76f988da],
     [0x983e5152, 0xa831c66d, 0xb00327c8, 0xbf597fc7, 0xc6e00bf3, 0xd5a79147, 0x06ca6351, 0x14292967],
     [0x27b70a85, 0x2e1b2138, 0x4d2c6dfc, 0x53380d13, 0x650a7354, 0x766a0abb, 0x81c2c92e, 0x92722c85],
     [0xa2bfe8a1, 0xa81a664b, 0xc24b8b70, 0xc76c51a3, 0xd192e819, 0xd6990624, 0xf40e3585, 0x106aa070],
     [0x19a4c116, 0x1e376c08, 0x2748774c, 0x34b0bcb5, 0x391c0cb3, 0x4ed8aa4a, 0x5b9cca4f, 0x682e6ff3],
     [0x748f82ee, 0x78a5636f, 0x84c87814, 0x8cc70208, 0x90befffa, 0xa4506ceb, 0xbef9a3f7, 0xc67178f2]]"

definition SHA256_ROTR :: "u32 \<Rightarrow> nat \<Rightarrow> u32" where
  "SHA256_ROTR x n = drop_bit n x OR push_bit (32 - n) x"

definition SHA256_CH :: "u32 \<Rightarrow> u32 \<Rightarrow> u32 \<Rightarrow> u32" where
  "SHA256_CH x y z = (x AND y) XOR (NOT x AND z)"

definition SHA256_MAJ :: "u32 \<Rightarrow> u32 \<Rightarrow> u32 \<Rightarrow> u32" where
  "SHA256_MAJ x y z = ((x AND y) XOR (x AND z)) XOR (y AND z)"

definition SHA256_EP0 :: "u32 \<Rightarrow> u32" where
  "SHA256_EP0 x = (SHA256_ROTR x 2 XOR SHA256_ROTR x 13) XOR SHA256_ROTR x 22"

definition SHA256_EP1 :: "u32 \<Rightarrow> u32" where
  "SHA256_EP1 x = (SHA256_ROTR x 6 XOR SHA256_ROTR x 11) XOR SHA256_ROTR x 25"

definition SHA256_SIG0 :: "u32 \<Rightarrow> u32" where
  "SHA256_SIG0 x = (SHA256_ROTR x 7 XOR SHA256_ROTR x 18) XOR drop_bit 3 x"

definition SHA256_SIG1 :: "u32 \<Rightarrow> u32" where
  "SHA256_SIG1 x = (SHA256_ROTR x 17 XOR SHA256_ROTR x 19) XOR drop_bit 10 x"

definition sha256_init :: "u32 list" where
  "sha256_init = [0x6a09e667, 0xbb67ae85, 0x3c6ef372, 0xa54ff53a,
                  0x510e527f, 0x9b05688c, 0x1f83d9ab, 0x5be0cd19]"

definition sha256_padded_len :: "nat \<Rightarrow> nat" where
  "sha256_padded_len len = ((len + 8) div 64 + 1) * 64"

text \<open>The zeroed buffer, the message copied into it, the marker byte and the bit length.\<close>

definition sha256_message :: "u8 list \<Rightarrow> u8 list option" where
  "sha256_message data = (let len = length data; padded_len = sha256_padded_len len;
       bit_len = (of_nat len :: u64) * 8 in
     do {
       msg \<leftarrow> copy_into (replicate padded_len 0) 0 data len;
       msg \<leftarrow> store_at msg len 0x80;
       fold (\<lambda>i m. Option.bind m (\<lambda>msg. store_at msg (padded_len - 1 - i) (byte_at (i * 8) bit_len)))
            [0..<8] (Some msg)
     })"

definition sha256_w16 :: "u8 list \<Rightarrow> nat \<Rightarrow> u32 list" where
  "sha256_w16 msg offset = map (\<lambda>i. of_be32 (msg ! (offset + 4*i)) (msg ! (offset + 4*i+1))
     (msg ! (offset + 4*i+2)) (msg ! (offset + 4*i+3))) [0..<16]"

definition sha256_extend :: "nat \<Rightarrow> u32 list \<Rightarrow> u32 list" where
  "sha256_extend i w = w @ [SHA256_SIG1 (w ! (i-2)) + w ! (i-7) + SHA256_SIG0 (w ! (i-15)) + w ! (i-16)]"

definition sha256_schedule :: "u8 list \<Rightarrow> nat \<Rightarrow> u32 list" where
  "sha256_schedule msg offset = fold sha256_extend [16..<64] (sha256_w16 msg offset)"

type_synonym vars8 = "u32 \<times> u32 \<times> u32 \<times> u32 \<times> u32 \<times> u32 \<times> u32 \<times> u32"

definition sha256_round :: "u32 list \<Rightarrow> nat \<Rightarrow> vars8 \<Rightarrow> vars8" where
  "sha256_round w i = (\<lambda>(a, b, c, d, e, f, g, hh).
     let t1 = hh + SHA256_EP1 e + SHA256_CH e f g + sha256_K ! i + w ! i;
         t2 = SHA256_EP0 a + SHA256_MAJ a b c
     in (t1 + t2, a, b, c, d + t1, e, f, g))"

definition sha256_block :: "u8 list \<Rightarrow> nat \<Rightarrow> u32 list \<Rightarrow> u32 list" where
  "sha256_block msg offset h =
     (let w = sha256_schedule msg offset;
          (a, b, c, d, e, f, g, hh) = fold (sha256_round w) [0..<64]
            (h ! 0, h ! 1, h ! 2, h ! 3, h ! 4, h ! 5, h ! 6, h ! 7)
      in [h ! 0 + a, h ! 1 + b, h ! 2 + c, h ! 3 + d, h ! 4 + e, h ! 5 + f, h ! 6 + g, h ! 7 + hh])"

definition sha256_compute :: "u8 list \<Rightarrow> u8 list option" where
  "sha256_compute data = do {
     msg \<leftarrow> sha256_message data;
     let h = fold (\<lambda>k. sha256_block msg (64 * k)) [0..<length msg div 64] sha256_init;
     Some (concat (map be32 h))
   }"

subsection \<open>The reference: FIPS 180-4\<close>

text \<open>
  The constants are those of the standard's text: the first 32 bits of the fractional parts of the
  cube roots of the first 64 primes, and of the square roots of the first eight. \<open>int_root\<close> finds
  an integer root bit by bit.
\<close>

fun int_root :: "nat \<Rightarrow> nat \<Rightarrow> nat \<Rightarrow> nat \<Rightarrow> nat" where
  "int_root k x 0 acc = acc"
| "int_root k x (Suc b) acc = int_root k x b (if (acc + 2 ^ b) ^ k \<le> x then acc + 2 ^ b else acc)"

definition fips_primes :: "nat list" where
  "fips_primes = filter (\<lambda>p. \<forall>d\<in>set [2..<18]. d < p \<longrightarrow> p mod d \<noteq> 0) [2..<312]"

definition fips_K :: "u32 list" where
  "fips_K = map (\<lambda>p. of_nat (int_root 3 (p * 2 ^ 96) 35 0)) fips_primes"

definition fips_H0 :: "u32 list" where
  "fips_H0 = map (\<lambda>p. of_nat (int_root 2 (p * 2 ^ 64) 37 0)) (take 8 fips_primes)"

lemma int_root_bounds:
  "acc ^ k \<le> x \<Longrightarrow> x < (acc + 2 ^ b) ^ k \<Longrightarrow>
     int_root k x b acc ^ k \<le> x \<and> x < (int_root k x b acc + 1) ^ k"
  by (induction b arbitrary: acc) (auto simp: mult_2 add.assoc [symmetric])

lemma int_root_eq:
  assumes "0 < k" "r ^ k \<le> x" "x < (r + 1) ^ k" "x < (2 ^ b) ^ k"
  shows "int_root k x b 0 = r"
proof -
  have b: "int_root k x b 0 ^ k \<le> x" "x < (int_root k x b 0 + 1) ^ k"
    using int_root_bounds [of 0 k x b] assms(1,4) by (simp_all add: zero_power)
  have "r ^ k < (int_root k x b 0 + 1) ^ k" "int_root k x b 0 ^ k < (r + 1) ^ k"
    using b assms(2,3) by linarith+
  then have "r < int_root k x b 0 + 1" "int_root k x b 0 < r + 1"
    by (auto dest: power_less_imp_less_base)
  then show ?thesis by simp
qed

lemma fips_primes_eq: "fips_primes =
    [2, 3, 5, 7, 11, 13, 17, 19, 23, 29, 31, 37, 41, 43, 47, 53,
     59, 61, 67, 71, 73, 79, 83, 89, 97, 101, 103, 107, 109, 113, 127, 131,
     137, 139, 149, 151, 157, 163, 167, 173, 179, 181, 191, 193, 197, 199, 211, 223,
     227, 229, 233, 239, 241, 251, 257, 263, 269, 271, 277, 281, 283, 293, 307, 311]"
  by (simp add: fips_primes_def upt_rec)

text \<open>The integer roots, checked one by one against their bounds.\<close>

lemma fips_cube_roots: "map (\<lambda>p. int_root 3 (p * 2 ^ 96) 35 0) fips_primes =
    [5411319704, 6194414737, 7344290767, 8215976869, 9551921755, 10098905585, 11043570340, 11460697813,
     12214315672, 13195500289, 13492127166, 14311783875, 14809980276, 15046980094, 15499789991, 16133124468,
     16720292289, 16907126662, 17444216262, 17784676812, 17950125167, 18429019306, 18734950876, 19175934170,
     19734090066, 20001703533, 20132865992, 20390182855, 20516441075, 20764397895, 21588763473, 21813078375,
     22141143685, 22248366392, 22769593852, 22871018771, 23170020180, 23461497531, 23651862830, 23931792517,
     24205322401, 24295138891, 24734567280, 24820601251, 24990902297, 25075189284, 25569408389, 26045227120,
     26200031510, 26276752392, 26428864332, 26653801653, 26727943347, 27092625994, 27306805839, 27517677555,
     27725365998, 27793908591, 27997534228, 28131656200, 28198240250, 28526537963, 28973835255, 29099129074]"
  unfolding fips_primes_eq list.map list.inject
  by (intro conjI TrueI refl; rule int_root_eq; simp)

lemma fips_square_roots: "map (\<lambda>p. int_root 2 (p * 2 ^ 64) 37 0) (take 8 fips_primes) =
    [6074000999, 7439101573, 9603838834, 11363415354, 14244795007, 15485724812, 17708603819, 18721328409]"
  by (simp add: fips_primes_eq) (intro conjI; rule int_root_eq; simp)

lemma sha256_K_fips: "sha256_K = fips_K"
proof -
  have "fips_K = map of_nat (map (\<lambda>p. int_root 3 (p * 2 ^ 96) 35 0) fips_primes)"
    by (simp add: fips_K_def)
  from this [unfolded fips_cube_roots] show ?thesis unfolding sha256_K_def by (rule ssubst) simp
qed

lemma sha256_init_fips: "sha256_init = fips_H0"
proof -
  have "fips_H0 = map of_nat (map (\<lambda>p. int_root 2 (p * 2 ^ 64) 37 0) (take 8 fips_primes))"
    by (simp add: fips_H0_def)
  from this [unfolded fips_square_roots] show ?thesis unfolding sha256_init_def by (rule ssubst) simp
qed

lemma length_fips_H0: "length fips_H0 = 8"
  by (simp add: sha256_init_def flip: sha256_init_fips)

definition fips_pad :: "u8 list \<Rightarrow> u8 list" where
  "fips_pad data = data @ [0x80] @ replicate ((119 - length data mod 64) mod 64) 0
     @ rev (map (\<lambda>i. byte_at (i * 8) (of_nat (8 * length data) :: u64)) [0..<8])"

definition fips_S :: "nat \<Rightarrow> nat \<Rightarrow> nat \<Rightarrow> u32 \<Rightarrow> u32" where
  "fips_S a b c x = word_rotr a x XOR word_rotr b x XOR word_rotr c x"

definition fips_s :: "nat \<Rightarrow> nat \<Rightarrow> nat \<Rightarrow> u32 \<Rightarrow> u32" where
  "fips_s a b c x = word_rotr a x XOR word_rotr b x XOR drop_bit c x"

fun fips_W :: "u32 list \<Rightarrow> nat \<Rightarrow> u32" where
  "fips_W M t = (if t < 16 then M ! t
     else fips_s 17 19 10 (fips_W M (t-2)) + fips_W M (t-7)
          + fips_s 7 18 3 (fips_W M (t-15)) + fips_W M (t-16))"

declare fips_W.simps [simp del]

fun fips_rounds :: "u32 list \<Rightarrow> nat \<Rightarrow> vars8 \<Rightarrow> vars8" where
  "fips_rounds M 0 v = v"
| "fips_rounds M (Suc t) v =
     (case fips_rounds M t v of (a, b, c, d, e, f, g, h) \<Rightarrow>
       let T1 = h + fips_S 6 11 25 e + ((e AND f) XOR (NOT e AND g)) + fips_K ! t + fips_W M t;
           T2 = fips_S 2 13 22 a + ((a AND b) XOR (a AND c) XOR (b AND c))
       in (T1 + T2, a, b, c, d + T1, e, f, g))"

fun fips_words :: "u8 list \<Rightarrow> u32 list" where
  "fips_words (a # b # c # d # bs) = of_be32 a b c d # fips_words bs"
| "fips_words _ = []"

definition fips_compress :: "u32 list \<Rightarrow> u32 list \<Rightarrow> u32 list" where
  "fips_compress M H = (case fips_rounds M 64 (H ! 0, H ! 1, H ! 2, H ! 3, H ! 4, H ! 5, H ! 6, H ! 7) of
     (a, b, c, d, e, f, g, h) \<Rightarrow> map2 (+) H [a, b, c, d, e, f, g, h])"

fun fips_blocks :: "nat \<Rightarrow> u8 list \<Rightarrow> u32 list \<Rightarrow> u32 list" where
  "fips_blocks 0 msg H = H"
| "fips_blocks (Suc n) msg H = fips_blocks n (drop 64 msg) (fips_compress (fips_words (take 64 msg)) H)"

definition fips_sha256 :: "u8 list \<Rightarrow> u8 list" where
  "fips_sha256 data = (let msg = fips_pad data in
     concat (map be32 (fips_blocks (length msg div 64) msg fips_H0)))"

subsection \<open>Padding\<close>

lemma sha256_padded_len_bounds:
  "len + 9 \<le> sha256_padded_len len" "sha256_padded_len len \<le> len + 72"
  "64 dvd sha256_padded_len len"
proof -
  have "64 * ((len + 8) div 64) + (len + 8) mod 64 = len + 8" by simp
  moreover have "(len + 8) mod 64 < 64" by simp
  ultimately show "len + 9 \<le> sha256_padded_len len" "sha256_padded_len len \<le> len + 72"
    unfolding sha256_padded_len_def by simp_all
  show "64 dvd sha256_padded_len len" by (simp add: sha256_padded_len_def)
qed

lemma sha256_padded_len_zeros:
  "sha256_padded_len len - (len + 9) = (119 - len mod 64) mod 64"
proof -
  define q r where "q = len div 64" and "r = len mod 64"
  have len: "len = 64 * q + r" and r: "r < 64"
    by (simp_all add: q_def r_def)
  have "(len + 8) div 64 = (if r < 56 then q else q + 1)"
  proof (cases "r < 56")
    case True
    then show ?thesis using len by (intro div_nat_eqI) auto
  next
    case False
    then show ?thesis using len r by (intro div_nat_eqI) auto
  qed
  then have "sha256_padded_len len - (len + 9) = (if r < 56 then 55 - r else 119 - r)"
    using len r by (auto simp: sha256_padded_len_def)
  also have "\<dots> = (119 - r) mod 64"
  proof (cases "r < 56")
    case True
    then have "119 - r = (55 - r) + 64" by simp
    then have "(119 - r) mod 64 = (55 - r) mod 64" by (simp only: mod_add_self2)
    with True show ?thesis by simp
  next
    case False
    with r show ?thesis by simp
  qed
  finally show ?thesis by (simp add: r_def)
qed

lemma store_tail:
  "fold (\<lambda>i m. Option.bind m (\<lambda>msg. store_at msg (length A + 8 - 1 - i) (f i))) [0..<8]
     (Some (A @ replicate 8 0)) = Some (A @ rev (map f [0..<8]))"
  by (simp add: upt_rec_numeral upt_rec store_at_def list_update_append numeral_eq_Suc)

theorem sha256_message_is_padding: "sha256_message data = Some (fips_pad data)"
proof -
  define len where "len = length data"
  define P where "P = sha256_padded_len len"
  define z where "z = (119 - len mod 64) mod 64"
  define A where "A = data @ 0x80 # replicate z 0"
  have P: "P = len + 9 + z"
    using sha256_padded_len_bounds(1) [of len] sha256_padded_len_zeros [of len]
    by (simp add: P_def z_def)
  have "copy_into (replicate P 0) 0 data len = Some (data @ replicate (9 + z) (0::u8))"
    by (simp add: copy_into_def P len_def)
  moreover have "store_at (data @ replicate (9 + z) (0::u8)) len 0x80 = Some (A @ replicate 8 0)"
  proof -
    have "9 + z = Suc (z + 8)" by simp
    then have "replicate (9 + z) (0::u8) = 0 # replicate z 0 @ replicate 8 0"
      by (simp only: replicate_Suc replicate_add)
    then show ?thesis by (simp add: store_at_def len_def A_def list_update_append)
  qed
  moreover have "P - 1 - i = length A + 8 - 1 - i" for i
    by (simp add: P A_def len_def)
  ultimately show ?thesis
    using store_tail [of A "\<lambda>i. byte_at (i * 8) (of_nat len * 8 :: u64)"]
    by (simp add: sha256_message_def Let_def P_def [symmetric] len_def [symmetric] fips_pad_def
        z_def [symmetric] A_def mult.commute)
qed

lemma length_fips_pad: "length (fips_pad data) = sha256_padded_len (length data)"
  using sha256_padded_len_bounds(1) [of "length data"] sha256_padded_len_zeros [of "length data"]
  by (simp add: fips_pad_def)

subsection \<open>Compression\<close>

lemma SHA256_ROTR_rotr: "0 < n \<Longrightarrow> n < 32 \<Longrightarrow> SHA256_ROTR x n = word_rotr n x"
proof (rule bit_word_eqI)
  fix m assume n: "0 < n" "n < 32" and m: "m < LENGTH(32)"
  show "bit (SHA256_ROTR x n) m = bit (word_rotr n x) m"
  proof (cases "m + n < 32")
    case True
    with n m show ?thesis by (auto simp: SHA256_ROTR_def bit_simps bit_word_rotr_iff add.commute)
  next
    case False
    then have "(m + n) mod 32 = m + n - 32" using n m by (simp add: mod_if)
    with False n m show ?thesis
      by (auto simp: SHA256_ROTR_def bit_simps bit_word_rotr_iff add.commute dest: bit_imp_le_length)
  qed
qed

lemma fips_functions:
  "SHA256_EP0 x = fips_S 2 13 22 x" "SHA256_EP1 x = fips_S 6 11 25 x"
  "SHA256_SIG0 x = fips_s 7 18 3 x" "SHA256_SIG1 x = fips_s 17 19 10 x"
  by (simp_all add: SHA256_EP0_def SHA256_EP1_def SHA256_SIG0_def SHA256_SIG1_def fips_S_def
      fips_s_def SHA256_ROTR_rotr xor.assoc)

lemma fips_words_length: "length (fips_words bs) = length bs div 4"
  by (induction bs rule: fips_words.induct) auto

lemma fips_words_nth:
  "4 * i + 3 < length bs \<Longrightarrow> fips_words bs ! i =
     of_be32 (bs ! (4*i)) (bs ! (4*i+1)) (bs ! (4*i+2)) (bs ! (4*i+3))"
proof (induction bs arbitrary: i rule: fips_words.induct)
  case (1 a b c d bs)
  then show ?case by (cases i) (simp_all add: nth_Cons' add.commute)
qed auto

lemma sha256_w16_words:
  "offset + 64 \<le> length msg \<Longrightarrow> sha256_w16 msg offset = fips_words (take 64 (drop offset msg))"
  by (rule nth_equalityI) (auto simp: sha256_w16_def fips_words_length fips_words_nth ac_simps)

lemma sha256_extend_W:
  "length M = 16 \<Longrightarrow> n \<le> 48 \<Longrightarrow>
     fold sha256_extend [16..<16 + n] M = map (fips_W M) [0..<16 + n]"
proof (induction n)
  case 0
  then show ?case by (intro nth_equalityI) (auto simp: fips_W.simps)
next
  case (Suc n)
  have "[16..<16 + Suc n] = [16..<16 + n] @ [16 + n]" "[0..<16 + Suc n] = [0..<16 + n] @ [16 + n]"
    using upt_Suc_append [of 16 "16 + n"] upt_Suc_append [of 0 "16 + n"] by simp_all
  with Suc show ?case
    by (simp add: sha256_extend_def fips_functions fips_W.simps [of M "16 + n"] del: upt_Suc)
qed

lemma sha256_schedule_W:
  assumes "offset + 64 \<le> length msg"
  shows "sha256_schedule msg offset = map (fips_W (fips_words (take 64 (drop offset msg)))) [0..<64]"
  using sha256_extend_W [of "fips_words (take 64 (drop offset msg))" 48] assms
  by (simp add: sha256_schedule_def sha256_w16_words fips_words_length)

lemma sha256_rounds_fips:
  "n \<le> 64 \<Longrightarrow> fold (sha256_round (map (fips_W M) [0..<64])) [0..<n] v = fips_rounds M n v"
  by (induction n)
     (auto simp: sha256_round_def sha256_K_fips fips_functions SHA256_CH_def SHA256_MAJ_def Let_def xor.assoc
       split: prod.splits)

lemma sha256_block_fips:
  assumes "offset + 64 \<le> length msg" "length H = 8"
  shows "sha256_block msg offset H = fips_compress (fips_words (take 64 (drop offset msg))) H"
proof -
  obtain h0 h1 h2 h3 h4 h5 h6 h7 where "H = [h0, h1, h2, h3, h4, h5, h6, h7]"
    using assms(2) by (auto simp: length_Suc_conv numeral_eq_Suc)
  then show ?thesis
    by (simp add: sha256_block_def fips_compress_def sha256_schedule_W [OF assms(1)] sha256_rounds_fips
         split: prod.splits)
qed

lemma length_fips_compress [simp]: "length H = 8 \<Longrightarrow> length (fips_compress M H) = 8"
  by (simp add: fips_compress_def split: prod.splits)

lemma sha256_block_shift:
  "sha256_block msg (64 * Suc k) = sha256_block (drop 64 msg) (64 * k)" if "64 \<le> length msg"
proof -
  have "sha256_w16 msg (64 * Suc k) = sha256_w16 (drop 64 msg) (64 * k)"
    using that by (simp add: sha256_w16_def add.assoc)
  then show ?thesis by (simp add: sha256_block_def sha256_schedule_def fun_eq_iff)
qed

lemma sha256_blocks_fips:
  "64 * n \<le> length msg \<Longrightarrow> length H = 8 \<Longrightarrow>
     fold (\<lambda>k. sha256_block msg (64 * k)) [0..<n] H = fips_blocks n msg H"
proof (induction n arbitrary: msg H)
  case 0
  then show ?case by simp
next
  case (Suc n)
  have l: "64 \<le> length msg" "64 * n \<le> length (drop 64 msg)"
    using Suc.prems(1) by auto
  have "fold (\<lambda>k. sha256_block msg (64 * k)) [0..<Suc n] H =
      fold (\<lambda>k. sha256_block msg (64 * Suc k)) [0..<n] (sha256_block msg 0 H)"
    by (simp only: upt_conv_Cons [of 0 "Suc n"] zero_less_Suc map_Suc_upt [symmetric] fold_map
        comp_def fold_simps mult_0_right)
  also have "\<dots> = fips_blocks (Suc n) msg H"
    using Suc.IH [OF l(2)] Suc.prems(2) l(1)
    by (simp add: sha256_block_shift sha256_block_fips del: mult_Suc_right)
  finally show ?case .
qed

theorem sha256_compute_fips: "sha256_compute data = Some (fips_sha256 data)"
  using sha256_blocks_fips [of "length (fips_pad data) div 64" "fips_pad data" sha256_init]
  by (simp add: sha256_compute_def sha256_message_is_padding fips_sha256_def sha256_init_fips
      length_fips_H0 Let_def)

lemma length_fips_blocks: "length H = 8 \<Longrightarrow> length (fips_blocks n msg H) = 8"
  by (induction n msg H rule: fips_blocks.induct) auto

lemma length_fips_sha256: "length (fips_sha256 data) = 32"
proof -
  have "length (concat (map be32 xs)) = 4 * length xs" for xs
    by (induction xs) auto
  then show ?thesis
    by (simp add: fips_sha256_def Let_def length_fips_blocks length_fips_H0)
qed

end
