(* ===== verification/RnodeHost.thy ===== *)
theory RnodeHost
  imports SplitPackets Sha256
begin

section \<open>Commands of the host\<close>

text \<open>
  The host half of \<^verbatim>\<open>src/rnode.c\<close>: one definition per \<^verbatim>\<open>ans_\<close> handler, the start of the radio, the device
  hash, and the dispatch \<^verbatim>\<open>rnode_from_channel\<close>. A handler gets the bytes after the command byte, up to
  the end of the receive buffer: the code reads its parameters there without looking at the length of
  the frame, so bytes of earlier frames may be read. In ISO C shifting a byte of 128 or more by 24 as an \<^verbatim>\<open>int\<close> is
  undefined; the four byte parameters are read so.
\<close>

abbreviation "CMD_FREQUENCY \<equiv> 0x01 :: u8"
abbreviation "CMD_BANDWIDTH \<equiv> 0x02 :: u8"
abbreviation "CMD_TXPOWER \<equiv> 0x03 :: u8"
abbreviation "CMD_SF \<equiv> 0x04 :: u8"
abbreviation "CMD_CR \<equiv> 0x05 :: u8"
abbreviation "CMD_RADIO_STATE \<equiv> 0x06 :: u8"
abbreviation "CMD_RADIO_LOCK \<equiv> 0x07 :: u8"
abbreviation "CMD_DETECT \<equiv> 0x08 :: u8"
abbreviation "CMD_IMPLICIT \<equiv> 0x09 :: u8"
abbreviation "CMD_LEAVE \<equiv> 0x0A :: u8"
abbreviation "CMD_ST_ALOCK \<equiv> 0x0B :: u8"
abbreviation "CMD_LT_ALOCK \<equiv> 0x0C :: u8"
abbreviation "CMD_PROMISC \<equiv> 0x0E :: u8"
abbreviation "CMD_READY \<equiv> 0x0F :: u8"
abbreviation "CMD_STAT_RX \<equiv> 0x21 :: u8"
abbreviation "CMD_STAT_TX \<equiv> 0x22 :: u8"
abbreviation "CMD_STAT_PHYPRM \<equiv> 0x26 :: u8"
abbreviation "CMD_STAT_BAT \<equiv> 0x27 :: u8"
abbreviation "CMD_RANDOM \<equiv> 0x40 :: u8"
abbreviation "CMD_BOARD \<equiv> 0x47 :: u8"
abbreviation "CMD_PLATFORM \<equiv> 0x48 :: u8"
abbreviation "CMD_MCU \<equiv> 0x49 :: u8"
abbreviation "CMD_RSSI_OFFSET \<equiv> 0x4A :: u8"
abbreviation "CMD_PREAMBLE \<equiv> 0x4B :: u8"
abbreviation "CMD_FW_VERSION \<equiv> 0x50 :: u8"
abbreviation "CMD_RESET \<equiv> 0x55 :: u8"
abbreviation "CMD_RESET_BYTE \<equiv> 0xF8 :: u8"
abbreviation "CMD_DEV_HASH \<equiv> 0x56 :: u8"
abbreviation "DETECT_RESP \<equiv> 0x46 :: u8"
abbreviation "CONFIG_QUEUE_MAX_LENGTH \<equiv> 16 :: u16"

primrec bw_to_hz :: "bw_t \<Rightarrow> u32" where
  "bw_to_hz BW_7800 = 7800" | "bw_to_hz BW_10400 = 10400" | "bw_to_hz BW_15600 = 15600"
| "bw_to_hz BW_20800 = 20800" | "bw_to_hz BW_31250 = 31250" | "bw_to_hz BW_41700 = 41700"
| "bw_to_hz BW_62500 = 62500" | "bw_to_hz BW_125000 = 125000" | "bw_to_hz BW_250000 = 250000"
| "bw_to_hz BW_500000 = 500000"

text \<open>\<^verbatim>\<open>(p[0] << 24) | (p[1] << 16) | (p[2] << 8) | p[3]\<close> and \<^verbatim>\<open>(p[0] << 8) | p[1]\<close>.\<close>

definition param32 :: "u8 list \<Rightarrow> u32 option" where
  "param32 p = do {
     a \<leftarrow> read_at p 0; b \<leftarrow> read_at p 1; c \<leftarrow> read_at p 2; d \<leftarrow> read_at p 3;
     if a < 0x80 then Some (of_be32 a b c d) else None }"

definition param16 :: "u8 list \<Rightarrow> u16 option" where
  "param16 p = do { a \<leftarrow> read_at p 0; b \<leftarrow> read_at p 1; Some (of_be16 a b) }"

definition flag_byte :: "bool \<Rightarrow> u8" where
  "flag_byte b = (if b then 0x01 else 0x00)"

subsection \<open>Starting the radio\<close>

definition header_type :: "rnode_st \<Rightarrow> header_type_t" where
  "header_type r = (if header_implicit r then HEADER_IMPLICIT else HEADER_EXPLICIT)"

text \<open>The sixteen bit preamble length is passed on as eight bits.\<close>

definition rnode_start :: "env \<Rightarrow> world \<Rightarrow> world option" where
  "rnode_start E w = do {
     (ok, w) \<leftarrow> sx126x_begin E w;
     if \<not> ok then rnode_report_error E ERROR_INITRADIO w
     else do {
       w \<leftarrow> sx126x_set_freq E (ucast (current_freq (rn w))) w;
       w \<leftarrow> sx126x_set_tx_power E (current_tx_power (rn w)) w;
       w \<leftarrow> sx126x_set_lora_modulation E (current_sf (rn w)) (current_bw (rn w)) (current_cr (rn w)) LDRO_OFF w;
       w \<leftarrow> sx126x_set_lora_packet E (header_type (rn w)) (ucast (preamble_length (rn w))) 15 CRC_ON w;
       w \<leftarrow> sx126x_set_sync_word E 0x1424 w;
       w \<leftarrow> sx126x_request E RX_CONTINUOUS w;
       (total, header_ms, data_ms) \<leftarrow> sx126x_air_time (sx w) 255;
       Some (queue_set_busy_timeout (header_ms * 3 div 2) (data_ms * 3 div 2) w) } }"

subsection \<open>Constant answers\<close>

definition ans_detect :: "env \<Rightarrow> u8 list \<Rightarrow> world \<Rightarrow> world option" where
  "ans_detect E param = kiss_encode E [CMD_DETECT, DETECT_RESP]"

definition ans_fw_version :: "env \<Rightarrow> u8 list \<Rightarrow> world \<Rightarrow> world option" where
  "ans_fw_version E param = kiss_encode E [CMD_FW_VERSION, 1, 52]"

definition ans_board :: "env \<Rightarrow> u8 list \<Rightarrow> world \<Rightarrow> world option" where
  "ans_board E param = kiss_encode E [CMD_BOARD, 0x60]"

definition ans_platform :: "env \<Rightarrow> u8 list \<Rightarrow> world \<Rightarrow> world option" where
  "ans_platform E param = kiss_encode E [CMD_PLATFORM, 0xFF]"

definition ans_mcu :: "env \<Rightarrow> u8 list \<Rightarrow> world \<Rightarrow> world option" where
  "ans_mcu E param = kiss_encode E [CMD_MCU, 0xFF]"

definition ans_radio_lock :: "env \<Rightarrow> u8 list \<Rightarrow> world \<Rightarrow> world option" where
  "ans_radio_lock E param = kiss_encode E [CMD_RADIO_LOCK, 0x00]"

definition ans_stat_bat :: "env \<Rightarrow> u8 list \<Rightarrow> world \<Rightarrow> world option" where
  "ans_stat_bat E param = kiss_encode E [CMD_STAT_BAT, 0x00, 0x00]"

subsection \<open>Radio configuration\<close>

definition ans_frequency :: "env \<Rightarrow> u8 list \<Rightarrow> world \<Rightarrow> world option" where
  "ans_frequency E param w = do {
     freq \<leftarrow> param32 param;
     w \<leftarrow> (if freq \<noteq> 0 then do {
          let w = upd_rn (\<lambda>r. r\<lparr>current_freq := freq\<rparr>) w;
          if radio_online (rn w) then sx126x_set_freq E (ucast (current_freq (rn w))) w else Some w }
        else Some w);
     kiss_encode E (CMD_FREQUENCY # be32 (current_freq (rn w))) w }"

definition bw_of_hz :: "u32 \<Rightarrow> bw_t option" where
  "bw_of_hz bw = (if bw = 7800 then Some BW_7800 else if bw = 10400 then Some BW_10400
     else if bw = 15600 then Some BW_15600 else if bw = 20800 then Some BW_20800
     else if bw = 31250 then Some BW_31250 else if bw = 41700 then Some BW_41700
     else if bw = 62500 then Some BW_62500 else if bw = 125000 then Some BW_125000
     else if bw = 250000 then Some BW_250000 else if bw = 500000 then Some BW_500000 else None)"

text \<open>The modulation is programmed anew when the radio is on.\<close>

definition apply_modulation :: "env \<Rightarrow> world \<Rightarrow> world option" where
  "apply_modulation E w =
     (if radio_online (rn w)
      then sx126x_set_lora_modulation E (current_sf (rn w)) (current_bw (rn w)) (current_cr (rn w)) LDRO_OFF w
      else Some w)"

definition ans_bandwidth :: "env \<Rightarrow> u8 list \<Rightarrow> world \<Rightarrow> world option" where
  "ans_bandwidth E param w = do {
     bw \<leftarrow> param32 param;
     let w = (case bw_of_hz bw of Some b \<Rightarrow> upd_rn (\<lambda>r. r\<lparr>current_bw := b\<rparr>) w | None \<Rightarrow> w);
     w \<leftarrow> kiss_encode E (CMD_BANDWIDTH # be32 (bw_to_hz (current_bw (rn w)))) w;
     w \<leftarrow> csma_update_radio_params (current_sf (rn w)) (bw_to_hz (current_bw (rn w))) w;
     apply_modulation E w }"

definition ans_txpower :: "env \<Rightarrow> u8 list \<Rightarrow> world \<Rightarrow> world option" where
  "ans_txpower E param w = do {
     db \<leftarrow> read_at param 0;
     w \<leftarrow> (if db \<noteq> 0 then do {
          let w = upd_rn (\<lambda>r. r\<lparr>current_tx_power := db\<rparr>) w;
          if radio_online (rn w) then sx126x_set_tx_power E (current_tx_power (rn w)) w else Some w }
        else Some w);
     kiss_encode E [CMD_TXPOWER, current_tx_power (rn w)] w }"

definition ans_sf :: "env \<Rightarrow> u8 list \<Rightarrow> world \<Rightarrow> world option" where
  "ans_sf E param w = do {
     sf \<leftarrow> read_at param 0;
     let w = (if sf \<noteq> 0 then upd_rn (\<lambda>r. r\<lparr>current_sf := sf\<rparr>) w else w);
     w \<leftarrow> kiss_encode E [CMD_SF, current_sf (rn w)] w;
     w \<leftarrow> csma_update_radio_params (current_sf (rn w)) (bw_to_hz (current_bw (rn w))) w;
     apply_modulation E w }"

definition cr_of_byte :: "u8 \<Rightarrow> cr_t option" where
  "cr_of_byte cr = (if cr = 4 then Some CR_4_4 else if cr = 5 then Some CR_4_5
     else if cr = 6 then Some CR_4_6 else if cr = 7 then Some CR_4_7
     else if cr = 8 then Some CR_4_8 else None)"

primrec byte_of_cr :: "cr_t \<Rightarrow> u8" where
  "byte_of_cr CR_4_4 = 4" | "byte_of_cr CR_4_5 = 5" | "byte_of_cr CR_4_6 = 6"
| "byte_of_cr CR_4_7 = 7" | "byte_of_cr CR_4_8 = 8"

definition ans_cr :: "env \<Rightarrow> u8 list \<Rightarrow> world \<Rightarrow> world option" where
  "ans_cr E param w = do {
     cr \<leftarrow> read_at param 0;
     let w = (case cr_of_byte cr of Some c \<Rightarrow> upd_rn (\<lambda>r. r\<lparr>current_cr := c\<rparr>) w | None \<Rightarrow> w);
     w \<leftarrow> kiss_encode E [CMD_CR, byte_of_cr (current_cr (rn w))] w;
     apply_modulation E w }"

definition ans_radio_state :: "env \<Rightarrow> u8 list \<Rightarrow> world \<Rightarrow> world option" where
  "ans_radio_state E param w = do {
     x \<leftarrow> read_at param 0;
     w \<leftarrow> (if x = 0xFF then Some w
          else if x = 0x01 then do {
            w \<leftarrow> rnode_start E w;
            Some (upd_rn (\<lambda>r. r\<lparr>radio_online := True\<rparr>) w) }
          else if x = 0x00 then Some (upd_rn (\<lambda>r. r\<lparr>radio_online := False\<rparr>) w)
          else Some w);
     kiss_encode E [CMD_RADIO_STATE, flag_byte (radio_online (rn w))] w }"

definition ans_rssi_offset :: "env \<Rightarrow> u8 list \<Rightarrow> world \<Rightarrow> world option" where
  "ans_rssi_offset E param w = do {
     x \<leftarrow> read_at param 0;
     let w = (if x \<noteq> 0 then upd_rn (\<lambda>r. r\<lparr>rssi_offset := x\<rparr>) w else w);
     kiss_encode E [CMD_RSSI_OFFSET, rssi_offset (rn w)] w }"

definition apply_packet :: "env \<Rightarrow> world \<Rightarrow> world option" where
  "apply_packet E w =
     (if radio_online (rn w)
      then sx126x_set_lora_packet E (header_type (rn w)) (ucast (preamble_length (rn w))) 15 CRC_ON w
      else Some w)"

definition ans_preamble :: "env \<Rightarrow> u8 list \<Rightarrow> world \<Rightarrow> world option" where
  "ans_preamble E param w = do {
     preamble \<leftarrow> param16 param;
     w \<leftarrow> (if preamble \<noteq> 0 then apply_packet E (upd_rn (\<lambda>r. r\<lparr>preamble_length := preamble\<rparr>) w) else Some w);
     kiss_encode E (CMD_PREAMBLE # be16 (preamble_length (rn w))) w }"

definition ans_implicit :: "env \<Rightarrow> u8 list \<Rightarrow> world \<Rightarrow> world option" where
  "ans_implicit E param w = do {
     x \<leftarrow> read_at param 0;
     w \<leftarrow> apply_packet E (upd_rn (\<lambda>r. r\<lparr>header_implicit := (x \<noteq> 0)\<rparr>) w);
     kiss_encode E [CMD_IMPLICIT, flag_byte (header_implicit (rn w))] w }"

subsection \<open>Limits, modes and statistics\<close>

text \<open>\<^verbatim>\<open>(float)at / (100.0 * 100.0)\<close>, reset to zero from 1 on, and what is echoed of it.\<close>

definition alock_limit :: "u16 \<Rightarrow> cfloat" where
  "alock_limit x = (if x = 0 then Fin 0
     else (let limit = f_cast f32 (f_div f64 (fl x) (Fin 10000))
           in if f_le (Fin 1) limit then Fin 0 else limit))"

definition ans_st_alock :: "env \<Rightarrow> u8 list \<Rightarrow> world \<Rightarrow> world option" where
  "ans_st_alock E param w = do {
     x \<leftarrow> param16 param;
     let w = upd_rn (\<lambda>r. r\<lparr>st_airtime_limit := alock_limit x\<rparr>) w;
     echo \<leftarrow> stat_percent (st_airtime_limit (rn w));
     kiss_encode E (CMD_ST_ALOCK # be16 echo) w }"

definition ans_lt_alock :: "env \<Rightarrow> u8 list \<Rightarrow> world \<Rightarrow> world option" where
  "ans_lt_alock E param w = do {
     x \<leftarrow> param16 param;
     let w = upd_rn (\<lambda>r. r\<lparr>lt_airtime_limit := alock_limit x\<rparr>) w;
     echo \<leftarrow> stat_percent (lt_airtime_limit (rn w));
     kiss_encode E (CMD_LT_ALOCK # be16 echo) w }"

text \<open>
  Sixteen bytes of \<^verbatim>\<open>getrandom\<close>, or of \<^verbatim>\<open>/dev/urandom\<close>, or of the uninitialised stack when both
  fail: the environment gives them.
\<close>

definition ans_random :: "env \<Rightarrow> u8 list \<Rightarrow> world \<Rightarrow> world option" where
  "ans_random E param w =
     kiss_encode E (CMD_RANDOM # map (getrandom_ret E (reads w)) [0..<16]) (next_read w)"

definition ans_stat_queue :: "env \<Rightarrow> u8 list \<Rightarrow> world \<Rightarrow> world option" where
  "ans_stat_queue E param w = kiss_encode E (CMD_STAT_QUEUE # be16 (queue_get_depth w)) w"

definition ans_stat_chtm :: "env \<Rightarrow> u8 list \<Rightarrow> world \<Rightarrow> world option" where
  "ans_stat_chtm E param w = rnode_send_stat_channel E (csma_get_channel w) w"

definition ans_stat_phyprm :: "env \<Rightarrow> u8 list \<Rightarrow> world \<Rightarrow> world option" where
  "ans_stat_phyprm E param w = do {
     let (sym_time, sym_rate, preamble_syms, preamble_ms, slot_ms, difs) = csma_get_phy_params w;
     st \<leftarrow> f_to_u16 (f_mul f32 sym_time (Fin 1000));
     sr \<leftarrow> f_to_u16 sym_rate;
     kiss_encode E (CMD_STAT_PHYPRM # be16 st @ be16 sr @ be16 (of_int preamble_syms) @
       be16 (of_int preamble_ms) @ be16 (of_int slot_ms) @ be16 (of_int difs)) w }"

definition ans_promisc :: "env \<Rightarrow> u8 list \<Rightarrow> world \<Rightarrow> world option" where
  "ans_promisc E param w = do {
     x \<leftarrow> read_at param 0;
     let w = upd_rn (\<lambda>r. r\<lparr>promisc := (x \<noteq> 0)\<rparr>) w;
     kiss_encode E [CMD_PROMISC, flag_byte (promisc (rn w))] w }"

definition ans_ready :: "env \<Rightarrow> u8 list \<Rightarrow> world \<Rightarrow> world option" where
  "ans_ready E param w =
     kiss_encode E [CMD_READY, flag_byte (queue_get_depth w < CONFIG_QUEUE_MAX_LENGTH)] w"

definition ans_reset :: "env \<Rightarrow> u8 list \<Rightarrow> world \<Rightarrow> world option" where
  "ans_reset E param w = do {
     x \<leftarrow> read_at param 0;
     if x = CMD_RESET_BYTE then do {
       w \<leftarrow> rnode_start E w;
       kiss_encode E [CMD_RESET, 0x00] w }
     else Some w }"

definition ans_stat_rx :: "env \<Rightarrow> u8 list \<Rightarrow> world \<Rightarrow> world option" where
  "ans_stat_rx E param w = kiss_encode E (CMD_STAT_RX # be32 (stat_rx (rn w))) w"

definition ans_stat_tx :: "env \<Rightarrow> u8 list \<Rightarrow> world \<Rightarrow> world option" where
  "ans_stat_tx E param w = kiss_encode E (CMD_STAT_TX # be32 (stat_tx (rn w))) w"

subsection \<open>The device hash\<close>

text \<open>
  \<^verbatim>\<open>sscanf(s, "%2x", &val)\<close> on a C string: white space is skipped, then at most two characters are
  read as an optional sign and hexadecimal digits. The prefix \<^verbatim>\<open>0x\<close> alone gives zero.
\<close>

definition hex_val :: "u8 \<Rightarrow> u8 option" where
  "hex_val c = (if 48 \<le> c \<and> c \<le> 57 then Some (c - 48)
     else if 97 \<le> c \<and> c \<le> 102 then Some (c - 87)
     else if 65 \<le> c \<and> c \<le> 70 then Some (c - 55) else None)"

definition c_space :: "u8 \<Rightarrow> bool" where
  "c_space c \<longleftrightarrow> c = 32 \<or> (9 \<le> c \<and> c \<le> 13)"

definition scan_hex2 :: "u8 list \<Rightarrow> u8 option" where
  "scan_hex2 s = (case dropWhile c_space s of
     [] \<Rightarrow> None
   | c # ds \<Rightarrow>
       let next = (case ds of [] \<Rightarrow> None | d # _ \<Rightarrow> hex_val d) in
       if c = 43 then next
       else if c = 45 then map_option uminus next
       else (case hex_val c of
          None \<Rightarrow> None
        | Some hi \<Rightarrow> (case next of None \<Rightarrow> Some hi | Some lo \<Rightarrow> Some (16 * hi + lo))))"

definition parse_machine_id :: "u8 list option \<Rightarrow> u8 list" where
  "parse_machine_id file = (case file of
     None \<Rightarrow> replicate 16 0
   | Some content \<Rightarrow>
       if 32 \<le> length content
       then map (\<lambda>i. case scan_hex2 (takeWhile (\<lambda>c. c \<noteq> 0) (drop (2 * i) (take 32 content))) of
                       Some v \<Rightarrow> v | None \<Rightarrow> 0) [0..<16]
       else replicate 16 0)"

definition compute_dev_hash :: "env \<Rightarrow> world \<Rightarrow> world option" where
  "compute_dev_hash E w = do {
     h \<leftarrow> sha256_compute (parse_machine_id (machine_id_file E));
     Some (upd_rn (\<lambda>r. r\<lparr>dev_hash := h, dev_hash_ready := True\<rparr>) w) }"

definition ans_dev_hash :: "env \<Rightarrow> u8 list \<Rightarrow> world \<Rightarrow> world option" where
  "ans_dev_hash E param w = do {
     w \<leftarrow> (if \<not> dev_hash_ready (rn w) then compute_dev_hash E w else Some w);
     kiss_encode E (CMD_DEV_HASH # take 32 (dev_hash (rn w))) w }"

subsection \<open>The dispatch\<close>

text \<open>
  The \<^verbatim>\<open>switch\<close> of \<^verbatim>\<open>rnode_from_channel\<close> as a table, in the order of its labels. The labels from
  \<^verbatim>\<open>CMD_BLINK\<close> to \<^verbatim>\<open>CMD_WIFI_NM\<close> fall through to the device hash.
\<close>

definition hash_cmds :: "u8 list" where
  "hash_cmds = [0x30, 0x41, 0x42, 0x43, 0x44, 0x45, 0x63, 0x64, 0x67, 0x68, 0x66, 0x65, 0x46, 0x70, 0x62,
     0x69, 0x6A, 0x6B, 0x6C, 0x6E, 0x84, 0x85, CMD_DEV_HASH]"

definition ignored_cmds :: "u8 list" where
  "ignored_cmds = [0x53, 0x54, 0x51, 0x52, 0x6D, 0x57, 0x58, 0x60, 0x61, 0x59, 0x80, 0x81, 0x82, 0x83]"

definition handlers :: "env \<Rightarrow> u8 list \<Rightarrow> nat \<Rightarrow> (u8 \<times> (world \<Rightarrow> world option)) list" where
  "handlers E param len =
     [(CMD_DETECT, ans_detect E param), (CMD_FW_VERSION, ans_fw_version E param),
      (CMD_BOARD, ans_board E param), (CMD_PLATFORM, ans_platform E param), (CMD_MCU, ans_mcu E param),
      (CMD_FREQUENCY, ans_frequency E param), (CMD_BANDWIDTH, ans_bandwidth E param),
      (CMD_TXPOWER, ans_txpower E param), (CMD_SF, ans_sf E param), (CMD_CR, ans_cr E param),
      (CMD_RADIO_STATE, ans_radio_state E param), (CMD_RSSI_OFFSET, ans_rssi_offset E param),
      (CMD_PREAMBLE, ans_preamble E param), (CMD_IMPLICIT, ans_implicit E param),
      (CMD_ST_ALOCK, ans_st_alock E param), (CMD_LT_ALOCK, ans_lt_alock E param),
      (CMD_RANDOM, ans_random E param), (CMD_STAT_QUEUE, ans_stat_queue E param),
      (CMD_STAT_CHTM, ans_stat_chtm E param), (CMD_STAT_PHYPRM, ans_stat_phyprm E param),
      (CMD_RADIO_LOCK, ans_radio_lock E param), (CMD_PROMISC, ans_promisc E param),
      (CMD_READY, ans_ready E param), (CMD_RESET, ans_reset E param),
      (CMD_STAT_RX, ans_stat_rx E param), (CMD_STAT_TX, ans_stat_tx E param),
      (CMD_STAT_BAT, ans_stat_bat E param),
      (CMD_DATA, \<lambda>w. if len \<le> length param then queue_push E (take len param) w else None),
      (CMD_LEAVE, Some)]
     @ map (\<lambda>c. (c, ans_dev_hash E param)) hash_cmds
     @ map (\<lambda>c. (c, Some)) ignored_cmds"

definition rnode_from_channel :: "env \<Rightarrow> u8 list \<Rightarrow> nat \<Rightarrow> world \<Rightarrow> world option" where
  "rnode_from_channel E buf len w = (case buf of
     [] \<Rightarrow> None
   | cmd # param \<Rightarrow> (case map_of (handlers E param (size_dec len)) cmd of
        Some handler \<Rightarrow> handler w
      | None \<Rightarrow> rnode_report_error E ERROR_INVALID_COMMAND w))"

definition rnode_indicate_reset :: "env \<Rightarrow> world \<Rightarrow> world option" where
  "rnode_indicate_reset E = kiss_encode E [CMD_RESET, CMD_RESET_BYTE]"

end
