(* ===== verification/HostInv.thy ===== *)
theory HostInv
  imports RnodeHost
begin

section \<open>Every command of the host keeps the invariant\<close>

text \<open>
  The invariant of the process for the host side: the driver and its lines, the channel access, the
  queue and the packet buffers. Each \<^verbatim>\<open>ans_\<close> handler keeps it whenever it returns, and returns under the
  condition stated; \<open>cmd_defined\<close> collects the conditions for the dispatch. The handlers are proved once, in the interface
  \<open>command_layer\<close> of what they need of an invariant, and it is interpreted here with \<open>host_inv\<close>.
\<close>

definition host_inv :: "kiss_st \<Rightarrow> world \<Rightarrow> bool" where
  "host_inv k w \<longleftrightarrow> (\<exists>c q r m e xs. drv_ok (k, c, q, r, m, e) w \<and> csma_wf c \<and> queue_rep q xs \<and> rn_wf r)"

lemma host_invI: "drv_ok (k, c, q, r, m, e) w \<Longrightarrow> csma_wf c \<Longrightarrow> queue_rep q xs \<Longrightarrow> rn_wf r \<Longrightarrow> host_inv k w"
  unfolding host_inv_def by blast

lemma host_inv_obtain:
  assumes "host_inv k w"
  obtains c q r sf cr bw pl e xs where "drv_ok (k, c, q, r, (sf, cr, bw, pl), e) w" "csma_wf c" "queue_rep q xs" "rn_wf r"
  using assms by (auto simp: host_inv_def)

lemma host_inv_drv:
  assumes "\<And>R. drv_ok R w \<Longrightarrow> gives (drv_ok R) n" "host_inv k w"
  shows "gives (host_inv k) n"
  using assms(2)
  by (rule host_inv_obtain) (rule gives_mono [OF assms(1)], assumption, rule host_invI)

lemma host_inv_drvr:
  assumes "\<And>R. drv_ok R w \<Longrightarrow> givesr (drv_ok R) n" "host_inv k w"
  shows "givesr (host_inv k) n"
  using assms(2)
  by (rule host_inv_obtain) (rule givesr_mono [OF assms(1)], assumption, rule host_invI)

lemma host_inv_next [simp]: "host_inv k w \<Longrightarrow> host_inv k (next_read w)"
  by (erule host_inv_obtain, rule host_invI) auto

lemma host_inv_upd_rn: "host_inv k w \<Longrightarrow> (rn_wf (rn w) \<Longrightarrow> rn_wf (g (rn w))) \<Longrightarrow> host_inv k (upd_rn g w)"
  unfolding host_inv_def upd_rn_def by (metis drv_ok_rn drv_rn_eq)

lemma host_inv_rn_wf: "host_inv k w \<Longrightarrow> rn_wf (rn w)"
  by (auto simp: host_inv_def)

lemma drv_ok_cs: "drv_ok (k, c, q, r, e) w \<Longrightarrow> drv_ok (k, c', q, r, e) (w\<lparr>cs := c'\<rparr>)"
  and drv_ok_qu: "drv_ok (k, c, q, r, e) w \<Longrightarrow> drv_ok (k, c, q', r, e) (w\<lparr>qu := q'\<rparr>)"
  and drv_ok_kiss: "drv_ok (k, c, q, r, e) w \<Longrightarrow> drv_ok (k', c, q, r, e) (w\<lparr>kiss_in := k'\<rparr>)"
  by (auto simp: drv_ok_def lines_ok_def rest_def txfifo_def simp del: drv_rn_eq)

lemma drv_cs_eq: "drv_ok (k, c, q, r, e) w \<Longrightarrow> cs w = c" and drv_qu_eq: "drv_ok (k, c, q, r, e) w \<Longrightarrow> qu w = q"
  by (simp_all add: drv_ok_def rest_def del: drv_rn_eq)

lemma host_inv_csma_wf: "host_inv k w \<Longrightarrow> csma_wf (cs w)"
  by (auto simp: host_inv_def dest: drv_cs_eq)

lemma host_inv_cs: "host_inv k w \<Longrightarrow> csma_wf c \<Longrightarrow> host_inv k (w\<lparr>cs := c\<rparr>)"
  by (erule host_inv_obtain, rule host_invI, erule drv_ok_cs)

lemma host_inv_qu: "host_inv k w \<Longrightarrow> (\<And>xs. queue_rep (qu w) xs \<Longrightarrow> \<exists>xs. queue_rep q xs) \<Longrightarrow> host_inv k (w\<lparr>qu := q\<rparr>)"
  unfolding host_inv_def by (metis drv_ok_qu drv_qu_eq)

lemma outcome_if: "(b \<Longrightarrow> outcome D Q m) \<Longrightarrow> (\<not> b \<Longrightarrow> outcome D Q n) \<Longrightarrow> outcome D Q (if b then m else n)"
  by simp

text \<open>Updates of the queue's timers.\<close>

lemma queue_rep_timers:
  assumes "queue_rep q xs" "q_heap q' = q_heap q" "q_brk q' = q_brk q" "q_head q' = q_head q" "q_tail q' = q_tail q"
    "queue_depth q' = queue_depth q"
  shows "queue_rep q' xs"
  using assms by (simp add: queue_rep_def queue_at_def)

lemma host_inv_timeouts: "host_inv k w \<Longrightarrow> host_inv k (queue_set_busy_timeout a b w)"
  unfolding queue_set_busy_timeout_def
  by (erule host_inv_qu, rule exI, erule queue_rep_timers) simp_all

subsection \<open>The operations the handlers use\<close>

lemma host_inv_encode: "host_inv k w \<Longrightarrow> length buf \<le> 511 \<Longrightarrow> gives (host_inv k) (kiss_encode E buf w)"
  by (rule host_inv_drv) (rule drv_encode)

lemma host_inv_modulation: "host_inv k w \<Longrightarrow> gives (host_inv k) (sx126x_set_lora_modulation E sf bw cr ldro w)"
  by (erule host_inv_obtain, rule gives_mono, erule drv_set_lora_modulation) (rule host_invI)

lemma host_inv_packet: "host_inv k w \<Longrightarrow> gives (host_inv k) (sx126x_set_lora_packet E h p n crc w)"
  by (erule host_inv_obtain, rule gives_mono, erule drv_set_lora_packet) (rule host_invI)

lemma host_inv_push: "host_inv k w \<Longrightarrow> gives (host_inv k) (queue_push E buf w)"
proof (erule host_inv_obtain)
  fix c q r sf cr bw pl e xs
  assume w: "drv_ok (k, c, q, r, (sf, cr, bw, pl), e) w" "csma_wf c" "queue_rep q xs" "rn_wf r"
  have "chan_ok (k, q, r, (sf, cr, bw, pl), e) w"
    using w by (auto simp: chan_ok_def drv_ok_def rest_def chan_rest_def simp del: drv_rn_eq)
  from queue_push_ok [OF this w(3), of E buf] obtain q' w' where "queue_push E buf w = Some w'"
      "chan_ok (k, q', r, (sf, cr, bw, pl), e) w'" "queue_rep q' (xs @ [buf])" by blast
  then show ?thesis
    using w(4) by (auto simp: chan_ok_def chan_rest_def rest_def intro!: host_invI simp del: drv_rn_eq)
qed

lemma host_inv_radio_params:
  assumes "host_inv k w"
  shows "outcome (unat sf \<le> 30) (host_inv k) (csma_update_radio_params sf (bw_to_hz b) w)"
proof -
  have b: "bw_to_hz b = bw_value b" by (cases b) simp_all
  consider "sf = 0" | "31 \<le> unat sf" | "sf \<noteq> 0" "unat sf \<le> 30" by linarith
  then show ?thesis
  proof cases
    case 3
    from csma_update_radio_params_cases(3) [OF this, of b w]
    obtain c where c: "csma_update_radio_params sf (bw_value b) w = Some (w\<lparr>cs := c\<rparr>)" "csma_wf (cs w) \<longrightarrow> csma_wf c"
      by blast
    with host_inv_cs [OF assms] host_inv_csma_wf [OF assms] show ?thesis by (simp add: b)
  qed (use assms csma_update_radio_params_cases in \<open>simp_all add: b\<close>)
qed

definition channel_reportable :: "csma_channel_t \<Rightarrow> bool" where
  "channel_reportable ch \<longleftrightarrow> stat_percent (airtime ch) \<noteq> None \<and> stat_percent (longterm_airtime ch) \<noteq> None
     \<and> stat_percent (total_channel_util ch) \<noteq> None \<and> stat_percent (longterm_channel_util ch) \<noteq> None"

subsection \<open>Starting the radio\<close>

definition sf_startable :: "u8 \<Rightarrow> bool" where
  "sf_startable sf \<longleftrightarrow> 1 \<le> uint sf \<and> uint sf \<le> 16"

text \<open>The invariant with the protocol state and what is known of the modem.\<close>

definition host_with :: "kiss_st \<Rightarrow> rnode_st \<Rightarrow> (modem \<Rightarrow> bool) \<Rightarrow> world \<Rightarrow> bool" where
  "host_with k r S w \<longleftrightarrow> (\<exists>c q m e xs. drv_ok (k, c, q, r, m, e) w \<and> csma_wf c \<and> queue_rep q xs \<and> rn_wf r \<and> S m)"

lemma host_withI:
  "drv_ok (k, c, q, r, m, e) w \<Longrightarrow> csma_wf c \<Longrightarrow> queue_rep q xs \<Longrightarrow> rn_wf r \<Longrightarrow> S m \<Longrightarrow> host_with k r S w"
  unfolding host_with_def by blast

lemma host_with_obtain:
  assumes "host_with k r S w"
  obtains c q sf cr bw pl e xs where "drv_ok (k, c, q, r, (sf, cr, bw, pl), e) w" "csma_wf c" "queue_rep q xs" "rn_wf r"
    "S (sf, cr, bw, pl)"
  using assms by (auto simp: host_with_def)

lemma host_with_rn: "host_with k r S w \<Longrightarrow> rn w = r"
  by (auto simp: host_with_def)

lemma host_with_inv: "host_with k r S w \<Longrightarrow> host_inv k w"
  by (auto simp: host_with_def intro: host_invI)

lemma host_inv_with: "host_inv k w \<Longrightarrow> host_with k (rn w) (\<lambda>m. True) w"
  by (erule host_inv_obtain) (simp, rule host_withI, simp_all)

lemma host_with_modem: "host_with k r S w \<Longrightarrow> S (modem (sx w))"
  by (erule host_with_obtain) (simp add: drv_modem)

lemma host_with_drv:
  assumes "\<And>R. drv_ok R w \<Longrightarrow> gives (drv_ok R) n" "host_with k r S w"
  shows "gives (host_with k r S) n"
  using assms(2)
  by (rule host_with_obtain) (rule gives_mono [OF assms(1)], assumption, rule host_withI)

lemma host_with_drvr:
  assumes "\<And>R. drv_ok R w \<Longrightarrow> givesr (drv_ok R) n" "host_with k r S w"
  shows "givesr (host_with k r S) n"
  using assms(2)
  by (rule host_with_obtain) (rule givesr_mono [OF assms(1)], assumption, rule host_withI)

lemma host_with_ops:
  assumes "host_with k r S w"
  shows "gives (host_with k r S) (sx126x_set_freq E x w)" "gives (host_with k r S) (sx126x_set_tx_power E db w)"
    "gives (host_with k r S) (sx126x_set_sync_word E y w)" "gives (host_with k r S) (sx126x_request E t w)"
    "givesr (host_with k r S) (sx126x_begin E w)"
  by (rule host_with_drv [OF _ assms] host_with_drvr [OF _ assms],
      erule drv_set_freq drv_set_tx_power drv_set_sync_word drv_request sx126x_begin_ok)+

lemma host_with_modulation:
  "host_with k r S w \<Longrightarrow> gives (host_with k r (\<lambda>m. \<exists>pl. m = (sf, cr_code cr + 4, bw_value bw, pl)))
     (sx126x_set_lora_modulation E sf bw cr ldro w)"
  by (erule host_with_obtain, rule gives_mono, erule drv_set_lora_modulation) (rule host_withI, auto)

lemma host_with_packet:
  "host_with k r (\<lambda>m. \<exists>pl. m = (sf, cr, bw, pl)) w \<Longrightarrow>
     gives (host_with k r (\<lambda>m. \<exists>pl. m = (sf, cr, bw, pl))) (sx126x_set_lora_packet E h p n crc w)"
  by (erule host_with_obtain, rule gives_mono, erule drv_set_lora_packet) (rule host_withI, auto)

lemma sf_startable_modem: "sf_startable sf \<Longrightarrow> modem_ok (sf, cr_code cr + 4, bw_value bw, pl)"
  by (cases cr) (auto simp: modem_ok_def sf_startable_def)

text \<open>
  The radio starts whenever the spreading factor is between 1 and 16, and reports an error to the
  host when the radio does not answer.
\<close>

lemma rnode_start_outcome:
  assumes "host_inv k w"
  shows "outcome (sf_startable (current_sf (rn w))) (host_inv k) (rnode_start E w)"
proof -
  define r where "r = rn w"
  define m where "m = (\<lambda>m :: modem. \<exists>pl. m = (current_sf r, cr_code (current_cr r) + 4, bw_value (current_bw r), pl))"
  have w: "host_with k r (\<lambda>m. True) w" unfolding r_def using assms by (rule host_inv_with)
  have last: "outcome (sf_startable (current_sf r)) (host_inv k) (do {
      (total, header_ms, data_ms) \<leftarrow> sx126x_air_time (sx w') 255;
      Some (queue_set_busy_timeout (header_ms * 3 div 2) (data_ms * 3 div 2) w') })" if "host_with k r m w'" for w'
  proof (rule outcome_value)
    assume "sf_startable (current_sf r)"
    then have "modem_ok (modem (sx w'))" using host_with_modem [OF that] by (auto simp: m_def sf_startable_modem)
    from air_time_modem_ok [OF this, of 255] show "sx126x_air_time (sx w') 255 \<noteq> None" by auto
  qed (use host_with_inv [OF that] in \<open>auto simp: host_inv_timeouts split: prod.split\<close>)
  show ?thesis
    unfolding rnode_start_def r_def [symmetric]
  proof (rule outcome_bindr [OF givesr_outcomer [OF host_with_ops(5) [OF w]]], unfold prod.case, rule outcome_if)
    fix w1 assume w1: "host_with k r (\<lambda>m. True) w1"
    show "outcome (sf_startable (current_sf r)) (host_inv k) (rnode_report_error E ERROR_INITRADIO w1)"
      using host_with_inv [OF w1] by (intro gives_outcome host_inv_drv [where w = w1]) (rule drv_ok_report_error)
    show "outcome (sf_startable (current_sf r)) (host_inv k) (do {
       w \<leftarrow> sx126x_set_freq E (ucast (current_freq (rn w1))) w1;
       w \<leftarrow> sx126x_set_tx_power E (current_tx_power (rn w)) w;
       w \<leftarrow> sx126x_set_lora_modulation E (current_sf (rn w)) (current_bw (rn w)) (current_cr (rn w)) LDRO_OFF w;
       w \<leftarrow> sx126x_set_lora_packet E (header_type (rn w)) (ucast (preamble_length (rn w))) 15 CRC_ON w;
       w \<leftarrow> sx126x_set_sync_word E 0x1424 w;
       w \<leftarrow> sx126x_request E RX_CONTINUOUS w;
       (total, header_ms, data_ms) \<leftarrow> sx126x_air_time (sx w) 255;
       Some (queue_set_busy_timeout (header_ms * 3 div 2) (data_ms * 3 div 2) w) })"
    proof (rule outcome_bind [OF gives_outcome [OF host_with_ops(1) [OF w1]]],
        rule outcome_bind [OF gives_outcome [OF host_with_ops(2)]], assumption,
        rule outcome_bind [where P = "host_with k r m"])
      fix w2 assume "host_with k r (\<lambda>m. True) w2"
      with host_with_modulation [OF this] show "outcome (sf_startable (current_sf r)) (host_with k r m)
          (sx126x_set_lora_modulation E (current_sf (rn w2)) (current_bw (rn w2)) (current_cr (rn w2)) LDRO_OFF w2)"
        unfolding m_def by (intro gives_outcome) (simp add: host_with_rn)
    next
      fix w3 assume w3: "host_with k r m w3"
      show "outcome (sf_startable (current_sf r)) (host_inv k) (do {
         w \<leftarrow> sx126x_set_lora_packet E (header_type (rn w3)) (ucast (preamble_length (rn w3))) 15 CRC_ON w3;
         w \<leftarrow> sx126x_set_sync_word E 0x1424 w;
         w \<leftarrow> sx126x_request E RX_CONTINUOUS w;
         (total, header_ms, data_ms) \<leftarrow> sx126x_air_time (sx w) 255;
         Some (queue_set_busy_timeout (header_ms * 3 div 2) (data_ms * 3 div 2) w) })"
        using host_with_packet w3 unfolding m_def
        by (intro outcome_bind [OF gives_outcome [OF host_with_packet]]
            outcome_bind [OF gives_outcome [OF host_with_ops(3)]]
            outcome_bind [OF gives_outcome [OF host_with_ops(4)]] last [unfolded m_def])
    qed
  qed
qed

subsection \<open>Reading the parameters\<close>

lemma param_reads:
  "length p = 1023 \<Longrightarrow> n < 1023 \<Longrightarrow> read_at p n = Some (p ! n)"
  "length p = 1023 \<Longrightarrow> param16 p = Some (of_be16 (p ! 0) (p ! 1))"
  "length p = 1023 \<Longrightarrow> param32 p = (if p ! 0 < 0x80 then Some (of_be32 (p ! 0) (p ! 1) (p ! 2) (p ! 3)) else None)"
  by (simp_all add: read_at_def param16_def param32_def)

lemma rn_wf_updates [simp]:
  "rn_wf r \<Longrightarrow> rn_wf (r\<lparr>current_freq := x1\<rparr>)" "rn_wf r \<Longrightarrow> rn_wf (r\<lparr>current_bw := x2\<rparr>)"
  "rn_wf r \<Longrightarrow> rn_wf (r\<lparr>current_tx_power := x3\<rparr>)" "rn_wf r \<Longrightarrow> rn_wf (r\<lparr>current_sf := x3\<rparr>)"
  "rn_wf r \<Longrightarrow> rn_wf (r\<lparr>current_cr := x4\<rparr>)" "rn_wf r \<Longrightarrow> rn_wf (r\<lparr>radio_online := b\<rparr>)"
  "rn_wf r \<Longrightarrow> rn_wf (r\<lparr>rssi_offset := x3\<rparr>)" "rn_wf r \<Longrightarrow> rn_wf (r\<lparr>preamble_length := x5\<rparr>)"
  "rn_wf r \<Longrightarrow> rn_wf (r\<lparr>header_implicit := b\<rparr>)" "rn_wf r \<Longrightarrow> rn_wf (r\<lparr>promisc := b\<rparr>)"
  "rn_wf r \<Longrightarrow> rn_wf (r\<lparr>st_airtime_limit := x6\<rparr>)" "rn_wf r \<Longrightarrow> rn_wf (r\<lparr>lt_airtime_limit := x6\<rparr>)"
  "rn_wf r \<Longrightarrow> rn_wf (r\<lparr>stat_rx := x1\<rparr>)" "rn_wf r \<Longrightarrow> rn_wf (r\<lparr>stat_tx := x1\<rparr>)"
  "rn_wf r \<Longrightarrow> length h = 32 \<Longrightarrow> rn_wf (r\<lparr>dev_hash := h, dev_hash_ready := b\<rparr>)"
  by (simp_all add: rn_wf_def)

lemma rn_mode_updates [simp]:
  "rn_mode (r\<lparr>current_freq := x1\<rparr>) = rn_mode r" "rn_mode (r\<lparr>current_bw := x2\<rparr>) = rn_mode r"
  "rn_mode (r\<lparr>current_tx_power := x3\<rparr>) = rn_mode r" "rn_mode (r\<lparr>current_cr := x4\<rparr>) = rn_mode r"
  "rn_mode (r\<lparr>radio_online := b\<rparr>) = rn_mode r" "rn_mode (r\<lparr>rssi_offset := x3\<rparr>) = rn_mode r"
  "rn_mode (r\<lparr>preamble_length := x5\<rparr>) = rn_mode r" "rn_mode (r\<lparr>header_implicit := b\<rparr>) = rn_mode r"
  "rn_mode (r\<lparr>st_airtime_limit := x6\<rparr>) = rn_mode r" "rn_mode (r\<lparr>lt_airtime_limit := x6\<rparr>) = rn_mode r"
  "rn_mode (r\<lparr>dev_hash := h, dev_hash_ready := b\<rparr>) = rn_mode r"
  by (simp_all add: rn_mode_def)

lemma upd_rn_rn [simp]: "rn (upd_rn f w) = f (rn w)"
  by (simp add: upd_rn_def)

text \<open>A limit is a share from 0 up to 1, so its echo is always defined.\<close>

lemma alock_limit_range: "fin_le 1 (alock_limit x)"
proof -
  define u :: rat where "u = of_nat (unat x) / 10000"
  have b: "of_nat (unat x) \<le> (of_nat 65535 :: rat)" "0 \<le> (of_nat (unat x) :: rat)"
    using unat_u16 [of x] by (simp_all only: of_nat_le_iff of_nat_0_le_iff)
  then have u: "0 \<le> u" "u \<le> of_nat 7" by (simp_all add: u_def)
  obtain y where y: "f64 u = Fin y" "0 \<le> y" "y \<le> 7" using fin_le_f64 [OF u] by (auto simp: fin_le_def)
  then obtain z where z: "f32 y = Fin z" "0 \<le> z" using fin_le_f32_nat [of y 7] by (auto simp: fin_le_def)
  have "fl x = Fin (of_nat (unat x))" using f32_of_nat [of "unat x"] unat_u16 [of x] by (simp add: fl_def)
  then have "f_cast f32 (f_div f64 (fl x) (Fin 10000)) = Fin z" using y(1) z(1) by (simp add: u_def)
  then show ?thesis using z(2) by (auto simp: alock_limit_def fin_le_def f_le_def f_eq_def)
qed

subsection \<open>Where a command is defined\<close>

text \<open>Where a command is sure to be defined, given its parameter bytes.\<close>

definition cmd_defined :: "u8 \<Rightarrow> u8 list \<Rightarrow> world \<Rightarrow> bool" where
  "cmd_defined cmd p w =
     (if cmd = CMD_FREQUENCY then p ! 0 < 0x80
      else if cmd = CMD_BANDWIDTH then p ! 0 < 0x80 \<and> unat (current_sf (rn w)) \<le> 30
      else if cmd = CMD_SF then unat (if p ! 0 \<noteq> 0 then p ! 0 else current_sf (rn w)) \<le> 30
      else if cmd = CMD_RADIO_STATE then p ! 0 = 0x01 \<longrightarrow> sf_startable (current_sf (rn w))
      else if cmd = CMD_RESET then p ! 0 = CMD_RESET_BYTE \<longrightarrow> sf_startable (current_sf (rn w))
      else if cmd = CMD_STAT_CHTM then channel_reportable (channel (cs w))
      else if cmd = CMD_STAT_PHYPRM then f_to_u16 (f_mul f32 (lora_symbol_time_ms (cs w)) (Fin 1000)) \<noteq> None
        \<and> f_to_u16 (lora_symbol_rate (cs w)) \<noteq> None
      else True)"

text \<open>
  What a command asks of an invariant that speaks of the protocol state by \<open>R\<close> and of the packets of the queue by
  \<open>K\<close>: a packet for the queue, and the two commands that change the mode of sending.
\<close>

definition cmd_allowed :: "(rnode_st \<Rightarrow> bool) \<Rightarrow> (u8 list \<Rightarrow> bool) \<Rightarrow> u8 \<Rightarrow> u8 list \<Rightarrow> nat \<Rightarrow> world \<Rightarrow> bool" where
  "cmd_allowed R K cmd p n w =
     (if cmd = CMD_DATA then K (take n p)
      else if cmd = CMD_SF then p ! 0 \<noteq> 0 \<longrightarrow> R ((rn w)\<lparr>current_sf := p ! 0\<rparr>)
      else if cmd = CMD_PROMISC then R ((rn w)\<lparr>promisc := (p ! 0 \<noteq> 0)\<rparr>)
      else True)"

subsection \<open>The interface of an invariant, and every command\<close>

text \<open>
  \<open>J k\<close> is an invariant with the decoder state \<open>k\<close>: it is kept by the driver, by the updates of the protocol
  state that satisfy \<open>R\<close>, and by the operations the handlers call. Then every handler keeps it. The interface is
  provided by the weakest invariant, \<open>host_inv\<close>, and by the stronger one under which nothing is undefined.
\<close>

locale command_layer =
  fixes J :: "kiss_st \<Rightarrow> world \<Rightarrow> bool" and R :: "rnode_st \<Rightarrow> bool" and K :: "u8 list \<Rightarrow> bool"
  assumes some_drv: "J k w \<Longrightarrow> \<exists>S. drv_ok S w"
    and decoder: "J k w \<Longrightarrow> kiss_in w = k"
    and drv: "(\<And>S. drv_ok S w \<Longrightarrow> gives (drv_ok S) n) \<Longrightarrow> J k w \<Longrightarrow> gives (J k) n"
    and protocol: "J k w \<Longrightarrow> R (rn w)"
    and protocol_wf: "R r \<Longrightarrow> rn_wf r"
    and protocol_same: "R r \<Longrightarrow> rn_wf r' \<Longrightarrow> rn_mode r' = rn_mode r \<Longrightarrow> R r'"
    and set_protocol: "J k w \<Longrightarrow> R r \<Longrightarrow> J k (w\<lparr>rn := r\<rparr>)"
    and set_decoder: "J k w \<Longrightarrow> J k' (w\<lparr>kiss_in := k'\<rparr>)"
    and modulation: "J k w \<Longrightarrow> gives (J k) (sx126x_set_lora_modulation E (current_sf (rn w)) bw cr ldro w)"
    and packet: "J k w \<Longrightarrow> gives (J k) (sx126x_set_lora_packet E h p m crc w)"
    and push: "J k w \<Longrightarrow> K buf \<Longrightarrow> gives (J k) (queue_push E buf w)"
    and params: "J k w \<Longrightarrow> outcome (unat sf \<le> 30) (J k) (csma_update_radio_params sf (bw_to_hz b) w)"
    and start: "J k w \<Longrightarrow> outcome (sf_startable (current_sf (rn w))) (J k) (rnode_start E w)"
begin

lemma step_next [simp]: "J k w \<Longrightarrow> J k (next_read w)"
  using drv [of w "Some (next_read w)" k] by simp

lemma answer: "J k w \<Longrightarrow> length buf \<le> 511 \<Longrightarrow> gives (J k) (kiss_encode E buf w)"
  by (rule drv) (rule drv_encode)

lemma answer_eq: "J k w \<Longrightarrow> length buf \<le> 511 \<Longrightarrow> kiss_encode E buf w = Some (host_send E buf w) \<and> J k (host_send E buf w)"
proof -
  assume j: "J k w" and l: "length buf \<le> 511"
  obtain S where "drv_ok S w" using some_drv [OF j] by blast
  then have "kiss_encode E buf w = Some (host_send E buf w)" using l by (simp add: kiss_encode_short drv_ok_def)
  with answer [OF j l, of E] show ?thesis by simp
qed

lemma error_report: "J k w \<Longrightarrow> gives (J k) (rnode_report_error E c w)"
  by (simp add: rnode_report_error_def answer)

lemma protocol_update: "J k w \<Longrightarrow> R (g (rn w)) \<Longrightarrow> J k (upd_rn g w)"
  unfolding upd_rn_def by (rule set_protocol)

lemma protocol_setting: "J k w \<Longrightarrow> (rn_wf (rn w) \<Longrightarrow> rn_wf (g (rn w))) \<Longrightarrow> rn_mode (g (rn w)) = rn_mode (rn w) \<Longrightarrow> J k (upd_rn g w)"
  using protocol_update protocol protocol_wf protocol_same by blast

lemma frequency: "J k w \<Longrightarrow> gives (J k) (sx126x_set_freq E x w)"
  and tx_power: "J k w \<Longrightarrow> gives (J k) (sx126x_set_tx_power E db w)"
  by (rule drv, erule drv_set_freq drv_set_tx_power, assumption)+

lemma applied: "J k w \<Longrightarrow> gives (J k) (apply_modulation E w)" "J k w \<Longrightarrow> gives (J k) (apply_packet E w)"
  by (simp_all add: apply_modulation_def apply_packet_def modulation packet)

lemma channel_report: "J k w \<Longrightarrow> outcome (channel_reportable ch) (J k) (rnode_send_stat_channel E ch w)"
  unfolding rnode_send_stat_channel_def Let_def channel_reportable_def
  by (intro outcome_value gives_outcome answer) auto

text \<open>The rules that chain through a handler.\<close>

lemmas chain = outcome_bind [where P = "J k" and Q = "J k" for k] outcome_value outcome_if
  gives_outcome answer applied frequency tx_power protocol_setting

lemma constant_answers:
  assumes "J k w"
  shows "gives (J k) (ans_detect E p w)" "gives (J k) (ans_fw_version E p w)"
    "gives (J k) (ans_board E p w)" "gives (J k) (ans_platform E p w)"
    "gives (J k) (ans_mcu E p w)" "gives (J k) (ans_radio_lock E p w)"
    "gives (J k) (ans_stat_bat E p w)" "gives (J k) (ans_stat_queue E p w)"
    "gives (J k) (ans_ready E p w)" "gives (J k) (ans_stat_rx E p w)"
    "gives (J k) (ans_stat_tx E p w)" "gives (J k) (ans_random E p w)"
  unfolding ans_detect_def ans_fw_version_def ans_board_def ans_platform_def ans_mcu_def ans_radio_lock_def
    ans_stat_bat_def ans_stat_queue_def ans_ready_def ans_stat_rx_def ans_stat_tx_def ans_random_def
  using assms by (simp_all add: answer)

lemma frequency_answer: "J k w \<Longrightarrow> length p = 1023 \<Longrightarrow> outcome (p ! 0 < 0x80) (J k) (ans_frequency E p w)"
  unfolding ans_frequency_def Let_def
  by (intro chain) (simp_all add: param_reads protocol_setting)

text \<open>The common end of the bandwidth and the spreading factor handler.\<close>

lemma config_tail:
  assumes w: "J k w" and buf: "length buf \<le> 511"
  shows "outcome (unat (current_sf (rn w)) \<le> 30) (J k) (do {
     w \<leftarrow> kiss_encode E buf w;
     w \<leftarrow> csma_update_radio_params (current_sf (rn w)) (bw_to_hz (current_bw (rn w))) w;
     apply_modulation E w })"
proof -
  have e: "kiss_encode E buf w = Some (host_send E buf w)" "J k (host_send E buf w)" using answer_eq [OF w buf, of E] by simp_all
  show ?thesis
    unfolding e(1) bind.bind_lunit host_send_frame
    by (rule outcome_bind [OF params [OF e(2)]]) (rule gives_outcome [OF applied(1)])
qed

lemma bandwidth_answer:
  assumes "J k w" "length p = 1023"
  shows "outcome (p ! 0 < 0x80 \<and> unat (current_sf (rn w)) \<le> 30) (J k) (ans_bandwidth E p w)"
proof (cases "p ! 0 < 0x80")
  case True
  then obtain v where v: "param32 p = Some v" using assms(2) by (simp add: param_reads)
  define w1 where "w1 = (case bw_of_hz v of Some b \<Rightarrow> upd_rn (\<lambda>r. r\<lparr>current_bw := b\<rparr>) w | None \<Rightarrow> w)"
  have "J k w1" "current_sf (rn w1) = current_sf (rn w)"
    unfolding w1_def using assms(1) by (auto intro: protocol_setting split: option.split)
  with config_tail [OF this(1), of "CMD_BANDWIDTH # be32 (bw_to_hz (current_bw (rn w1)))" E] show ?thesis
    using True by (simp add: ans_bandwidth_def v w1_def [symmetric] Let_def)
qed (use assms(2) in \<open>simp add: ans_bandwidth_def param_reads\<close>)

lemma sf_answer:
  assumes "J k w" "length p = 1023" "p ! 0 \<noteq> 0 \<longrightarrow> R ((rn w)\<lparr>current_sf := p ! 0\<rparr>)"
  shows "outcome (unat (if p ! 0 \<noteq> 0 then p ! 0 else current_sf (rn w)) \<le> 30) (J k) (ans_sf E p w)"
proof -
  define w1 where "w1 = (if p ! 0 \<noteq> 0 then upd_rn (\<lambda>r. r\<lparr>current_sf := p ! 0\<rparr>) w else w)"
  have "J k w1" "current_sf (rn w1) = (if p ! 0 \<noteq> 0 then p ! 0 else current_sf (rn w))"
    unfolding w1_def using assms(1,3) by (auto intro: protocol_update)
  with config_tail [OF this(1), of "[CMD_SF, current_sf (rn w1)]" E] show ?thesis
    using assms(2) by (simp add: ans_sf_def param_reads w1_def [symmetric] Let_def del: if_image_distrib)
qed

lemma radio_answers:
  assumes "J k w" "length p = 1023"
  shows "gives (J k) (ans_txpower E p w)" "gives (J k) (ans_cr E p w)"
    "gives (J k) (ans_rssi_offset E p w)" "gives (J k) (ans_preamble E p w)"
    "gives (J k) (ans_implicit E p w)"
  unfolding ans_txpower_def ans_cr_def ans_rssi_offset_def ans_preamble_def ans_implicit_def Let_def outcome_True [symmetric]
  using assms by (intro chain; simp add: param_reads protocol_setting split: option.split)+

lemma promisc_answer:
  "J k w \<Longrightarrow> length p = 1023 \<Longrightarrow> R ((rn w)\<lparr>promisc := (p ! 0 \<noteq> 0)\<rparr>) \<Longrightarrow> gives (J k) (ans_promisc E p w)"
  by (simp add: ans_promisc_def param_reads answer protocol_update)

lemma radio_state_answer:
  assumes "J k w" "length p = 1023"
  shows "outcome (p ! 0 = 0x01 \<longrightarrow> sf_startable (current_sf (rn w))) (J k) (ans_radio_state E p w)"
proof -
  have "outcome (p ! 0 = 0x01 \<longrightarrow> sf_startable (current_sf (rn w))) (J k)
      (do { w \<leftarrow> rnode_start E w; Some (upd_rn (\<lambda>r. r\<lparr>radio_online := True\<rparr>) w) })" if "p ! 0 = 0x01"
    using that start [OF assms(1)] by (intro outcome_bind [where P = "J k"]) (simp_all add: protocol_setting)
  then show ?thesis
    unfolding ans_radio_state_def Let_def using assms
    by (intro outcome_bind [where P = "J k"] outcome_value)
       (auto simp: param_reads protocol_setting intro: gives_outcome [OF answer])
qed

lemma reset_answer:
  assumes "J k w" "length p = 1023"
  shows "outcome (p ! 0 = CMD_RESET_BYTE \<longrightarrow> sf_startable (current_sf (rn w))) (J k) (ans_reset E p w)"
  unfolding ans_reset_def using assms start [OF assms(1)]
  by (auto simp: param_reads intro!: outcome_bind [where P = "J k"] gives_outcome [OF answer])

lemma limit_answers:
  assumes "J k w" "length p = 1023"
  shows "gives (J k) (ans_st_alock E p w)" "gives (J k) (ans_lt_alock E p w)"
  unfolding ans_st_alock_def ans_lt_alock_def Let_def outcome_True [symmetric]
  using assms stat_percent_defined [OF fin_le_mono [OF alock_limit_range, of 6]]
  by (intro outcome_bind [where P = "J k"] outcome_value gives_outcome [OF answer];
      auto simp: param_reads intro: protocol_setting)+

lemma report_answers:
  assumes "J k w"
  shows "outcome (f_to_u16 (f_mul f32 (lora_symbol_time_ms (cs w)) (Fin 1000)) \<noteq> None \<and> f_to_u16 (lora_symbol_rate (cs w)) \<noteq> None)
     (J k) (ans_stat_phyprm E p w)"
    and "outcome (channel_reportable (channel (cs w))) (J k) (ans_stat_chtm E p w)"
  unfolding ans_stat_phyprm_def csma_get_phy_params_def Let_def prod.case ans_stat_chtm_def csma_get_channel_def using assms
  by (intro outcome_value gives_outcome [OF answer] channel_report; auto)+

lemma hash_answer:
  assumes "J k w"
  shows "gives (J k) (ans_dev_hash E p w)"
proof -
  have "gives (J k) (compute_dev_hash E w)"
    using assms by (simp add: compute_dev_hash_def sha256_compute_fips length_fips_sha256 protocol_setting)
  then show ?thesis
    unfolding ans_dev_hash_def outcome_True [symmetric] using assms
    by (intro outcome_bind [where P = "J k"] gives_outcome [OF answer]) auto
qed

lemma all_handlers:
  assumes "J k w" "length p = 1023" "n \<le> 1023"
  shows "list_all (\<lambda>(cmd, h). cmd_allowed R K cmd p n w \<longrightarrow> outcome (cmd_defined cmd p w) (J k) (h w)) (handlers E p n)"
  using assms constant_answers [OF assms(1), of E p] radio_answers [OF assms(1,2), of E] promisc_answer [OF assms(1,2), of E]
    frequency_answer [OF assms(1,2), of E] bandwidth_answer [OF assms(1,2), of E] sf_answer [OF assms(1,2), of E]
    radio_state_answer [OF assms(1,2), of E] reset_answer [OF assms(1,2), of E] limit_answers [OF assms(1,2), of E]
    report_answers [OF assms(1), of E p] hash_answer [OF assms(1), of E p] push [OF assms(1), of "take n p" E]
  by (simp add: handlers_def cmd_defined_def cmd_allowed_def hash_cmds_def ignored_cmds_def)

text \<open>Every command, known or not, keeps the invariant when it is allowed, and is defined under \<open>cmd_defined\<close>.\<close>

lemma dispatch:
  assumes "J k w" "length buf = MTU" "0 < len" "len < MTU" "cmd_allowed R K (hd buf) (tl buf) (len - 1) w"
  shows "outcome (cmd_defined (hd buf) (tl buf) w) (J k) (rnode_from_channel E buf len w)"
proof -
  obtain cmd p where buf: "buf = cmd # p" "length p = 1023" using assms(2) by (cases buf) auto
  have h: "list_all (\<lambda>(cmd, h). cmd_allowed R K cmd p (len - 1) w \<longrightarrow> outcome (cmd_defined cmd p w) (J k) (h w)) (handlers E p (len - 1))"
    using all_handlers [OF assms(1) buf(2), of "len - 1" E] assms(4) by simp
  show ?thesis
  proof (cases "map_of (handlers E p (len - 1)) cmd")
    case None
    then show ?thesis
      using assms(3) error_report [OF assms(1), of E] buf(1)
      by (simp add: rnode_from_channel_def gives_outcome)
  next
    case (Some f)
    with h assms(5) have "outcome (cmd_defined cmd p w) (J k) (f w)"
      by (auto simp: buf(1) list_all_iff dest: map_of_SomeD)
    with Some assms(3) buf(1) show ?thesis by (simp add: rnode_from_channel_def)
  qed
qed

end

subsection \<open>The weakest invariant\<close>

lemma host_inv_kiss_in: "host_inv k w \<Longrightarrow> kiss_in w = k"
  by (auto simp: host_inv_def drv_ok_def rest_def simp del: drv_rn_eq)

lemma host_inv_kiss: "host_inv k w \<Longrightarrow> host_inv k' (w\<lparr>kiss_in := k'\<rparr>)"
  by (erule host_inv_obtain, rule host_invI, erule drv_ok_kiss)

interpretation hc: command_layer host_inv rn_wf "\<lambda>buf. True"
proof unfold_locales
  show "\<exists>S. drv_ok S w" if "host_inv k w" for k w using that by (rule host_inv_obtain) (rule exI)
  show "host_inv k (w\<lparr>rn := r\<rparr>)" if "host_inv k w" "rn_wf r" for k w r
    using host_inv_upd_rn [of k w "\<lambda>x. r"] that by (simp add: upd_rn_def)
  show "gives (host_inv k) n" if "\<And>S. drv_ok S w \<Longrightarrow> gives (drv_ok S) n" "host_inv k w" for k w n
    using that by (rule host_inv_drv)
qed (simp_all add: host_inv_rn_wf host_inv_kiss host_inv_kiss_in host_inv_modulation host_inv_packet host_inv_push
  host_inv_radio_params rnode_start_outcome)

lemma report_error_ok: "host_inv k w \<Longrightarrow> gives (host_inv k) (rnode_report_error E c w)"
  by (rule hc.error_report)

lemma host_allowed: "host_inv k w \<Longrightarrow> cmd_allowed rn_wf (\<lambda>buf. True) cmd p n w"
  by (simp add: cmd_allowed_def host_inv_rn_wf)

lemma rnode_from_channel_outcome:
  "host_inv k w \<Longrightarrow> length buf = MTU \<Longrightarrow> 0 < len \<Longrightarrow> len < MTU \<Longrightarrow>
     outcome (cmd_defined (hd buf) (tl buf) w) (host_inv k) (rnode_from_channel E buf len w)"
  by (rule hc.dispatch) (simp_all add: host_allowed)

end
