(* ===== verification/HostFacts.thy ===== *)
theory HostFacts
  imports HostInv
begin

section \<open>What the host is told\<close>

text \<open>
  Functional facts about the commands: the settings that survive an echo and those that do not, the
  device hash of a machine id, and two commands whose answer does not say what happened.
\<close>

subsection \<open>Settings\<close>

lemma bw_of_hz_roundtrip: "bw_of_hz (bw_to_hz b) = Some b"
  by (cases b) (simp_all add: bw_of_hz_def)

lemma bw_of_hz_inj: "bw_of_hz x = Some b \<Longrightarrow> bw_to_hz b = x"
  by (auto simp: bw_of_hz_def split: if_splits)

lemma cr_of_byte_roundtrip: "cr_of_byte (byte_of_cr c) = Some c"
  by (cases c) (simp_all add: cr_of_byte_def)

lemma cr_of_byte_inj: "cr_of_byte x = Some c \<Longrightarrow> byte_of_cr c = x"
  by (auto simp: cr_of_byte_def split: if_splits)

lemma bw_to_hz_value: "bw_to_hz b = bw_value b"
  by (cases b) simp_all

text \<open>With the radio off a setting is stored and echoed, and nothing else changes.\<close>

lemma param32_bytes:
  assumes "byte_at 24 x < 0x80"
  shows "param32 (be32 x @ p) = Some x"
  using assms by (simp add: param32_def be32_def read_at_def)

lemma kiss_encode_answer: "host_inv k w \<Longrightarrow> length buf \<le> 511 \<Longrightarrow> kiss_encode E buf w = Some (host_send E buf w)"
  by (rule kiss_encode_short) (auto simp: host_inv_def drv_ok_def)

lemma ans_frequency_offline:
  assumes "host_inv k w" "\<not> radio_online (rn w)" "byte_at 24 f < 0x80" "f \<noteq> 0"
  shows "ans_frequency E (be32 f @ p) w =
     Some (host_send E (CMD_FREQUENCY # be32 f) (upd_rn (\<lambda>r. r\<lparr>current_freq := f\<rparr>) w))"
proof -
  have "host_inv k (upd_rn (\<lambda>r. r\<lparr>current_freq := f\<rparr>) w)" using assms(1) by (rule host_inv_upd_rn) simp
  from kiss_encode_answer [OF this, of "CMD_FREQUENCY # be32 f" E] show ?thesis
    using assms(2-) by (simp add: ans_frequency_def param32_bytes)
qed

subsection \<open>The air time locks\<close>

text \<open>
  The share is kept as a \<^verbatim>\<open>float\<close> and truncated for the echo, so some hundredths come back one lower:
  53 is one of them.
\<close>

lemma alock_echo_53: "stat_percent (alock_limit 53) = Some 52"
  by (simp add: stat_percent_def alock_limit_def fl_def fround_eval f_le_def f_eq_def f_to_u16_def rtrunc_def)

subsection \<open>The device hash\<close>

text \<open>Lower case hexadecimal, as in \<^verbatim>\<open>/etc/machine-id\<close>.\<close>

definition hex_digit :: "nat \<Rightarrow> u8" where
  "hex_digit n = (if n < 10 then 48 + of_nat n else 87 + of_nat n)"

definition hex2 :: "u8 \<Rightarrow> u8 list" where
  "hex2 b = [hex_digit (unat b div 16), hex_digit (unat b mod 16)]"

lemma hex_digit_facts:
  assumes "n < 16"
  shows "hex_val (hex_digit n) = Some (of_nat n)" "\<not> c_space (hex_digit n)" "hex_digit n \<noteq> 43" "hex_digit n \<noteq> 45" "hex_digit n \<noteq> 0"
proof -
  have "n \<in> {0, 1, 2, 3, 4, 5, 6, 7, 8, 9, 10, 11, 12, 13, 14, 15}" using assms by (simp, presburger)
  then have "hex_val (hex_digit n) = Some (of_nat n) \<and> \<not> c_space (hex_digit n) \<and> hex_digit n \<noteq> 43 \<and> hex_digit n \<noteq> 45 \<and> hex_digit n \<noteq> 0"
    unfolding insert_iff empty_iff by (elim disjE) (simp_all add: hex_digit_def hex_val_def c_space_def)
  then show "hex_val (hex_digit n) = Some (of_nat n)" "\<not> c_space (hex_digit n)" "hex_digit n \<noteq> 43" "hex_digit n \<noteq> 45" "hex_digit n \<noteq> 0"
    by simp_all
qed

lemma nibbles: "unat (b :: u8) div 16 < 16" "unat b mod 16 < 16"
  "16 * of_nat (unat b div 16) + of_nat (unat b mod 16) = b"
proof -
  show "unat b div 16 < 16" using unat_u8 [of b] by (simp add: div_less_iff_less_mult)
  have "16 * of_nat (unat b div 16) + of_nat (unat b mod 16) = (of_nat (16 * (unat b div 16) + unat b mod 16) :: u8)"
    by (simp only: of_nat_add of_nat_mult of_nat_numeral)
  also have "\<dots> = b" by (simp only: mult_div_mod_eq) simp
  finally show "16 * of_nat (unat b div 16) + of_nat (unat b mod 16) = b" .
qed simp

lemma scan_hex2_hex2: "scan_hex2 (hex2 b @ s) = Some b"
  using hex_digit_facts [OF nibbles(1) [of b]] hex_digit_facts [OF nibbles(2) [of b]] nibbles(3) [of b]
  by (simp add: scan_hex2_def hex2_def Let_def)

lemma length_hex: "length (concat (map hex2 bs)) = 2 * length bs"
  by (induction bs) (simp_all add: hex2_def)

lemma hex_nonzero: "0 \<notin> set (concat (map hex2 bs))"
  using hex_digit_facts(5) nibbles(1,2) by (fastforce simp: hex2_def)

lemma drop_hex: "drop (2 * i) (concat (map hex2 bs)) = concat (map hex2 (drop i bs))"
proof (induction i arbitrary: bs)
  case (Suc i)
  then show ?case by (cases bs) (simp_all add: hex2_def)
qed simp

lemma parse_machine_id_hex:
  assumes "length bs = 16"
  shows "parse_machine_id (Some (concat (map hex2 bs) @ tail)) = bs"
proof -
  have "take 32 (concat (map hex2 bs) @ tail) = concat (map hex2 bs)"
    using assms by (simp add: length_hex)
  moreover have "scan_hex2 (takeWhile (\<lambda>c. c \<noteq> 0) (drop (2 * i) (concat (map hex2 bs)))) = Some (bs ! i)" if "i < 16" for i
  proof -
    have "takeWhile (\<lambda>c. c \<noteq> 0) (concat (map hex2 (drop i bs))) = concat (map hex2 (drop i bs))"
      using hex_nonzero [of "drop i bs"] by (intro takeWhile_eq_all_conv [THEN iffD2]) metis
    moreover have "drop i bs = bs ! i # drop (Suc i) bs" using that assms by (simp add: Cons_nth_drop_Suc)
    ultimately show ?thesis by (simp only: drop_hex) (simp add: scan_hex2_hex2)
  qed
  ultimately have "parse_machine_id (Some (concat (map hex2 bs) @ tail)) = map (\<lambda>i. bs ! i) [0..<16]"
    using assms by (simp add: parse_machine_id_def length_hex)
  also have "\<dots> = bs" using assms by (metis map_nth)
  finally show ?thesis .
qed

lemma compute_dev_hash_id:
  assumes "machine_id_file E = Some (concat (map hex2 bs) @ tail)" "length bs = 16"
  shows "compute_dev_hash E w = Some (upd_rn (\<lambda>r. r\<lparr>dev_hash := fips_sha256 bs, dev_hash_ready := True\<rparr>) w)"
  using assms by (simp add: compute_dev_hash_def parse_machine_id_hex sha256_compute_fips)

subsection \<open>Answers that do not say what happened\<close>

text \<open>A start that fails is followed by the answer that the radio is on, and the state says so too.\<close>

lemma radio_state_after_failure:
  assumes w: "host_inv k w" and fail: "sx126x_begin E w = Some (False, w1)"
  shows "\<exists>w'. ans_radio_state E (0x01 # p) w = Some w' \<and> radio_online (rn w')
    \<and> w' = host_send E [CMD_RADIO_STATE, 0x01] (upd_rn (\<lambda>r. r\<lparr>radio_online := True\<rparr>)
        (host_send E [CMD_ERROR, ERROR_INITRADIO] w1))"
proof -
  have w1: "host_inv k w1"
  proof -
    have "givesr (host_inv k) (sx126x_begin E w)" using w by (rule host_inv_drvr [rotated]) (rule sx126x_begin_ok)
    then show ?thesis using fail by (simp add: givesr_def)
  qed
  have e: "rnode_start E w = Some (host_send E [CMD_ERROR, ERROR_INITRADIO] w1)"
    using fail kiss_encode_answer [OF w1, of "[CMD_ERROR, ERROR_INITRADIO]" E]
    by (simp add: rnode_start_def rnode_report_error_def)
  have "host_inv k (host_send E [CMD_ERROR, ERROR_INITRADIO] w1)"
    using report_error_ok [OF w1, of E ERROR_INITRADIO] kiss_encode_answer [OF w1, of "[CMD_ERROR, ERROR_INITRADIO]" E]
    by (simp add: rnode_report_error_def)
  then have "host_inv k (upd_rn (\<lambda>r. r\<lparr>radio_online := True\<rparr>) (host_send E [CMD_ERROR, ERROR_INITRADIO] w1))"
    by (rule host_inv_upd_rn) simp
  from kiss_encode_answer [OF this, of "[CMD_RADIO_STATE, 0x01]" E] e show ?thesis
    by (simp add: ans_radio_state_def read_at_def flag_byte_def)
qed

end
