(* ===== verification/RadioStart.thy ===== *)
theory RadioStart
  imports DriverSpec HostFacts
begin

section \<open>Starting the radio\<close>

text \<open>
  The start of the radio as a program of SPI messages: on an idle bus, a start that succeeds sends
  the list \<open>start_program\<close>, which is a function of the settings alone. Without a spreading factor the
  start ends in the division by zero of the air time.
\<close>

subsection \<open>What one operation sends\<close>

text \<open>\<open>ran w ms w'\<close>: the messages \<open>ms\<close> were written; the protocol state, the length of the last packet and the
  modem settings are untouched.\<close>

definition ran :: "world \<Rightarrow> u8 list list \<Rightarrow> world \<Rightarrow> bool" where
  "ran w ms w' \<longleftrightarrow> wrote w ms w' \<and> rn w' = rn w \<and> payload_tx_rx (sx w') = payload_tx_rx (sx w) \<and> modem (sx w') = modem (sx w)
     \<and> save_header_type (sx w') = save_header_type (sx w) \<and> save_crc (sx w') = save_crc (sx w)"

lemma bus_simps [simp]:
  "spi_writes (trace (snd (write_bytes E m w))) = spi_writes (trace w) @ [m]"
  "rn (snd (write_bytes E m w)) = rn w" "sx (snd (write_bytes E m w)) = sx w"
  "spi_writes (trace (snd (sx126x_get_status_mode E w))) = spi_writes (trace w)"
  "rn (snd (sx126x_get_status_mode E w)) = rn w" "sx (snd (sx126x_get_status_mode E w)) = sx w"
  by (simp_all add: write_bytes_def sx126x_get_status_mode_def read_bytes_def Let_def)

lemma ant_simps [simp]:
  "spi_writes (trace (switch_ant w)) = spi_writes (trace w)" "rn (switch_ant w) = rn w" "sx (switch_ant w) = sx w"
  by (cases "radio_state (sx w)"; simp add: switch_ant_def set_pin_def Let_def)+

lemmas ran_defs = ran_def wrote_def wait_idle Let_def case_prod_unfold modem_def

lemma ran_trans: "ran w xs w1 \<Longrightarrow> ran w1 ys w2 \<Longrightarrow> ran w (xs @ ys) w2"
  by (simp add: ran_def wrote_def)

lemma high_byte_u8 [simp]: "byte_at 8 (ucast (p :: u8) :: u32) = 0"
  by (rule bit_word_eqI) (auto simp: byte_at_def bit_simps dest: bit_imp_le_length)

lemma ran_set_freq:
  "radio_idle E \<Longrightarrow> \<exists>w'. sx126x_set_freq E x w = Some w' \<and> ran w
    [[0x98, fst (cal_band x), snd (cal_band x)],
     [0x86, byte_at 24 (freq_word x), byte_at 16 (freq_word x), byte_at 8 (freq_word x), byte_at 0 (freq_word x)]] w'"
  by (simp add: sx126x_set_freq_def calibrate_image_def ran_defs)

lemma ran_set_tx_power:
  "radio_idle E \<Longrightarrow> \<exists>w'. sx126x_set_tx_power E db w = Some w' \<and> ran w
    [[0x95, 0x04, 0x07, 0x00, 0x01], [0x96, 0x01], [0x0D, 0x08, 0xE7, 0x38], [0x8E, min db 22, 0x02]] w'"
  by (simp add: sx126x_set_tx_power_def write_reg_def byte_at_def min_def not_less ran_defs) auto

lemma ran_modulation:
  assumes "radio_idle E"
  shows "\<exists>w'. sx126x_set_lora_modulation E sf bw cr ldro w = Some w' \<and> rn w' = rn w
    \<and> wrote w [[0x8B, sf, bw_code bw, cr_code cr, ldro_code ldro, 0, 0, 0, 0]] w'
    \<and> payload_tx_rx (sx w') = payload_tx_rx (sx w) \<and> modem (sx w') = (sf, cr_code cr + 4, bw_value bw, save_preamble_len (sx w))"
  using modem_bitrate_defined [of sf cr bw] assms by (auto simp: sx126x_set_lora_modulation_def ran_defs)

lemma ran_packet:
  "radio_idle E \<Longrightarrow> \<exists>w'. sx126x_set_lora_packet E h p n crc w = Some w' \<and> rn w' = rn w
    \<and> wrote w [[0x8C, 0x00, p, header_code h, n, crc_code crc, 0, 0, 0, 0]] w'
    \<and> payload_tx_rx (sx w') = payload_tx_rx (sx w) \<and> save_header_type (sx w') = h \<and> save_crc (sx w') = crc
    \<and> modem (sx w') = (save_sf (sx w), save_cr (sx w), save_bw (sx w), p)"
  by (simp add: sx126x_set_lora_packet_def set_packet_params_loRa_def ran_defs)

lemma ran_sync_word:
  "radio_idle E \<Longrightarrow> \<exists>w'. sx126x_set_sync_word E 0x1424 w = Some w' \<and> ran w [[0x0D, 0x07, 0x40, 0x14, 0x24]] w'"
  by (simp add: sx126x_set_sync_word_def sync_word_bytes_def write_reg_def byte_at_def ran_defs)

text \<open>The interrupt mask: clear all, then route the six events to DIO1.\<close>

definition irq_program :: "u8 list list" where
  "irq_program = [[0x02, 0x03, 0xFF], [0x08, 0x00, 0x77, 0x00, 0x77, 0, 0, 0, 0]]"

lemma ran_request:
  "radio_idle E \<Longrightarrow> \<exists>w'. sx126x_request E RX_CONTINUOUS w = Some w' \<and> ran w
    ([[0x8C, 0x00, save_preamble_len (sx w), header_code (save_header_type (sx w)), payload_tx_rx (sx w),
       crc_code (save_crc (sx w)), 0, 0, 0, 0]] @ irq_program @ [[0x82, 0xFF, 0xFF, 0xFF]]) w'"
  by (simp add: sx126x_request_def request_timeout_def set_radio_state_def set_packet_params_loRa_def set_irq_mask_def
    set_irq_mask_by_def irq_setup_def clear_irq_status_def set_rx_def be16_def irq_program_def ran_defs) (simp add: byte_at_def)

text \<open>A start that succeeds: standby, oscillator, calibration, regulator or switch, packet type, buffer addresses, interrupts.\<close>

definition begin_program :: "u8 list list" where
  "begin_program = [[0x80, 0x00], [0x97, 0x02, 0x00, 0x05, 0x60], [0x80, 0x01], [0x89, 0xFF], [0x93, 0x40],
     [0x8A, 0x01], [0x8F, 0, 0]] @ irq_program"

lemma ran_begin:
  assumes "radio_idle E" "sx126x_begin E w = Some (True, w1)"
  shows "ran w begin_program w1"
  using assms
  by (auto simp: sx126x_begin_def sx126x_begin_by_def get_busy_def set_pin_def set_standby_def set_dio3_txco_ctrl_by_def
    calibrate_def begin_tail_by_def set_packet_type_def set_irq_mask_by_def irq_setup_def clear_irq_status_def be16_def byte_at_def
    begin_program_def irq_program_def radio_idle_def ran_defs split: if_splits)

subsection \<open>The start of the radio\<close>

definition start_program :: "rnode_st \<Rightarrow> u8 \<Rightarrow> u8 list list" where
  "start_program r n =
     (let f = freq_word (ucast (current_freq r)); pl = ucast (preamble_length r); h = header_code (header_type r) in
      begin_program
      @ [[0x98, fst (cal_band (ucast (current_freq r))), snd (cal_band (ucast (current_freq r)))],
         [0x86, byte_at 24 f, byte_at 16 f, byte_at 8 f, byte_at 0 f],
         [0x95, 0x04, 0x07, 0x00, 0x01], [0x96, 0x01], [0x0D, 0x08, 0xE7, 0x38], [0x8E, min (current_tx_power r) 22, 0x02],
         [0x8B, current_sf r, bw_code (current_bw r), cr_code (current_cr r), 0, 0, 0, 0, 0],
         [0x8C, 0, pl, h, 15, 1, 0, 0, 0, 0], [0x0D, 0x07, 0x40, 0x14, 0x24], [0x8C, 0, pl, h, n, 1, 0, 0, 0, 0]]
      @ irq_program @ [[0x82, 0xFF, 0xFF, 0xFF]])"

text \<open>The part of the start before the air time is computed.\<close>

lemma start_sequence:
  assumes E: "radio_idle E" and b: "sx126x_begin E w = Some (True, w1)"
  shows "\<exists>w'. wrote w (start_program (rn w) (payload_tx_rx (sx w))) w' \<and> rn w' = rn w
    \<and> modem (sx w') = (current_sf (rn w), cr_code (current_cr (rn w)) + 4, bw_value (current_bw (rn w)), ucast (preamble_length (rn w)))
    \<and> rnode_start E w = do {
       (total, header_ms, data_ms) \<leftarrow> sx126x_air_time (sx w') 255;
       Some (queue_set_busy_timeout (header_ms * 3 div 2) (data_ms * 3 div 2) w') }"
proof -
  let ?r = "rn w"
  have w1: "ran w begin_program w1" using ran_begin [OF E b] .
  obtain w2 where w2: "sx126x_set_freq E (ucast (current_freq ?r)) w1 = Some w2"
    "ran w1 [[0x98, fst (cal_band (ucast (current_freq ?r))), snd (cal_band (ucast (current_freq ?r)))],
       [0x86, byte_at 24 (freq_word (ucast (current_freq ?r))), byte_at 16 (freq_word (ucast (current_freq ?r))),
        byte_at 8 (freq_word (ucast (current_freq ?r))), byte_at 0 (freq_word (ucast (current_freq ?r)))]] w2"
    using ran_set_freq [OF E, of "ucast (current_freq ?r)" w1] by blast
  obtain w3 where w3: "sx126x_set_tx_power E (current_tx_power ?r) w2 = Some w3"
    "ran w2 [[0x95, 0x04, 0x07, 0x00, 0x01], [0x96, 0x01], [0x0D, 0x08, 0xE7, 0x38], [0x8E, min (current_tx_power ?r) 22, 0x02]] w3"
    using ran_set_tx_power [OF E] by blast
  obtain w4 where w4: "sx126x_set_lora_modulation E (current_sf ?r) (current_bw ?r) (current_cr ?r) LDRO_OFF w3 = Some w4" "rn w4 = rn w3"
    "wrote w3 [[0x8B, current_sf ?r, bw_code (current_bw ?r), cr_code (current_cr ?r), ldro_code LDRO_OFF, 0, 0, 0, 0]] w4"
    "payload_tx_rx (sx w4) = payload_tx_rx (sx w3)"
    "modem (sx w4) = (current_sf ?r, cr_code (current_cr ?r) + 4, bw_value (current_bw ?r), save_preamble_len (sx w3))"
    using ran_modulation [OF E] by blast
  obtain w5 where w5: "sx126x_set_lora_packet E (header_type ?r) (ucast (preamble_length ?r)) 15 CRC_ON w4 = Some w5" "rn w5 = rn w4"
    "wrote w4 [[0x8C, 0x00, ucast (preamble_length ?r), header_code (header_type ?r), 15, crc_code CRC_ON, 0, 0, 0, 0]] w5"
    "payload_tx_rx (sx w5) = payload_tx_rx (sx w4)" "save_header_type (sx w5) = header_type ?r" "save_crc (sx w5) = CRC_ON"
    "modem (sx w5) = (save_sf (sx w4), save_cr (sx w4), save_bw (sx w4), ucast (preamble_length ?r))"
    using ran_packet [OF E] by blast
  obtain w6 where w6: "sx126x_set_sync_word E 0x1424 w5 = Some w6" "ran w5 [[0x0D, 0x07, 0x40, 0x14, 0x24]] w6"
    using ran_sync_word [OF E] by blast
  obtain w7 where w7: "sx126x_request E RX_CONTINUOUS w6 = Some w7" "ran w6
    ([[0x8C, 0x00, save_preamble_len (sx w6), header_code (save_header_type (sx w6)), payload_tx_rx (sx w6),
       crc_code (save_crc (sx w6)), 0, 0, 0, 0]] @ irq_program @ [[0x82, 0xFF, 0xFF, 0xFF]]) w7"
    using ran_request [OF E] by blast
  have r: "rn w1 = ?r" "rn w2 = ?r" "rn w3 = ?r" "rn w4 = ?r" "rn w5 = ?r" "rn w6 = ?r" "rn w7 = ?r"
    using w1 w2(2) w3(2) w4(2) w5(2) w6(2) w7(2) by (simp_all add: ran_def)
  have m: "modem (sx w7) = (current_sf ?r, cr_code (current_cr ?r) + 4, bw_value (current_bw ?r), ucast (preamble_length ?r))"
    using w4(5) w5(7) w6(2) w7(2) by (simp add: ran_def modem_def)
  have "wrote w (start_program ?r (payload_tx_rx (sx w))) w7"
    using w1 w2(2) w3(2) w4 w5 w6(2) w7(2) by (simp add: start_program_def ran_def wrote_def Let_def modem_def)
  moreover have "rnode_start E w = do {
       (total, header_ms, data_ms) \<leftarrow> sx126x_air_time (sx w7) 255;
       Some (queue_set_busy_timeout (header_ms * 3 div 2) (data_ms * 3 div 2) w7) }"
    by (simp add: rnode_start_def b r w2(1) w3(1) w4(1) w5(1) w6(1) w7(1))
  ultimately show ?thesis using r(7) m by blast
qed

lemma rnode_start_program:
  assumes "radio_idle E" "sx126x_begin E w = Some (True, w1)" "sf_startable (current_sf (rn w))"
  shows "\<exists>w'. rnode_start E w = Some w' \<and> wrote w (start_program (rn w) (payload_tx_rx (sx w))) w' \<and> rn w' = rn w"
proof -
  obtain w' where w': "wrote w (start_program (rn w) (payload_tx_rx (sx w))) w'" "rn w' = rn w"
    "modem (sx w') = (current_sf (rn w), cr_code (current_cr (rn w)) + 4, bw_value (current_bw (rn w)), ucast (preamble_length (rn w)))"
    "rnode_start E w = do {
       (total, header_ms, data_ms) \<leftarrow> sx126x_air_time (sx w') 255;
       Some (queue_set_busy_timeout (header_ms * 3 div 2) (data_ms * 3 div 2) w') }"
    using start_sequence [OF assms(1,2)] by blast
  have "modem_ok (modem (sx w'))" unfolding w'(3) by (rule sf_startable_modem [OF assms(3)])
  from air_time_modem_ok [OF this, of 255] w'(1,2,4) show ?thesis by (auto simp: queue_set_busy_timeout_def wrote_def)
qed

lemma rnode_start_sf0:
  assumes "radio_idle E" "sx126x_begin E w = Some (True, w1)" "current_sf (rn w) = 0"
  shows "rnode_start E w = None"
proof -
  obtain w' where "modem (sx w') = (current_sf (rn w), cr_code (current_cr (rn w)) + 4, bw_value (current_bw (rn w)), ucast (preamble_length (rn w)))"
    "rnode_start E w = do {
       (total, header_ms, data_ms) \<leftarrow> sx126x_air_time (sx w') 255;
       Some (queue_set_busy_timeout (header_ms * 3 div 2) (data_ms * 3 div 2) w') }"
    using start_sequence [OF assms(1,2)] by blast
  with assms(3) show ?thesis using air_time_sf0 [of "sx w'" 255] by (simp add: modem_def)
qed

lemma alock_53_answer:
  assumes "host_inv k w"
  shows "ans_st_alock E (0 # 53 # p) w =
    Some (host_send E [CMD_ST_ALOCK, 0, 52] (upd_rn (\<lambda>r. r\<lparr>st_airtime_limit := alock_limit 53\<rparr>) w))"
proof -
  have "host_inv k (upd_rn (\<lambda>r. r\<lparr>st_airtime_limit := alock_limit 53\<rparr>) w)" by (rule host_inv_upd_rn [OF assms]) simp
  from kiss_encode_answer [OF this, of "[CMD_ST_ALOCK, 0, 52]" E] show ?thesis
    by (simp add: ans_st_alock_def param16_def read_at_def of_be16_def alock_echo_53 be16_def byte_at_def)
qed

end
