(* ===== verification/QueueWorker.thy ===== *)
theory QueueWorker
  imports HostInv
begin

section \<open>The transmit worker\<close>

text \<open>
  The thread of \<^verbatim>\<open>src/queue.c\<close>: \<^verbatim>\<open>send_packet\<close> and one turn of the loop of \<^verbatim>\<open>queue_worker\<close>, with its
  listen-before-talk: the medium must stay free for the DIFS time and then for a random contention
  window, whose progress survives a busy medium. \<open>lbt_spec\<close> says which sample of the medium lets a packet go, in terms of
  the free periods alone, and the code is shown to refine it. The interface \<open>worker_layer\<close> is what a
  round of the worker needs of an invariant.
\<close>

subsection \<open>The code\<close>

definition upd_qu :: "(queue_st \<Rightarrow> queue_st) \<Rightarrow> world \<Rightarrow> world" where
  "upd_qu f w = w\<lparr>qu := f (qu w)\<rparr>"

definition send_packet :: "env \<Rightarrow> world \<Rightarrow> (bool \<times> world) option" where
  "send_packet E w =
     (if q_head (qu w) = None then Some (False, w)
      else do {
        let item = q_head (qu w);
        if rnode_check_airtime_lock w then Some (False, w)
        else do {
          it \<leftarrow> deref (qu w) item;
          (actual_airtime, w) \<leftarrow> rnode_to_air E (item_data it) w;
          let (now, w) = get_time E w;
          let w = upd_qu (\<lambda>q. q\<lparr>tx_wait_timeout := now + ucast (actual_airtime * 2)\<rparr>) w;
          q \<leftarrow> q_remove item (qu w);
          w \<leftarrow> rnode_send_stat_queue E (queue_depth q) (w\<lparr>qu := q\<rparr>);
          w \<leftarrow> csma_update_airtime E w;
          Some (True, w) } })"

text \<open>The contention window is drawn once per access.\<close>

definition pick_cw :: "env \<Rightarrow> world \<Rightarrow> world option" where
  "pick_cw E w =
     (if cw_picked (qu w) then Some w
      else do {
        (t, w) \<leftarrow> csma_get_cw E w;
        Some (upd_qu (\<lambda>q. q\<lparr>cw_target := ucast t, cw_picked := True\<rparr>) w) })"

text \<open>One sample of the medium at time \<open>now\<close>; \<open>True\<close> when the packet may go.\<close>

definition difs_cw_step :: "u64 \<Rightarrow> u64 \<Rightarrow> bool \<Rightarrow> queue_st \<Rightarrow> bool \<times> queue_st" where
  "difs_cw_step now difs free q =
     (if free then
        if medium_free_since q = 0 then (False, q\<lparr>medium_free_since := now\<rparr>)
        else if now - medium_free_since q < difs then (False, q)
        else
          let q = (if cw_wait_start q = 0 then q\<lparr>cw_wait_start := now\<rparr>
                   else q\<lparr>cw_wait_passed := cw_wait_passed q + (now - cw_wait_start q), cw_wait_start := now\<rparr>)
          in if cw_target q \<le> cw_wait_passed q
             then (True, q\<lparr>medium_free_since := 0, cw_wait_start := 0, cw_wait_passed := 0, cw_picked := False\<rparr>)
             else (False, q)
      else (False, q\<lparr>medium_free_since := 0, cw_wait_start := 0\<rparr>))"

text \<open>The branch of the worker with a packet waiting and permission to send.\<close>

definition worker_access :: "env \<Rightarrow> u64 \<Rightarrow> world \<Rightarrow> world option" where
  "worker_access E now w =
     (if flushing (qu w) then do {
        (sent, w) \<leftarrow> send_packet E w;
        Some (if \<not> sent then upd_qu (\<lambda>q. q\<lparr>flushing := False\<rparr>) w
              else if q_head (qu w) = None then upd_qu (\<lambda>q. q\<lparr>flushing := False\<rparr>) w
              else w) }
      else do {
        w \<leftarrow> pick_cw E w;
        let (fire, q) = difs_cw_step now (of_int (csma_get_difs_ms w)) (csma_medium_free w) (qu w);
        let w = w\<lparr>qu := q\<rparr>;
        if fire then do {
          let w = (if csma_should_flush w then upd_qu (\<lambda>q. q\<lparr>flushing := True\<rparr>) w else w);
          (sent, w) \<leftarrow> send_packet E w;
          Some w }
        else Some w })"

definition queue_worker_step :: "env \<Rightarrow> world \<Rightarrow> world option" where
  "queue_worker_step E w = do {
     let (now, w) = get_time E w;
     if sx126x_get_state w \<noteq> SX126X_TX then do {
       w \<leftarrow> (if tx_enable (qu w) \<and> q_head (qu w) \<noteq> None then worker_access E now w
            else if \<not> tx_enable (qu w) then
              if tx_disabled (qu w) \<le> now
              then Some (csma_set_dcd False (upd_qu (\<lambda>q. q\<lparr>tx_enable := True\<rparr>) w))
              else Some w
            else Some w);
       if rssi_delay (qu w) < now
       then csma_update_current_rssi E (upd_qu (\<lambda>q. q\<lparr>rssi_delay := now + 25\<rparr>) w)
       else Some w }
     else if tx_wait_timeout (qu w) < now then rnode_start E w
     else Some w }"

subsection \<open>Listen before talk\<close>

text \<open>
  The samples of the medium up to and including the one that lets the packet go, if there is one:
  as the code finds it, and in terms of the free periods.
\<close>

fun lbt_run :: "u64 \<Rightarrow> (u64 \<times> bool) list \<Rightarrow> queue_st \<Rightarrow> (u64 \<times> bool) list option" where
  "lbt_run d [] q = None"
| "lbt_run d ((t, free) # ss) q = (let (fire, q) = difs_cw_step t d free q in
     if fire then Some [(t, free)] else map_option ((#) (t, free)) (lbt_run d ss q))"

text \<open>Of a free period, given by its sample times, what lies after the DIFS time.\<close>

definition after_difs :: "nat \<Rightarrow> nat list \<Rightarrow> nat list" where
  "after_difs d ts = filter (\<lambda>t. hd ts + d \<le> t) ts"

definition contention :: "nat \<Rightarrow> nat list \<Rightarrow> nat" where
  "contention d ts = (if after_difs d ts = [] then 0 else last ts - hd (after_difs d ts))"

text \<open>
  \<open>credit\<close> is the contention time of the earlier free periods, \<open>ts\<close> the current one. A packet goes at a
  free sample once DIFS has passed in the current period and the contention times add up to the target.
\<close>

fun lbt_spec :: "nat \<Rightarrow> nat \<Rightarrow> nat \<Rightarrow> nat list \<Rightarrow> (u64 \<times> bool) list \<Rightarrow> (u64 \<times> bool) list option" where
  "lbt_spec d target credit ts [] = None"
| "lbt_spec d target credit ts ((t, free) # ss) =
     (if free then
        let ts = ts @ [unat t] in
        if hd ts + d \<le> unat t \<and> target \<le> credit + contention d ts then Some [(t, free)]
        else map_option ((#) (t, free)) (lbt_spec d target credit ts ss)
      else map_option ((#) (t, free)) (lbt_spec d target (credit + contention d ts) [] ss))"

lemma after_difs_snoc:
  assumes "0 < d"
  shows "after_difs d (ts @ [t]) = (if ts \<noteq> [] \<and> hd ts + d \<le> t then after_difs d ts @ [t] else after_difs d ts)"
  using assms by (cases ts) (auto simp: after_difs_def)

lemma after_difs_sub: "set (after_difs d ts) \<subseteq> set ts"
  by (auto simp: after_difs_def)

lemma sorted_last: "sorted ts \<Longrightarrow> t \<in> set ts \<Longrightarrow> t \<le> last ts"
  by (induction ts) auto

lemma contention_snoc:
  assumes "0 < d" "sorted (ts @ [t])"
  shows "contention d (ts @ [t]) = contention d ts + (if after_difs d ts = [] then 0 else t - last ts)"
proof (cases "after_difs d ts = []")
  case True
  then show ?thesis using assms(1) by (auto simp: contention_def after_difs_snoc)
next
  case False
  then have ts: "ts \<noteq> []" and h: "hd (after_difs d ts) \<in> set ts" "hd ts + d \<le> hd (after_difs d ts)"
    using after_difs_sub hd_in_set [OF False] by (auto simp: after_difs_def)
  have s: "hd (after_difs d ts) \<le> last ts" "last ts \<le> t"
    using assms(2) h(1) ts sorted_last [of ts] by (auto simp: sorted_append)
  with False h(2) assms(1) ts show ?thesis by (simp add: contention_def after_difs_snoc)
qed

lemma contention_le: "ts \<noteq> [] \<Longrightarrow> hd ts + contention d ts \<le> last ts \<or> contention d ts = 0"
  by (auto simp: contention_def after_difs_def dest!: hd_in_set [of "filter p ts" for p])

text \<open>The state of the code in terms of the free periods; \<open>b\<close> is the time of the last sample.\<close>

definition lbt_rep :: "nat \<Rightarrow> nat \<Rightarrow> nat \<Rightarrow> nat list \<Rightarrow> nat \<Rightarrow> queue_st \<Rightarrow> bool" where
  "lbt_rep d target credit ts b q \<longleftrightarrow> sorted ts \<and> (\<forall>t\<in>set ts. 0 < t \<and> t \<le> b) \<and> (ts \<noteq> [] \<longrightarrow> last ts = b)
     \<and> credit \<le> (if ts = [] then b else hd ts)
     \<and> unat (medium_free_since q) = (if ts = [] then 0 else hd ts)
     \<and> unat (cw_wait_start q) = (if after_difs d ts = [] then 0 else last ts)
     \<and> unat (cw_wait_passed q) = credit + contention d ts \<and> unat (cw_target q) = target"

lemma unat_diff: "b \<le> a \<Longrightarrow> unat (a - b) = unat a - unat b"
  by (simp add: unat_sub_if' word_le_nat_alt)

lemma unat_plus: "unat (a :: 'a::len word) + unat b < 2 ^ LENGTH('a) \<Longrightarrow> unat (a + b) = unat a + unat b"
  by (simp add: unat_add_lem)

lemma contention_bound:
  assumes "sorted ts" "ts \<noteq> []"
  shows "hd ts + contention d ts \<le> last ts"
proof (cases "after_difs d ts = []")
  case True
  with assms sorted_last [of ts "hd ts"] show ?thesis by (simp add: contention_def)
next
  case False
  then have "hd ts \<le> hd (after_difs d ts)" "hd (after_difs d ts) \<in> set ts"
    using hd_in_set [OF False] by (auto simp: after_difs_def)
  with False sorted_last [of ts "hd (after_difs d ts)"] assms(1) show ?thesis by (simp add: contention_def)
qed

lemma difs_cw_step_busy:
  assumes "lbt_rep d target credit ts b q" "b \<le> t"
  shows "\<exists>q'. difs_cw_step x y False q = (False, q') \<and> lbt_rep d target (credit + contention d ts) [] t q'"
proof -
  have "credit + contention d ts \<le> b"
    using assms contention_bound [of ts d] by (cases "ts = []") (auto simp: lbt_rep_def contention_def after_difs_def)
  with assms show ?thesis by (auto simp: difs_cw_step_def lbt_rep_def after_difs_def contention_def)
qed

lemma difs_cw_step_free:
  assumes q: "lbt_rep (unat d) target credit ts b q" and t: "b \<le> unat t" "0 < t" and d: "0 < d"
  shows "let ts' = ts @ [unat t]; ready = (hd ts' + unat d \<le> unat t \<and> target \<le> credit + contention (unat d) ts')
    in fst (difs_cw_step t d True q) = ready
      \<and> (\<not> ready \<longrightarrow> lbt_rep (unat d) target credit ts' (unat t) (snd (difs_cw_step t d True q)))"
proof -
  define T where "T = unat t"
  define D where "D = unat d"
  have T: "0 < T" "0 < D" using t(2) d by (simp_all add: T_def D_def unat_gt_0)
  have zero: "medium_free_since q = 0 \<longleftrightarrow> unat (medium_free_since q) = 0" "cw_wait_start q = 0 \<longleftrightarrow> unat (cw_wait_start q) = 0"
    by (simp_all add: unat_eq_zero)
  show ?thesis
  proof (cases "ts = []")
    case True
    then show ?thesis
      using q T t(1)
      by (simp add: lbt_rep_def difs_cw_step_def Let_def zero after_difs_def contention_def T_def [symmetric] D_def [symmetric])
  next
    case False
    have s: "sorted (ts @ [T])" "hd ts \<le> last ts" "last ts = b" "0 < hd ts" "credit \<le> hd ts" "b \<le> T"
      using q t(1) False sorted_last [of ts "hd ts"] by (auto simp: lbt_rep_def sorted_append T_def)
    then have hT: "hd ts \<le> T" by linarith
    have since: "medium_free_since q \<noteq> 0" "unat (t - medium_free_since q) = T - hd ts"
      using q s(4) hT False unat_diff [of "medium_free_since q" t]
      by (auto simp: zero lbt_rep_def word_le_nat_alt T_def [symmetric])
    have less: "t - medium_free_since q < d \<longleftrightarrow> T < hd ts + D"
      using since(2) hT by (auto simp: word_less_nat_alt D_def)
    have ts': "sorted (ts @ [T])" "\<forall>x\<in>set (ts @ [T]). 0 < x \<and> x \<le> T"
      using s q T(1) by (auto simp: lbt_rep_def sorted_append)
    show ?thesis
    proof (cases "hd ts + D \<le> T")
      case wait: False
      have "after_difs D ts = []"
      proof (rule ccontr)
        assume "after_difs D ts \<noteq> []"
        then obtain x where "x \<in> set ts" "hd ts + D \<le> x" by (auto simp: after_difs_def filter_empty_conv)
        with ts'(2) wait show False by auto
      qed
      with wait q since(1) less ts' False s(3,5) T(2) show ?thesis
        by (auto simp: lbt_rep_def difs_cw_step_def Let_def after_difs_snoc contention_snoc contention_def
            T_def [symmetric] D_def [symmetric])
    next
      case go: True
      define q2 where "q2 = (if cw_wait_start q = 0 then q\<lparr>cw_wait_start := t\<rparr>
        else q\<lparr>cw_wait_passed := cw_wait_passed q + (t - cw_wait_start q), cw_wait_start := t\<rparr>)"
      have c: "contention D (ts @ [T]) = contention D ts + (if after_difs D ts = [] then 0 else T - last ts)"
        using contention_snoc [OF T(2) ts'(1)] .
      have bound: "credit + contention D (ts @ [T]) \<le> T"
        using contention_bound [OF ts'(1), of D] s(5) False by simp
      have p: "unat (cw_wait_passed q2) = credit + contention D (ts @ [T])"
      proof (cases "after_difs D ts = []")
        case True
        then show ?thesis using q c by (simp add: q2_def lbt_rep_def zero D_def [symmetric])
      next
        case nonempty: False
        have w: "unat (cw_wait_start q) = last ts" "unat (cw_wait_passed q) = credit + contention D ts"
          using q nonempty by (simp_all add: lbt_rep_def D_def [symmetric])
        have "unat (t - cw_wait_start q) = T - last ts"
          using w(1) s(3,6) by (simp add: unat_diff word_le_nat_alt T_def [symmetric])
        moreover have "T < 2 ^ 64" unfolding T_def using unsigned_less [of t] by simp
        ultimately have "unat (cw_wait_passed q + (t - cw_wait_start q)) = credit + contention D ts + (T - last ts)"
          using w(2) c bound nonempty by (subst unat_plus) simp_all
        moreover have "cw_wait_start q \<noteq> 0" using w(1) s(2,4) by (auto simp: zero)
        ultimately show ?thesis using c nonempty by (simp add: q2_def)
      qed
      have q2: "medium_free_since q2 = medium_free_since q" "cw_target q2 = cw_target q" "cw_wait_start q2 = t"
        by (simp_all add: q2_def)
      have step: "difs_cw_step t d True q = (if cw_target q \<le> cw_wait_passed q2
          then (True, q2\<lparr>medium_free_since := 0, cw_wait_start := 0, cw_wait_passed := 0, cw_picked := False\<rparr>) else (False, q2))"
        using since(1) less go by (simp add: difs_cw_step_def Let_def q2_def q2)
      have "cw_target q \<le> cw_wait_passed q2 \<longleftrightarrow> target \<le> credit + contention D (ts @ [T])"
        using p q by (simp add: lbt_rep_def word_le_nat_alt)
      moreover have "lbt_rep D target credit (ts @ [T]) T q2"
        using q p q2 ts' s(5) go False T(2)
        by (simp add: lbt_rep_def after_difs_snoc T_def [symmetric] D_def [symmetric])
      ultimately show ?thesis
        using go False T(2) by (simp add: step Let_def after_difs_snoc T_def [symmetric] D_def [symmetric])
    qed
  qed
qed

text \<open>The code lets a packet go exactly at the sample the specification names.\<close>

theorem lbt_refines:
  assumes "lbt_rep (unat d) target credit ts b q" "0 < d"
    and "sorted (b # map (unat \<circ> fst) ss)" "list_all (\<lambda>(t, free). 0 < t) ss"
  shows "lbt_run d ss q = lbt_spec (unat d) target credit ts ss"
  using assms
proof (induction ss arbitrary: credit ts b q)
  case Nil
  then show ?case by simp
next
  case (Cons s ss)
  obtain t free where s: "s = (t, free)" by force
  have t: "b \<le> unat t" "0 < t" and next_t: "sorted (unat t # map (unat \<circ> fst) ss)" "list_all (\<lambda>(t, free). 0 < t) ss"
    using Cons.prems(3,4) s by (auto simp: o_def)
  show ?case
  proof (cases free)
    case False
    obtain q' where "difs_cw_step t d False q = (False, q')"
        "lbt_rep (unat d) target (credit + contention (unat d) ts) [] (unat t) q'"
      using difs_cw_step_busy [OF Cons.prems(1) t(1)] by blast
    with Cons.IH [OF this(2) Cons.prems(2) next_t] False s show ?thesis by simp
  next
    case True
    from difs_cw_step_free [OF Cons.prems(1) t Cons.prems(2)] Cons.IH [OF _ Cons.prems(2) next_t] True s
    show ?thesis by (auto simp: Let_def split: prod.split)
  qed
qed

text \<open>
  What the specification promises: when a packet goes, the medium was free at the last samples, over at
  least the DIFS time. And on a medium that stays free it goes as soon as DIFS and the target have passed.
\<close>

lemma lbt_spec_listens:
  assumes "lbt_spec d target credit ts ss = Some pre" "0 < d"
  shows "\<exists>pre1 run. pre = pre1 @ run \<and> run \<noteq> [] \<and> list_all snd run
     \<and> hd ((if pre1 = [] then ts else []) @ map (unat \<circ> fst) run) + d \<le> unat (fst (last run))"
  using assms(1)
proof (induction ss arbitrary: credit ts pre)
  case Nil
  then show ?case by simp
next
  case (Cons s ss)
  obtain t free where s: "s = (t, free)" by force
  consider (fire) "free" "hd (ts @ [unat t]) + d \<le> unat t" "target \<le> credit + contention d (ts @ [unat t])" "pre = [(t, free)]"
    | (wait) pre' where "free" "lbt_spec d target credit (ts @ [unat t]) ss = Some pre'" "pre = (t, free) # pre'"
    | (busy) pre' where "\<not> free" "lbt_spec d target (credit + contention d ts) [] ss = Some pre'" "pre = (t, free) # pre'"
    using Cons.prems s by (auto simp: Let_def split: if_splits)
  then show ?case
  proof cases
    case fire
    then show ?thesis by (intro exI [of _ "[]"] exI [of _ "[(t, free)]"]) auto
  next
    case wait
    from Cons.IH [OF wait(2)] obtain pre1 run where r: "pre' = pre1 @ run" "run \<noteq> []" "list_all snd run"
      "hd ((if pre1 = [] then ts @ [unat t] else []) @ map (unat \<circ> fst) run) + d \<le> unat (fst (last run))" by blast
    show ?thesis
    proof (cases "pre1 = []")
      case True
      with r wait show ?thesis by (intro exI [of _ "[]"] exI [of _ "(t, free) # run"]) (auto simp: hd_append)
    next
      case False
      with r wait show ?thesis by - (rule exI [of _ "(t, free) # pre1"], rule exI [of _ run], auto simp: o_def)
    qed
  next
    case busy
    from Cons.IH [OF busy(2)] obtain pre1 run where r: "pre' = pre1 @ run" "run \<noteq> []" "list_all snd run"
      "hd ((if pre1 = [] then [] else []) @ map (unat \<circ> fst) run) + d \<le> unat (fst (last run))" by blast
    with busy show ?thesis by - (rule exI [of _ "(t, free) # pre1"], rule exI [of _ run], auto simp: o_def)
  qed
qed

lemma lbt_spec_lets_go:
  assumes "list_all snd ss" "ss \<noteq> []" "0 < d" "sorted (ts @ map (unat \<circ> fst) ss)"
    and "hd (ts @ map (unat \<circ> fst) ss) + d \<le> unat (fst (last ss))"
    and "target \<le> credit + contention d (ts @ map (unat \<circ> fst) ss)"
  shows "lbt_spec d target credit ts ss \<noteq> None"
  using assms
proof (induction ss arbitrary: ts)
  case Nil
  then show ?case by simp
next
  case (Cons s ss)
  obtain t free where s: "s = (t, free)" by force
  show ?case
  proof (cases "ss = []")
    case True
    with Cons.prems s show ?thesis by (simp add: Let_def)
  next
    case False
    with Cons.IH [of "ts @ [unat t]"] Cons.prems s show ?thesis by (auto simp: Let_def)
  qed
qed

subsection \<open>Safety\<close>

lemma host_inv_chan_ok: "host_inv k w \<Longrightarrow> chan_ok (k, qu w, rn w, modem (sx w), txfifo w) w"
  by (erule host_inv_obtain) (auto simp: chan_ok_def drv_ok_def rest_def chan_rest_def simp del: drv_rn_eq)

lemma host_inv_chan:
  assumes "\<And>R. chan_ok R w \<Longrightarrow> outcome D (chan_ok R) n" "host_inv k w"
  shows "outcome D (host_inv k) n"
  using assms(2)
proof (rule host_inv_obtain)
  fix c q r sf cr bw pl e xs
  assume w: "drv_ok (k, c, q, r, (sf, cr, bw, pl), e) w" "csma_wf c" "queue_rep q xs" "rn_wf r"
  then have "chan_ok (k, q, r, (sf, cr, bw, pl), e) w"
    by (auto simp: chan_ok_def drv_ok_def rest_def chan_rest_def simp del: drv_rn_eq)
  then have "outcome D (chan_ok (k, q, r, (sf, cr, bw, pl), e)) n" by (rule assms(1))
  then show "outcome D (host_inv k) n"
    by (rule outcome_imp) (use w(3,4) in \<open>auto simp: chan_ok_def chan_rest_def rest_def intro!: host_invI simp del: drv_rn_eq\<close>)
qed

lemma host_inv_upd_qu:
  assumes "host_inv k w" "\<And>q. q_heap (f q) = q_heap q" "\<And>q. q_brk (f q) = q_brk q" "\<And>q. q_head (f q) = q_head q"
    "\<And>q. q_tail (f q) = q_tail q" "\<And>q. queue_depth (f q) = queue_depth q"
  shows "host_inv k (upd_qu f w)"
  unfolding upd_qu_def
  by (rule host_inv_qu [OF assms(1)], rule exI, erule queue_rep_timers) (simp_all add: assms(2-))

lemma host_inv_queue:
  assumes "host_inv k w"
  obtains xs where "queue_rep (qu w) xs"
  using assms by (auto simp: host_inv_def dest: drv_qu_eq)

lemma queue_rep_nonempty:
  assumes "queue_rep q xs" "q_head q \<noteq> None"
  obtains x ys where "xs = x # ys"
  using assms pq.rep_empty [of q xs] by (cases xs) auto

text \<open>Sending keeps the invariant whenever it returns.\<close>

lemma send_packet_outcome:
  assumes w: "host_inv k w"
  shows "outcomer False (host_inv k) (send_packet E w)"
proof (cases "q_head (qu w) = None \<or> rnode_check_airtime_lock w")
  case True
  then show ?thesis using w by (auto simp: send_packet_def)
next
  case False
  define item where "item = q_head (qu w)"
  obtain c q r sf cr bw pl e xs where d: "drv_ok (k, c, q, r, (sf, cr, bw, pl), e) w" "csma_wf c" "queue_rep q xs" "rn_wf r"
    using w host_inv_obtain by blast
  define m where "m = (sf, cr, bw, pl)"
  have q: "qu w = q" using drv_qu_eq [OF d(1)] .
  obtain x ys where xs: "xs = x # ys" using queue_rep_nonempty [OF d(3)] False q by auto
  have air: "air_inv k q m w" using air_invI [OF d(1,2,4)] by (simp add: m_def)
  have tail: "outcomer False (host_inv k) (do {
      let (now, w) = get_time E w1;
      let w = upd_qu (\<lambda>q. q\<lparr>tx_wait_timeout := now + ucast (a * 2)\<rparr>) w;
      q \<leftarrow> q_remove item (qu w);
      w \<leftarrow> rnode_send_stat_queue E (queue_depth q) (w\<lparr>qu := q\<rparr>);
      w \<leftarrow> csma_update_airtime E w;
      Some (True, w) })" if w1: "air_inv k q m w1" for a w1
  proof -
    obtain now where t: "get_time E w1 = (now, next_read w1)" using get_time_snd [of E w1] by (metis prod.collapse)
    obtain c1 r1 p1 f1 where d1: "drv_ok (k, c1, q, r1, m, p1, f1) w1" "csma_wf c1" "rn_wf r1"
      using air_inv_obtain [OF w1] by blast
    define q1 where "q1 = q\<lparr>tx_wait_timeout := now + ucast (a * 2)\<rparr>"
    have "queue_rep q1 (x # ys)" using d(3) unfolding q1_def xs by (rule queue_rep_timers) simp_all
    from pq.rep_remove [OF this] obtain q2 where q2: "q_remove item q1 = Some q2" "queue_rep q2 ys"
      by (auto simp: q1_def item_def q)
    have "drv_ok (k, c1, q2, r1, m, p1, f1) ((next_read w1)\<lparr>qu := q2\<rparr>)" using d1(1) by (intro drv_ok_qu [where q = q]) simp
    then have inv: "host_inv k ((next_read w1)\<lparr>qu := q2\<rparr>)" using d1(2) q2(2) d1(3) by (rule host_invI)
    have "outcomer False (host_inv k) (do {
        w \<leftarrow> rnode_send_stat_queue E (queue_depth q2) ((next_read w1)\<lparr>qu := q2\<rparr>);
        w \<leftarrow> csma_update_airtime E w; Some (True, w) })"
      unfolding rnode_send_stat_queue_def
    proof (rule outcomer_bind [OF gives_outcome [OF host_inv_encode [OF inv]]])
      fix w2 assume "host_inv k w2"
      then have "outcome False (host_inv k) (csma_update_airtime E w2)"
        by (rule host_inv_chan [rotated]) (drule csma_update_airtime_ok [of _ _ E], simp add: outcome_def)
      then show "outcomer False (host_inv k) (do { w \<leftarrow> csma_update_airtime E w2; Some (True, w) })"
        by (rule outcomer_bind) simp
    qed simp
    moreover have "qu w1 = q" using drv_qu_eq [OF d1(1)] .
    ultimately show ?thesis by (simp add: t upd_qu_def q1_def [symmetric] q2(1))
  qed
  obtain it where it: "deref q item = Some it"
    using pq.rep_peek d(3) unfolding xs item_def q q_peek_def by (metis map_option_eq_Some)
  have "outcomer False (host_inv k) (do {
      (a, w) \<leftarrow> rnode_to_air E (item_data it) w;
      let (now, w) = get_time E w;
      let w = upd_qu (\<lambda>q. q\<lparr>tx_wait_timeout := now + ucast (a * 2)\<rparr>) w;
      q \<leftarrow> q_remove item (qu w);
      w \<leftarrow> rnode_send_stat_queue E (queue_depth q) (w\<lparr>qu := q\<rparr>);
      w \<leftarrow> csma_update_airtime E w;
      Some (True, w) })"
  proof (rule outcomer_bindr)
    show "outcomer False (air_inv k q m) (rnode_to_air E (item_data it) w)"
      using rnode_to_air_outcome [OF air, of "item_data it" E] by (simp add: outcomer_def)
    show "outcomer False (host_inv k) (case (a, w1) of (a, w) \<Rightarrow> (do {
      let (now, w) = get_time E w;
      let w = upd_qu (\<lambda>q. q\<lparr>tx_wait_timeout := now + ucast (a * 2)\<rparr>) w;
      q \<leftarrow> q_remove item (qu w);
      w \<leftarrow> rnode_send_stat_queue E (queue_depth q) (w\<lparr>qu := q\<rparr>);
      w \<leftarrow> csma_update_airtime E w;
      Some (True, w) }))" if "air_inv k q m w1" for a w1
      using tail [OF that] by simp
  qed
  moreover have "item = q_head q" by (simp add: item_def q)
  ultimately show ?thesis using False it w by (simp add: send_packet_def Let_def q)
qed

lemma difs_cw_step_list:
  "\<exists>a b c d e. snd (difs_cw_step now difs free q) =
     q\<lparr>medium_free_since := a, cw_wait_start := b, cw_wait_passed := c, cw_picked := d, cw_target := e\<rparr>"
  by (cases q) (auto simp: difs_cw_step_def Let_def)

subsection \<open>The interface of an invariant, and a round of the worker\<close>

text \<open>
  \<open>J\<close> holds before a transmission, \<open>L\<close> after it and \<open>M\<close> at the end of the round; \<open>D\<close> says whether the operations are also required to be
  defined. The interface is provided twice: by the weakest invariant with \<open>D\<close> false, and with \<open>D\<close> true by
  the invariant under which nothing is undefined.
\<close>

locale worker_layer =
  fixes D :: bool and J :: "world \<Rightarrow> bool" and L :: "world \<Rightarrow> bool" and M :: "world \<Rightarrow> bool"
  assumes weaken: "J w \<Longrightarrow> L w" "L w \<Longrightarrow> M w"
    and next_step: "J w \<Longrightarrow> J (next_read w)"
    and timers: "J w \<Longrightarrow> (\<And>xs. queue_rep (qu w) xs \<Longrightarrow> queue_rep q xs) \<Longrightarrow> J (w\<lparr>qu := q\<rparr>)"
    and timers_after: "L w \<Longrightarrow> (\<And>xs. queue_rep (qu w) xs \<Longrightarrow> queue_rep q xs) \<Longrightarrow> L (w\<lparr>qu := q\<rparr>)"
    and carrier: "L w \<Longrightarrow> L (csma_set_dcd b w)"
    and window: "J w \<Longrightarrow> \<exists>t. csma_get_cw E w = Some (t, next_read w)"
    and send: "J w \<Longrightarrow> outcomer D L (send_packet E w)"
    and restart: "J w \<Longrightarrow> outcome D M (rnode_start E w)"
    and sample: "L w \<Longrightarrow> outcome D M (csma_update_current_rssi E w)"
begin

lemma upd_timers:
  assumes "\<And>q. q_heap (f q) = q_heap q" "\<And>q. q_brk (f q) = q_brk q" "\<And>q. q_head (f q) = q_head q"
    "\<And>q. q_tail (f q) = q_tail q" "\<And>q. queue_depth (f q) = queue_depth q"
  shows "J w \<Longrightarrow> J (upd_qu f w)" "L w \<Longrightarrow> L (upd_qu f w)"
  unfolding upd_qu_def by (erule timers timers_after, erule queue_rep_timers, simp_all add: assms)+

lemma contention_step: "J w \<Longrightarrow> J (w\<lparr>qu := snd (difs_cw_step now d free (qu w))\<rparr>)"
proof -
  assume "J w"
  obtain a b c e f where s: "snd (difs_cw_step now d free (qu w)) =
      (qu w)\<lparr>medium_free_since := a, cw_wait_start := b, cw_wait_passed := c, cw_picked := e, cw_target := f\<rparr>"
    using difs_cw_step_list by blast
  show ?thesis unfolding s using \<open>J w\<close> by (rule timers) (erule queue_rep_timers, simp_all)
qed

lemma window_picked: "J w \<Longrightarrow> gives J (pick_cw E w)"
  using window [of w E] by (auto simp: pick_cw_def next_step intro!: upd_timers)

lemma access:
  assumes w: "J w"
  shows "outcome D L (worker_access E now w)"
proof (cases "flushing (qu w)")
  case True
  have "outcome D L (do { (sent, w) \<leftarrow> send_packet E w;
      Some (if \<not> sent then upd_qu (\<lambda>q. q\<lparr>flushing := False\<rparr>) w
              else if q_head (qu w) = None then upd_qu (\<lambda>q. q\<lparr>flushing := False\<rparr>) w else w) })"
    by (rule outcome_bindr [OF send [OF w]]) (auto intro: upd_timers)
  with True show ?thesis by (simp add: worker_access_def)
next
  case False
  have "outcome D L (do { w \<leftarrow> pick_cw E w;
      let (fire, q) = difs_cw_step now (of_int (csma_get_difs_ms w)) (csma_medium_free w) (qu w);
      let w = w\<lparr>qu := q\<rparr>;
      if fire then do {
        let w = (if csma_should_flush w then upd_qu (\<lambda>q. q\<lparr>flushing := True\<rparr>) w else w);
        (sent, w) \<leftarrow> send_packet E w; Some w }
      else Some w })"
  proof (rule outcome_bind [OF gives_outcome [OF window_picked [OF w]]])
    fix w1 assume w1: "J w1"
    have "J (if csma_should_flush w2 then upd_qu (\<lambda>q. q\<lparr>flushing := True\<rparr>) w2 else w2)" if "J w2" for w2
      using that by (simp add: upd_timers)
    from outcome_bindr [OF send [OF this], of _ L "\<lambda>(sent, w). Some w"] contention_step [OF w1]
    show "outcome D L (let (fire, q) = difs_cw_step now (of_int (csma_get_difs_ms w1)) (csma_medium_free w1) (qu w1);
        w = w1\<lparr>qu := q\<rparr> in
      if fire then let w = (if csma_should_flush w then upd_qu (\<lambda>q. q\<lparr>flushing := True\<rparr>) w else w) in
        do { (sent, w) \<leftarrow> send_packet E w; Some w }
      else Some w)"
      by (simp add: Let_def case_prod_unfold weaken)
  qed
  with False show ?thesis by (simp add: worker_access_def)
qed

lemma worker_round:
  assumes w: "J w"
  shows "outcome D M (queue_worker_step E w)"
proof -
  obtain now where t: "get_time E w = (now, next_read w)" using get_time_snd [of E w] by (metis prod.collapse)
  have w1: "J (next_read w)" "L (next_read w)" using w by (simp_all add: next_step weaken)
  show ?thesis
    unfolding queue_worker_step_def t Let_def prod.case
    by (intro outcome_if outcome_bind [where P = L] restart access sample)
       (use w1 in \<open>auto intro!: carrier intro: upd_timers weaken\<close>)
qed

end

lemma host_inv_dcd: "host_inv k w \<Longrightarrow> host_inv k (csma_set_dcd b w)"
proof -
  assume w: "host_inv k w"
  have "csma_wf ((cs w)\<lparr>dcd := b\<rparr>)" using host_inv_csma_wf [OF w] by (simp add: csma_wf_def)
  then show ?thesis unfolding csma_set_dcd_def by (rule host_inv_cs [OF w])
qed

interpretation hw: worker_layer False "host_inv k" "host_inv k" "host_inv k" for k
proof unfold_locales
  fix w and E :: env assume w: "host_inv k w"
  show "\<exists>t. csma_get_cw E w = Some (t, next_read w)"
    using csma_get_cw_range [OF host_inv_csma_wf [OF w], of E] by blast
  show "outcome False (host_inv k) (csma_update_current_rssi E w)"
    by (rule host_inv_chan [OF _ w], drule csma_update_current_rssi_ok [of _ _ E]) (simp add: outcome_def)
  show "outcome False (host_inv k) (rnode_start E w)"
    using rnode_start_outcome [OF w, of E] by (simp add: outcome_def)
next
  fix w q assume "host_inv k w" "\<And>xs. queue_rep (qu w) xs \<Longrightarrow> queue_rep q xs"
  then show "host_inv k (w\<lparr>qu := q\<rparr>)" by (blast intro: host_inv_qu)
qed (simp_all add: host_inv_dcd send_packet_outcome)

lemma worker_access_outcome: "host_inv k w \<Longrightarrow> outcome False (host_inv k) (worker_access E now w)"
  and queue_worker_step_outcome: "host_inv k w \<Longrightarrow> outcome False (host_inv k) (queue_worker_step E w)"
  by (rule hw.access hw.worker_round, assumption)+

subsection \<open>A burst\<close>

text \<open>
  In a burst the packet goes without a look at the medium; the flag is reset when nothing could be sent, or when the packet was the last. (When
  the packet that starts a burst is the last of the queue, no code resets the flag: see \<^verbatim>\<open>Listening\<close>.)
\<close>

definition end_flush :: "bool \<times> world \<Rightarrow> world" where
  "end_flush = (\<lambda>(sent, w). if \<not> sent \<or> q_head (qu w) = None then upd_qu (\<lambda>q. q\<lparr>flushing := False\<rparr>) w else w)"

lemma flushing_access:
  "flushing (qu w) \<Longrightarrow> worker_access E now w = map_option end_flush (send_packet E w)"
  by (cases "send_packet E w") (auto simp: worker_access_def end_flush_def)

end
