(* ===== verification/Tcp.thy ===== *)
theory Tcp
  imports QueueWorker
begin

section \<open>The socket loop\<close>

text \<open>
  \<^verbatim>\<open>tcp_init\<close> and \<^verbatim>\<open>tcp_read\<close> of \<^verbatim>\<open>src/tcp.c\<close>. What the socket calls of one turn return is the record
  \<open>net\<close>: \<open>ready\<close> is the descriptor set after \<^verbatim>\<open>select\<close>. The decoder works on the bytes read and calls the
  command dispatch. Two facts about connections: the decoder keeps its state when the client
  changes, and a read that would block closes the connection. That a stream is processed however it is cut into reads is
  proved once, for every invariant of the \<open>command_layer\<close>.
\<close>

datatype read_result = Read_bytes "u8 list" | Read_eof | Read_again | Read_error

record net =
  select_ret :: int
  select_eintr :: bool
  ready :: "int list"
  accept_ret :: int
  read_ret :: read_result

subsection \<open>The code\<close>

text \<open>The calls of \<^verbatim>\<open>tcp_init\<close>; \<open>Inl\<close> is the message of the \<^verbatim>\<open>exit\<close>. \<^verbatim>\<open>htons\<close> cuts the port to sixteen bits.\<close>

datatype tcp_error = Socket_failed | Bind_failed | Listen_failed

definition tcp_init :: "int \<Rightarrow> (u16 \<Rightarrow> int) \<Rightarrow> int \<Rightarrow> u32 \<Rightarrow> world \<Rightarrow> tcp_error + world" where
  "tcp_init socket_ret bind_ret listen_ret port w =
     (let w = w\<lparr>tcp := (tcp w)\<lparr>server_fd := socket_ret\<rparr>\<rparr> in
      if server_fd (tcp w) = 0 then Inl Socket_failed
      else if bind_ret (ucast port) < 0 then Inl Bind_failed
      else if listen_ret < 0 then Inl Listen_failed
      else Inr w)"

definition tcp_accept :: "env \<Rightarrow> net \<Rightarrow> world \<Rightarrow> world option" where
  "tcp_accept E n w =
     (let new_fd = accept_ret n in
      if new_fd < 0 then Some w
      else
        let w = (if 0 < client_fd (tcp w) then emit [TcpClose (client_fd (tcp w))] w else w);
            w = emit [TcpAccept new_fd] (w\<lparr>tcp := (tcp w)\<lparr>client_fd := new_fd\<rparr>\<rparr>)
        in rnode_indicate_reset E w)"

definition kiss_input :: "env \<Rightarrow> u8 list \<Rightarrow> world \<Rightarrow> world option" where
  "kiss_input E bytes w = do {
     (k, w) \<leftarrow> kiss_decode (rnode_from_channel E) bytes (kiss_in w, w);
     Some (w\<lparr>kiss_in := k\<rparr>) }"

definition tcp_receive :: "env \<Rightarrow> net \<Rightarrow> world \<Rightarrow> world option" where
  "tcp_receive E n w = (case read_ret n of
     Read_bytes bytes \<Rightarrow>
       kiss_input E bytes (w\<lparr>tcp := (tcp w)\<lparr>tcp_buf_in := bytes @ drop (length bytes) (tcp_buf_in (tcp w))\<rparr>\<rparr>)
   | _ \<Rightarrow> Some (emit [TcpClose (client_fd (tcp w))] (w\<lparr>tcp := (tcp w)\<lparr>client_fd := 0\<rparr>\<rparr>)))"

definition tcp_read :: "env \<Rightarrow> net \<Rightarrow> world \<Rightarrow> world option" where
  "tcp_read E n w =
     (if select_ret n < 0 \<and> \<not> select_eintr n then Some w
      else do {
        w \<leftarrow> (if server_fd (tcp w) \<in> set (ready n) then tcp_accept E n w else Some w);
        if 0 < client_fd (tcp w) \<and> client_fd (tcp w) \<in> set (ready n) then tcp_receive E n w
        else Some w })"

text \<open>The bytes a turn takes from the client: those of its \<^verbatim>\<open>read\<close>, if it comes to that.\<close>

definition tcp_taken :: "env \<Rightarrow> net \<Rightarrow> world \<Rightarrow> u8 list" where
  "tcp_taken E n w =
     (if select_ret n < 0 \<and> \<not> select_eintr n then []
      else case (if server_fd (tcp w) \<in> set (ready n) then tcp_accept E n w else Some w) of
        None \<Rightarrow> []
      | Some w1 \<Rightarrow>
          (if 0 < client_fd (tcp w1) \<and> client_fd (tcp w1) \<in> set (ready n)
           then (case read_ret n of Read_bytes bytes \<Rightarrow> bytes | _ \<Rightarrow> []) else []))"

subsection \<open>A stream of frames in pieces\<close>

text \<open>
  \<open>on_stream good k todo\<close>: the decoder in state \<open>k\<close> is somewhere in a stream of whole frames with good payloads, of
  which the bytes \<open>todo\<close> are still to come. The reads of the socket cut the stream anywhere.
\<close>

definition on_stream :: "(u8 list \<Rightarrow> bool) \<Rightarrow> kiss_st \<Rightarrow> u8 list \<Rightarrow> bool" where
  "on_stream good k todo \<longleftrightarrow> kiss_wf k \<and> (\<exists>k0 pre ps. kiss_ready k0 \<and> list_all good ps \<and> concat (map kiss_frame ps) = pre @ todo
     \<and> (\<forall>(cb :: u8 list \<Rightarrow> nat \<Rightarrow> world \<Rightarrow> world option) w r. kiss_decode cb (pre @ r) (k0, w) = kiss_decode cb r (k, w)))"

lemma on_stream_wf: "on_stream good k todo \<Longrightarrow> kiss_wf k"
  by (simp add: on_stream_def)

lemma on_stream_ready: "kiss_ready k \<Longrightarrow> list_all good ps \<Longrightarrow> on_stream good k (concat (map kiss_frame ps))"
  unfolding on_stream_def by (rule conjI, simp add: kiss_ready_def, rule exI [of _ k], rule exI [of _ "[]"]) auto

context command_layer
begin

lemma stream_pieces:
  assumes good: "\<And>p. good p \<Longrightarrow> kiss_fits p"
    and ok: "\<And>p buf w. good p \<Longrightarrow> length buf = MTU \<Longrightarrow> take (length p) buf = p \<Longrightarrow> J i w \<Longrightarrow>
      cmd_allowed R K (hd buf) (tl buf) (length p - 1) w \<and> cmd_defined (hd buf) (tl buf) w"
  shows "kiss_ready k \<Longrightarrow> list_all good ps \<Longrightarrow> concat (map kiss_frame ps) = pre @ todo \<Longrightarrow> J i w \<Longrightarrow>
    \<exists>k' w'. kiss_decode (rnode_from_channel E) pre (k, w) = Some (k', w') \<and> J i w' \<and> on_stream good k' todo
      \<and> (todo = [] \<longrightarrow> kiss_ready k')"
proof (induction ps arbitrary: k pre w)
  case Nil
  then show ?case using on_stream_ready [of k good "[]"] by auto
next
  case (Cons p ps)
  have p: "good p" "0 < length p" "length p < MTU" using Cons.prems(2) good [of p] by (simp_all add: kiss_fits_def)
  consider suf where "kiss_frame p = pre @ suf" "suf \<noteq> []" "todo = suf @ concat (map kiss_frame ps)"
    | post where "pre = kiss_frame p @ post" "concat (map kiss_frame ps) = post @ todo"
    using Cons.prems(3) append_Nil2 by (fastforce simp: append_eq_append_conv2)
  then show ?case
  proof cases
    case 1
    obtain k1 where k1: "kiss_wf k1"
      "\<And>(cb :: u8 list \<Rightarrow> nat \<Rightarrow> world \<Rightarrow> world option) w r. kiss_decode cb (pre @ r) (k, w) = kiss_decode cb r (k1, w)"
      using kiss_decode_part [OF Cons.prems(1) p(3) 1(1,2), where 'w = world] by blast
    have "on_stream good k1 todo"
      unfolding on_stream_def using Cons.prems(1-3) k1 by (intro conjI exI [of _ k] exI [of _ pre] exI [of _ "p # ps"]) auto
    moreover have "kiss_decode (rnode_from_channel E) pre (k, w) = Some (k1, w)" using k1(2) [of _ "[]" w] by simp
    ultimately show ?thesis using Cons.prems(4) 1(2,3) by blast
  next
    case 2
    obtain buf k1 where b: "kiss_ready k1" "length buf = MTU" "take (length p) buf = p"
      "\<And>w bytes. kiss_decode (rnode_from_channel E) (kiss_frame p @ bytes) (k, w) =
         Option.bind (rnode_from_channel E buf (length p) w) (\<lambda>w'. kiss_decode (rnode_from_channel E) bytes (k1, w'))"
      using kiss_decode_frame [OF Cons.prems(1) p(2,3), of "rnode_from_channel E"] by blast
    obtain w1 where w1: "rnode_from_channel E buf (length p) w = Some w1" "J i w1"
      using dispatch [OF Cons.prems(4) b(2) p(2,3), of E] ok [OF p(1) b(2,3) Cons.prems(4)] by (auto simp: outcome_def)
    from Cons.IH [OF b(1) _ 2(2) w1(2)] Cons.prems(2) show ?thesis by (simp add: 2(1) b(4) w1(1))
  qed
qed

lemma accepting: "J k w \<Longrightarrow> gives (J k) (tcp_accept E n w)"
proof -
  assume j: "J k w"
  have t: "J k (w\<lparr>tcp := t\<rparr>)" if "J k w" for t w
    using drv [of w "Some (w\<lparr>tcp := t\<rparr>)" k] that by (simp add: drv_ok_def lines_ok_def rest_def txfifo_def del: drv_rn_eq)
  have e: "J k (emit es w)" if "J k w" "list_all host_io es" for es w
    using drv [of w "Some (emit es w)" k] that(1) host_io_pins [OF that(2)] host_io_fifo [OF that(2)]
    by (simp add: drv_ok_def lines_ok_def rest_def trace_safe_levels txfifo_def del: drv_rn_eq)
  show ?thesis
    using j by (auto simp: tcp_accept_def Let_def rnode_indicate_reset_def intro!: answer e t)
qed

text \<open>A turn of the socket loop that takes the next bytes of such a stream.\<close>

lemma socket_turn:
  assumes good: "\<And>p. good p \<Longrightarrow> kiss_fits p"
    and ok: "\<And>p buf i w. good p \<Longrightarrow> length buf = MTU \<Longrightarrow> take (length p) buf = p \<Longrightarrow> J i w \<Longrightarrow>
      cmd_allowed R K (hd buf) (tl buf) (length p - 1) w \<and> cmd_defined (hd buf) (tl buf) w"
    and w: "J (kiss_in w) w" "on_stream good (kiss_in w) (tcp_taken E n w @ todo)"
  shows "\<exists>w'. tcp_read E n w = Some w' \<and> J (kiss_in w') w' \<and> on_stream good (kiss_in w') todo"
proof -
  have input: "\<exists>v'. kiss_input E c v = Some v' \<and> J (kiss_in v') v' \<and> on_stream good (kiss_in v') todo"
    if v: "J (kiss_in v) v" "on_stream good (kiss_in v) (c @ todo)" for v c
  proof -
    obtain k0 pre ps where s: "kiss_ready k0" "list_all good ps" "concat (map kiss_frame ps) = pre @ c @ todo"
      "\<And>(cb :: u8 list \<Rightarrow> nat \<Rightarrow> world \<Rightarrow> world option) w r. kiss_decode cb (pre @ r) (k0, w) = kiss_decode cb r (kiss_in v, w)"
      using v(2) by (auto simp: on_stream_def)
    have "\<exists>k' v'. kiss_decode (rnode_from_channel E) (pre @ c) (k0, v) = Some (k', v') \<and> J (kiss_in v) v' \<and> on_stream good k' todo
      \<and> (todo = [] \<longrightarrow> kiss_ready k')"
      by (rule stream_pieces [OF good ok s(1,2) _ v(1)]) (simp_all add: s(3))
    then obtain k' v' where "kiss_decode (rnode_from_channel E) (pre @ c) (k0, v) = Some (k', v')" "J (kiss_in v) v'"
      "on_stream good k' todo" by blast
    then show ?thesis using set_decoder [of "kiss_in v" v' k'] by (auto simp: kiss_input_def s(4))
  qed
  have tcp: "J k (v\<lparr>tcp := t\<rparr>)" if "J k v" for k v t
    using drv [of v "Some (v\<lparr>tcp := t\<rparr>)" k] that by (simp add: drv_ok_def lines_ok_def rest_def txfifo_def del: drv_rn_eq)
  have close: "J k (emit [TcpClose fd] v)" if "J k v" for k v fd
    using drv [of v "Some (emit [TcpClose fd] v)" k] that host_io_pins [of "[TcpClose fd]"] host_io_fifo [of "[TcpClose fd]"]
    by (simp add: drv_ok_def lines_ok_def rest_def trace_safe_levels txfifo_def del: drv_rn_eq)
  have "gives (J (kiss_in w)) (if server_fd (tcp w) \<in> set (ready n) then tcp_accept E n w else Some w)"
    using accepting [OF w(1), of E n] w(1) by simp
  then obtain w1 where w1: "(if server_fd (tcp w) \<in> set (ready n) then tcp_accept E n w else Some w) = Some w1"
    "J (kiss_in w) w1" unfolding gives_def by blast
  have k: "kiss_in w1 = kiss_in w" by (rule decoder [OF w1(2)])
  have recv: "\<exists>w'. tcp_receive E n w1 = Some w' \<and> J (kiss_in w') w' \<and> on_stream good (kiss_in w') todo"
    if "tcp_taken E n w = (case read_ret n of Read_bytes bytes \<Rightarrow> bytes | _ \<Rightarrow> [])"
  proof (cases "read_ret n")
    case (Read_bytes c)
    have "kiss_in (w1\<lparr>tcp := t\<rparr>) = kiss_in w" for t using k by simp
    then show ?thesis using input [of "w1\<lparr>tcp := t\<rparr>" c for t] tcp [OF w1(2)] that w(2) Read_bytes by (simp add: tcp_receive_def)
  qed (use that w(2) k close [OF tcp [OF w1(2)]] in \<open>simp_all add: tcp_receive_def\<close>)
  have skip: "J (kiss_in w1) w1 \<and> on_stream good (kiss_in w1) todo" if "tcp_taken E n w = []"
    using that w(2) w1(2) k by simp
  show ?thesis
  proof (cases "select_ret n < 0 \<and> \<not> select_eintr n")
    case True
    then show ?thesis using w by (simp add: tcp_read_def tcp_taken_def)
  next
    case False
    show ?thesis
    proof (cases "0 < client_fd (tcp w1) \<and> client_fd (tcp w1) \<in> set (ready n)")
      case True
      have "tcp_taken E n w = (case read_ret n of Read_bytes bytes \<Rightarrow> bytes | _ \<Rightarrow> [])"
        unfolding tcp_taken_def w1(1) by (simp only: False True if_False if_True option.case simp_thms)
      from recv [OF this] show ?thesis
        unfolding tcp_read_def w1(1) by (simp only: False True if_False if_True bind.bind_lunit simp_thms)
    next
      case idle: False
      have "tcp_taken E n w = []" unfolding tcp_taken_def w1(1) by (simp only: False idle if_False option.case)
      from skip [OF this] show ?thesis
        unfolding tcp_read_def w1(1) by (simp only: False idle if_False bind.bind_lunit) blast
    qed
  qed
qed

end

subsection \<open>Input from the host is safe\<close>

text \<open>
  The decoder with a callback that keeps an invariant whenever it returns: a partial version of
  \<open>kiss_decode_total\<close>.
\<close>

lemma kiss_decode_safe:
  assumes cb: "\<And>buf n w w'. length buf = MTU \<Longrightarrow> 0 < n \<Longrightarrow> n < MTU \<Longrightarrow> I w \<Longrightarrow> cb buf n w = Some w' \<Longrightarrow> I w'"
    and "kiss_wf k" "I w" "kiss_decode cb bytes (k, w) = Some (k', w')"
  shows "kiss_wf k' \<and> I w'"
  using assms(2-)
proof (induction bytes arbitrary: k w)
  case (Cons byte bytes)
  consider (fend) "byte = FEND" | (esc) "byte \<noteq> FEND" "kiss_sync k" "byte = FESC"
    | (data) "byte \<noteq> FEND" "kiss_sync k" "byte \<noteq> FESC" | (skip) "byte \<noteq> FEND" "\<not> kiss_sync k"
    by blast
  then show ?case
  proof cases
    case fend
    then obtain w1 where "I w1" "kiss_decode cb bytes (k\<lparr>kiss_len_in := 0, kiss_sync := True\<rparr>, w1) = Some (k', w')"
      using Cons.prems cb [of "kiss_buf_in k" "kiss_len_in k" w]
      by (cases "kiss_sync k \<and> 0 < kiss_len_in k") (auto simp: kiss_wf_def split: bind_splits)
    with Cons.IH [OF kiss_wf_updates(1) [OF Cons.prems(1)]] show ?thesis by blast
  next
    case data
    define k1 where "k1 = k\<lparr>kiss_buf_in := (kiss_buf_in k)[kiss_len_in k := kiss_unescape (kiss_escape k) byte],
      kiss_len_in := kiss_len_in k + 1, kiss_escape := False\<rparr>"
    have "kiss_decode cb (byte # bytes) (k, w) = (if MTU \<le> kiss_len_in k1
        then Some (k1\<lparr>kiss_len_in := 0, kiss_escape := False, kiss_sync := False\<rparr>, w) else kiss_decode cb bytes (k1, w))"
      using data Cons.prems(1) by (simp add: store_at_def kiss_wf_def Let_def k1_def)
    moreover have "length (kiss_buf_in k1) = MTU" using Cons.prems(1) by (simp add: k1_def kiss_wf_def)
    ultimately show ?thesis
      using Cons.IH [of k1 w] Cons.prems(2,3) by (auto simp: kiss_wf_def split: if_splits)
  next
    case esc
    with Cons.IH [OF kiss_wf_updates(2) [OF Cons.prems(1)]] Cons.prems show ?thesis by auto
  qed (use Cons in simp_all)
qed simp

text \<open>
  Whatever bytes the host sends, cut into reads in any way: if the daemon goes on, its invariant holds,
  the decoder's buffer included.
\<close>

definition sys_inv :: "world \<Rightarrow> bool" where
  "sys_inv w \<longleftrightarrow> host_inv (kiss_in w) w \<and> kiss_wf (kiss_in w)"

lemma host_inv_tcp: "host_inv k w \<Longrightarrow> host_inv k (w\<lparr>tcp := t\<rparr>)"
  by (erule host_inv_obtain, rule host_invI)
     (simp_all add: drv_ok_def lines_ok_def rest_def txfifo_def del: drv_rn_eq)

lemma host_inv_emit:
  assumes "host_inv k w" "list_all host_io es"
  shows "host_inv k (emit es w)"
proof (rule host_inv_obtain [OF assms(1)])
  fix c q r sf cr bw pl e xs
  assume d: "drv_ok (k, c, q, r, (sf, cr, bw, pl), e) w" "csma_wf c" "queue_rep q xs" "rn_wf r"
  have "drv_ok (k, c, q, r, (sf, cr, bw, pl), e) (emit es w)"
    using d(1) host_io_pins [OF assms(2)] host_io_fifo [OF assms(2)]
    by (simp add: drv_ok_def lines_ok_def rest_def trace_safe_levels txfifo_def del: drv_rn_eq)
  then show ?thesis using d(2-) by (rule host_invI)
qed

lemma outcome_weak: "outcome D P m \<Longrightarrow> m = Some w \<Longrightarrow> P w"
  by (simp add: outcome_def)

lemma kiss_input_safe:
  assumes "sys_inv w" "kiss_input E bytes w = Some w'"
  shows "sys_inv w'"
proof -
  obtain k w1 where d: "kiss_decode (rnode_from_channel E) bytes (kiss_in w, w) = Some (k, w1)" "w' = w1\<lparr>kiss_in := k\<rparr>"
    using assms(2) by (auto simp: kiss_input_def split: bind_splits)
  have "kiss_wf k \<and> host_inv (kiss_in w) w1"
  proof (rule kiss_decode_safe [OF _ _ _ d(1)])
    fix buf n v v'
    assume "length buf = MTU" "0 < n" "n < MTU" "host_inv (kiss_in w) v" "rnode_from_channel E buf n v = Some v'"
    then show "host_inv (kiss_in w) v'" using rnode_from_channel_outcome outcome_weak by blast
  qed (use assms(1) in \<open>simp_all add: sys_inv_def\<close>)
  then show ?thesis using d(2) by (auto simp: sys_inv_def intro: host_inv_kiss)
qed

lemma tcp_accept_safe:
  assumes "host_inv k w"
  shows "gives (host_inv k) (tcp_accept E n w)"
proof -
  have "host_inv k (emit [TcpAccept fd] ((if 0 < client_fd (tcp w) then emit [TcpClose (client_fd (tcp w))] w else w)\<lparr>tcp := t\<rparr>))" for fd t
    using assms by (intro host_inv_emit host_inv_tcp) (auto intro: host_inv_emit)
  then show ?thesis
    using assms by (auto simp: tcp_accept_def Let_def rnode_indicate_reset_def intro!: host_inv_encode)
qed

lemma tcp_read_safe:
  assumes "sys_inv w" "tcp_read E n w = Some w'"
  shows "sys_inv w'"
proof -
  have recv: "sys_inv v'" if "sys_inv v" "tcp_receive E n v = Some v'" for v v'
  proof -
    have inv: "sys_inv (v\<lparr>tcp := t\<rparr>)" for t using that(1) by (simp add: sys_inv_def host_inv_tcp)
    have "sys_inv (emit [TcpClose fd] (v\<lparr>tcp := t\<rparr>))" for fd t
      using inv [of t] by (simp add: sys_inv_def host_inv_emit)
    then show ?thesis using that(2) kiss_input_safe [OF inv] by (auto simp: tcp_receive_def split: read_result.splits)
  qed
  have acc: "sys_inv v" if "tcp_accept E n w = Some v" for v
  proof -
    have "host_inv (kiss_in w) v" using tcp_accept_safe [of "kiss_in w" w E n] assms(1) that by (simp add: sys_inv_def gives_def)
    then show ?thesis using host_inv_kiss_in [of "kiss_in w" v] assms(1) by (simp add: sys_inv_def)
  qed
  show ?thesis
    using assms recv acc by (auto simp: tcp_read_def split: if_splits bind_splits)
qed

subsection \<open>Changing clients\<close>

text \<open>
  When a client connects, the decoder keeps the bytes of the previous one: an unfinished frame is
  executed by the first delimiter of the new client.
\<close>

lemma tcp_accept_keeps_decoder:
  assumes "host_inv k w" "tcp_accept E n w = Some w'"
  shows "kiss_in w' = kiss_in w"
  using tcp_accept_safe [OF assms(1), of E n] assms by (auto simp: gives_def dest: host_inv_kiss_in)

text \<open>A read that would block (\<^verbatim>\<open>EAGAIN\<close>) closes the connection like an error.\<close>

lemma tcp_receive_again:
  "tcp_receive E n w = Some w' \<Longrightarrow> read_ret n = Read_again \<Longrightarrow>
     client_fd (tcp w') = 0 \<and> trace w' = trace w @ [TcpClose (client_fd (tcp w))]"
  by (auto simp: tcp_receive_def)

end
