(* ===== verification/Config.thy ===== *)
theory Config
  imports Machine
begin

section \<open>The configuration and the debug dump\<close>

text \<open>
  \<^verbatim>\<open>src/config.c\<close> is a table that tells the library cyaml how a configuration file is laid out, and one call of that
  library. The table is here as data; the library is a parameter, a function from the file name, its settings and the
  table to the error or the loaded configuration, which is what its documentation promises. \<^verbatim>\<open>dump\<close> of \<^verbatim>\<open>src/util.c\<close> prints
  bytes in hexadecimal.
\<close>

subsection \<open>The loaded configuration\<close>

record config_gpio_t =
  port :: u8
  pin :: u8

record config_t =
  cfg_spi :: string
  cfg_cs :: config_gpio_t
  cfg_rst :: config_gpio_t
  cfg_busy :: config_gpio_t
  cfg_dio1 :: config_gpio_t
  cfg_rx_en :: config_gpio_t
  cfg_tx_en :: config_gpio_t
  cfg_tcp_port :: u32

subsection \<open>The schema\<close>

text \<open>The schema entries the file uses, as the macros of cyaml build them: the key in the file, the flags, the member of the
  structure with its size in bytes, and for strings the bounds of the length (\<open>None\<close> is \<^verbatim>\<open>CYAML_UNLIMITED\<close>).\<close>

datatype cyaml_flag = CYAML_FLAG_DEFAULT | CYAML_FLAG_POINTER

datatype cyaml_field =
    CYAML_FIELD_UINT string cyaml_flag string nat
  | CYAML_FIELD_STRING_PTR string cyaml_flag string nat "nat option"
  | CYAML_FIELD_MAPPING string cyaml_flag string "cyaml_field list"

datatype cyaml_value = CYAML_VALUE_MAPPING cyaml_flag "cyaml_field list"

datatype cyaml_log_level = CYAML_LOG_DEBUG | CYAML_LOG_INFO | CYAML_LOG_NOTICE | CYAML_LOG_WARNING | CYAML_LOG_ERROR

definition gpio_fields_schema :: "cyaml_field list" where
  "gpio_fields_schema =
     [CYAML_FIELD_UINT ''port'' CYAML_FLAG_DEFAULT ''port'' 1,
      CYAML_FIELD_UINT ''pin'' CYAML_FLAG_DEFAULT ''pin'' 1]"

definition config_fields_schema :: "cyaml_field list" where
  "config_fields_schema =
     [CYAML_FIELD_STRING_PTR ''spi'' CYAML_FLAG_POINTER ''spi'' 0 None,
      CYAML_FIELD_MAPPING ''cs'' CYAML_FLAG_DEFAULT ''cs'' gpio_fields_schema,
      CYAML_FIELD_MAPPING ''rst'' CYAML_FLAG_DEFAULT ''rst'' gpio_fields_schema,
      CYAML_FIELD_MAPPING ''busy'' CYAML_FLAG_DEFAULT ''busy'' gpio_fields_schema,
      CYAML_FIELD_MAPPING ''dio1'' CYAML_FLAG_DEFAULT ''dio1'' gpio_fields_schema,
      CYAML_FIELD_MAPPING ''rx_en'' CYAML_FLAG_DEFAULT ''rx_en'' gpio_fields_schema,
      CYAML_FIELD_MAPPING ''tx_en'' CYAML_FLAG_DEFAULT ''tx_en'' gpio_fields_schema,
      CYAML_FIELD_UINT ''tcp_port'' CYAML_FLAG_DEFAULT ''tcp_port'' 4]"

definition config_schema :: cyaml_value where
  "config_schema = CYAML_VALUE_MAPPING CYAML_FLAG_POINTER config_fields_schema"

definition cyaml_config :: cyaml_log_level where
  "cyaml_config = CYAML_LOG_WARNING"

type_synonym cyaml_loader = "string \<Rightarrow> cyaml_log_level \<Rightarrow> cyaml_value \<Rightarrow> nat + config_t"

text \<open>\<^verbatim>\<open>config_load\<close>: the result, and what the pointer \<^verbatim>\<open>config\<close> then points to. \<open>Inl\<close> is an error of the library.\<close>

definition config_load :: "cyaml_loader \<Rightarrow> string \<Rightarrow> bool \<times> config_t option" where
  "config_load cyaml_load_file filename =
     (case cyaml_load_file filename cyaml_config config_schema of
        Inl err \<Rightarrow> (False, None)
      | Inr config \<Rightarrow> (True, Some config))"

text \<open>The keys of a schema name the members they fill, each once, and a number is as wide as its member.\<close>

primrec field_key :: "cyaml_field \<Rightarrow> string" where
  "field_key (CYAML_FIELD_UINT k f m n) = k"
| "field_key (CYAML_FIELD_STRING_PTR k f m a b) = k"
| "field_key (CYAML_FIELD_MAPPING k f m s) = k"

primrec field_member :: "cyaml_field \<Rightarrow> string" where
  "field_member (CYAML_FIELD_UINT k f m n) = m"
| "field_member (CYAML_FIELD_STRING_PTR k f m a b) = m"
| "field_member (CYAML_FIELD_MAPPING k f m s) = m"

lemma schema_keys:
  "distinct (map field_key config_fields_schema)" "map field_key config_fields_schema = map field_member config_fields_schema"
  "distinct (map field_key gpio_fields_schema)" "map field_key gpio_fields_schema = map field_member gpio_fields_schema"
  by (simp_all add: config_fields_schema_def gpio_fields_schema_def)

subsection \<open>The dump\<close>

text \<open>The conversions of \<^verbatim>\<open>printf\<close> that \<^verbatim>\<open>dump\<close> uses: \<^verbatim>\<open>%i\<close> of a non-negative number and \<^verbatim>\<open>%02X\<close> of a byte.\<close>

definition digit_char :: "nat \<Rightarrow> char" where
  "digit_char n = (''0123456789ABCDEF'' ! n)"

fun dec_string :: "nat \<Rightarrow> string" where
  "dec_string n = (if n < 10 then [digit_char n] else dec_string (n div 10) @ [digit_char (n mod 10)])"

declare dec_string.simps [simp del]

definition hex_string :: "u8 \<Rightarrow> string" where
  "hex_string b = [digit_char (unat b div 16), digit_char (unat b mod 16)]"

text \<open>\<^verbatim>\<open>dump\<close>, for a length below two to the 31, which \<^verbatim>\<open>%i\<close> can show; \<open>None\<close> when it would read past the buffer.\<close>

definition dump :: "string \<Rightarrow> u8 list \<Rightarrow> nat \<Rightarrow> string option" where
  "dump label buf len =
     (if length buf < len \<or> 2 ^ 31 \<le> len then None
      else Some (label @ '' '' @ dec_string len @ '': '' @ concat (map (\<lambda>b. hex_string b @ '' '') (take len buf)) @ [CHR 0x0A]))"

text \<open>The dump can be read back: a byte's two digits determine it.\<close>

definition digit_val :: "char \<Rightarrow> nat" where
  "digit_val c = (let n = of_char c in if n < 58 then n - 48 else n - 55)"

lemma digit_val_char: "n < 16 \<Longrightarrow> digit_val (digit_char n) = n"
proof -
  assume "n < 16"
  then have "n \<in> {0, 1, 2, 3, 4, 5, 6, 7, 8, 9, 10, 11, 12, 13, 14, 15}" by (simp; presburger)
  then show ?thesis unfolding insert_iff empty_iff
    by (elim disjE) (simp_all add: digit_val_def digit_char_def)
qed

lemma hex_string_read: "of_nat (16 * digit_val (hex_string b ! 0) + digit_val (hex_string b ! 1)) = b"
proof -
  have "unat b div 16 < 16" using unat_u8 [of b] by (simp add: div_less_iff_less_mult)
  then show ?thesis by (simp add: hex_string_def digit_val_char)
qed

lemma dec_string_read: "foldl (\<lambda>v c. 10 * v + digit_val c) 0 (dec_string n) = n"
proof (induction n rule: dec_string.induct)
  case (1 n)
  then show ?case by (subst dec_string.simps) (simp add: digit_val_char)
qed

text \<open>Three characters per byte, after the label and the number.\<close>

lemma dump_bytes:
  assumes "dump label buf len = Some s"
  shows "\<exists>hs. s = label @ '' '' @ dec_string len @ '': '' @ concat hs @ [CHR 0x0A] \<and> length hs = len
    \<and> (\<forall>i<len. hs ! i = hex_string (buf ! i) @ '' '')"
  using assms by (intro exI [of _ "map (\<lambda>b. hex_string b @ '' '') (take len buf)"]) (auto simp: dump_def split: if_splits)

end
