(* ===== verification/Startup.thy ===== *)
theory Startup
  imports Tcp Config
begin

section \<open>Start-up\<close>

text \<open>
  The six line requests of \<^verbatim>\<open>sx126x/sx126x.c\<close>, the SPI set-up, the registration of callbacks and the start
  order of \<^verbatim>\<open>main\<close>. libgpiod, spidev and cyaml are libraries: the results of their calls are
  arguments (\<open>gpio_ret\<close>, \<open>spi_dev\<close>, \<open>cyaml_load_file\<close>), and every call is recorded in a log, from which \<open>held\<close>
  computes what has been allocated and not freed.
\<close>

subsection \<open>Library calls\<close>

datatype line = L_CS | L_RST | L_BUSY | L_DIO1 | L_TX_EN | L_RX_EN

datatype direction = Input | Output

datatype lib_call =
    Chip_open u8 bool | Chip_close
  | Settings_new bool | Settings_free
  | Set_direction direction | Set_output_value bool | Set_bias_pull_down | Set_edge_both
  | Config_new bool | Config_free | Add_line u8
  | Request_new bool | Request_free | Set_consumer string
  | Request_lines line bool
  | Spi_open string bool | Spi_mode u8 bool | Spi_bits u8 bool | Spi_speed u32 bool | Spi_close
  | Mutex_init | Thread_create string

text \<open>The results of the five fallible calls of one line request, and of the SPI calls.\<close>

record gpio_ret =
  chip_ok :: bool
  settings_ok :: bool
  config_ok :: bool
  request_ok :: bool
  line_ok :: bool

record spi_dev =
  open_ok :: bool
  mode_ok :: bool
  bits_ok :: bool
  speed_ok :: bool

record boot_st =
  calls :: "lib_call list"
  line_set :: "line \<Rightarrow> bool"
  line_offset :: "line \<Rightarrow> u8"
  rx_done_callback :: "(u16 \<Rightarrow> world \<Rightarrow> world option) option"
  tx_done_callback :: "(world \<Rightarrow> world option) option"
  medium_callback :: "(cause_medium_t \<Rightarrow> world \<Rightarrow> world option) option"

definition boot_init :: boot_st where
  "boot_init = \<lparr>calls = [], line_set = (\<lambda>l. False), line_offset = (\<lambda>l. 0), rx_done_callback = None,
     tx_done_callback = None, medium_callback = None\<rparr>"

definition call :: "lib_call list \<Rightarrow> boot_st \<Rightarrow> boot_st" where
  "call ls b = b\<lparr>calls := calls b @ ls\<rparr>"

subsection \<open>One line request\<close>

text \<open>
  The body the six functions share: they differ in the settings, the consumer's name, the line, and in
  whether the offset is stored (\<^verbatim>\<open>dio1_offset\<close> is not).
\<close>

definition request_line ::
  "gpio_ret \<Rightarrow> line \<Rightarrow> lib_call list \<Rightarrow> string \<Rightarrow> bool \<Rightarrow> u8 \<Rightarrow> u8 \<Rightarrow> boot_st \<Rightarrow> bool \<times> boot_st" where
  "request_line r l settings consumer store ln_port ln_pin b =
     (let b = call [Chip_open ln_port (chip_ok r)] b in
      if \<not> chip_ok r then (False, b)
      else let b = call [Settings_new (settings_ok r)] b in
      if \<not> settings_ok r then (False, call [Chip_close] b)
      else let b = call [Config_new (config_ok r)] (call settings b) in
      if \<not> config_ok r then (False, call [Settings_free, Chip_close] b)
      else let b = (if store then b\<lparr>line_offset := (line_offset b)(l := ln_pin)\<rparr> else b);
               b = call [Request_new (request_ok r)] (call [Add_line ln_pin] b) in
      if \<not> request_ok r then (False, call [Config_free, Settings_free, Chip_close] b)
      else let b = call [Request_lines l (line_ok r)] (call [Set_consumer consumer] b);
               b = b\<lparr>line_set := (line_set b)(l := line_ok r)\<rparr>;
               b = call [Request_free, Config_free, Settings_free, Chip_close] b in
      if \<not> line_ok r then (False, b) else (True, b))"

abbreviation "SPI_MODE_0_NO_CS \<equiv> 0x40 :: u8"

definition sx126x_init_spi :: "spi_dev \<Rightarrow> gpio_ret \<Rightarrow> string \<Rightarrow> u8 \<Rightarrow> u8 \<Rightarrow> boot_st \<Rightarrow> bool \<times> boot_st" where
  "sx126x_init_spi d r spidev cs_port cs_pin b =
     (let b = call [Spi_open spidev (open_ok d)] b in
      if \<not> open_ok d then (False, b)
      else let b = call [Spi_mode SPI_MODE_0_NO_CS (mode_ok d)] b in
      if \<not> mode_ok d then (False, call [Spi_close] b)
      else let b = call [Spi_bits 8 (bits_ok d)] b in
      if \<not> bits_ok d then (False, call [Spi_close] b)
      else let b = call [Spi_speed 1000000 (speed_ok d)] b in
      if \<not> speed_ok d then (False, call [Spi_close] b)
      else request_line r L_CS [Set_direction Output, Set_output_value True] ''sx126x_cs'' True cs_port cs_pin
             (call [Mutex_init] b))"

definition sx126x_init_rst :: "gpio_ret \<Rightarrow> u8 \<Rightarrow> u8 \<Rightarrow> boot_st \<Rightarrow> bool \<times> boot_st" where
  "sx126x_init_rst r = request_line r L_RST [Set_direction Output, Set_output_value False] ''sx126x_rst'' True"

definition sx126x_init_busy :: "gpio_ret \<Rightarrow> u8 \<Rightarrow> u8 \<Rightarrow> boot_st \<Rightarrow> bool \<times> boot_st" where
  "sx126x_init_busy r = request_line r L_BUSY [Set_direction Input, Set_bias_pull_down] ''sx126x_busy'' True"

definition sx126x_init_dio1 :: "gpio_ret \<Rightarrow> u8 \<Rightarrow> u8 \<Rightarrow> boot_st \<Rightarrow> bool \<times> boot_st" where
  "sx126x_init_dio1 r dio1_port dio1_pin b =
     (let (ok, b) = request_line r L_DIO1 [Set_direction Input, Set_edge_both] ''sx126x_dio1'' False dio1_port dio1_pin b
      in if \<not> ok then (False, b) else (True, call [Thread_create ''irq_worker''] b))"

definition sx126x_init_tx_en :: "gpio_ret \<Rightarrow> u8 \<Rightarrow> u8 \<Rightarrow> boot_st \<Rightarrow> bool \<times> boot_st" where
  "sx126x_init_tx_en r = request_line r L_TX_EN [Set_direction Output, Set_output_value False] ''sx126x_tx_en'' True"

definition sx126x_init_rx_en :: "gpio_ret \<Rightarrow> u8 \<Rightarrow> u8 \<Rightarrow> boot_st \<Rightarrow> bool \<times> boot_st" where
  "sx126x_init_rx_en r = request_line r L_RX_EN [Set_direction Output, Set_output_value False] ''sx126x_rx_en'' True"

definition sx126x_set_rx_done_callback :: "(u16 \<Rightarrow> world \<Rightarrow> world option) \<Rightarrow> boot_st \<Rightarrow> boot_st" where
  "sx126x_set_rx_done_callback f b = b\<lparr>rx_done_callback := Some f\<rparr>"

definition sx126x_set_tx_done_callback :: "(world \<Rightarrow> world option) \<Rightarrow> boot_st \<Rightarrow> boot_st" where
  "sx126x_set_tx_done_callback f b = b\<lparr>tx_done_callback := Some f\<rparr>"

definition sx126x_set_medium_callback :: "(cause_medium_t \<Rightarrow> world \<Rightarrow> world option) \<Rightarrow> boot_st \<Rightarrow> boot_st" where
  "sx126x_set_medium_callback f b = b\<lparr>medium_callback := Some f\<rparr>"

definition queue_init :: "boot_st \<Rightarrow> boot_st" where
  "queue_init = call [Mutex_init, Thread_create ''queue_worker'']"

subsection \<open>The start order\<close>

text \<open>The outside during start-up: the argument of the command, the library that loads the configuration, and the results of the
  other library calls and of the socket calls; that of \<^verbatim>\<open>bind\<close> depends on the port.\<close>

record boot_env =
  argv1 :: string
  cyaml_load_file :: cyaml_loader
  spi_result :: spi_dev
  gpio_result :: "line \<Rightarrow> gpio_ret"
  socket_ret :: int
  bind_ret :: "u16 \<Rightarrow> int"
  listen_ret :: int

text \<open>The sequence of fallible initialisations, stopped at the first failure.\<close>

fun init_all :: "(boot_st \<Rightarrow> bool \<times> boot_st) list \<Rightarrow> boot_st \<Rightarrow> bool \<times> boot_st" where
  "init_all [] b = (True, b)"
| "init_all (f # fs) b = (let (ok, b) = f b in if \<not> ok then (False, b) else init_all fs b)"

definition main_lines :: "boot_env \<Rightarrow> config_t \<Rightarrow> (boot_st \<Rightarrow> bool \<times> boot_st) list" where
  "main_lines B c =
     [sx126x_init_spi (spi_result B) (gpio_result B L_CS) (cfg_spi c) (port (cfg_cs c)) (pin (cfg_cs c)),
      sx126x_init_rst (gpio_result B L_RST) (port (cfg_rst c)) (pin (cfg_rst c)),
      sx126x_init_busy (gpio_result B L_BUSY) (port (cfg_busy c)) (pin (cfg_busy c)),
      sx126x_init_dio1 (gpio_result B L_DIO1) (port (cfg_dio1 c)) (pin (cfg_dio1 c)),
      sx126x_init_tx_en (gpio_result B L_TX_EN) (port (cfg_tx_en c)) (pin (cfg_tx_en c)),
      sx126x_init_rx_en (gpio_result B L_RX_EN) (port (cfg_rx_en c)) (pin (cfg_rx_en c))]"

definition register_callbacks :: "env \<Rightarrow> boot_st \<Rightarrow> boot_st" where
  "register_callbacks E b =
     sx126x_set_medium_callback (\<lambda>cause w. Some (queue_medium_state E cause w))
       (sx126x_set_tx_done_callback (rnode_tx_done E) (sx126x_set_rx_done_callback (rnode_rx_done E) b))"

text \<open>
  \<open>Inl\<close> is the exit status; \<open>Inr\<close> the state in which the loop over \<^verbatim>\<open>tcp_read\<close> starts. The worker thread exists from
  \<^verbatim>\<open>queue_init\<close> on; its rounds before the loop are left out, since with no packet and an idle radio they change the timer of the next
  sample alone (\<open>worker_before_loop\<close> in \<^verbatim>\<open>System\<close>).
\<close>

definition main_start :: "env \<Rightarrow> boot_env \<Rightarrow> int \<Rightarrow> int + (boot_st \<times> world)" where
  "main_start E B argc =
     (if argc \<noteq> 2 then Inl 1
      else case config_load (cyaml_load_file B) (argv1 B) of
        (True, Some c) \<Rightarrow>
          (let (ok, b) = init_all (main_lines B c) boot_init in
           if \<not> ok then Inl 1
           else
             let b = queue_init b;
                 w = world_init\<lparr>sx := sx_init\<lparr>tx_en_line := line_set b L_TX_EN, rx_en_line := line_set b L_RX_EN\<rparr>\<rparr>
             in case tcp_init (socket_ret B) (bind_ret B) (listen_ret B) (cfg_tcp_port c) w of
                  Inl e \<Rightarrow> Inl 1
                | Inr w \<Rightarrow> Inr (register_callbacks E b, queue_medium_state E CAUSE_INIT w))
      | _ \<Rightarrow> Inl 1)"

subsection \<open>What is acquired is released\<close>

datatype resource = R_chip | R_settings | R_config | R_request | R_spi

fun acquires :: "lib_call \<Rightarrow> resource option" where
  "acquires (Chip_open p ok) = (if ok then Some R_chip else None)"
| "acquires (Settings_new ok) = (if ok then Some R_settings else None)"
| "acquires (Config_new ok) = (if ok then Some R_config else None)"
| "acquires (Request_new ok) = (if ok then Some R_request else None)"
| "acquires (Spi_open d ok) = (if ok then Some R_spi else None)"
| "acquires _ = None"

fun releases :: "lib_call \<Rightarrow> resource option" where
  "releases Chip_close = Some R_chip"
| "releases Settings_free = Some R_settings"
| "releases Config_free = Some R_config"
| "releases Request_free = Some R_request"
| "releases Spi_close = Some R_spi"
| "releases _ = None"

text \<open>The resources held after some calls, latest first; \<open>None\<close> when something else than the latest is released.\<close>

fun held :: "resource list \<Rightarrow> lib_call list \<Rightarrow> resource list option" where
  "held st [] = Some st"
| "held st (c # ls) = (case acquires c of Some r \<Rightarrow> held (r # st) ls
     | None \<Rightarrow> (case releases c of None \<Rightarrow> held st ls
        | Some r \<Rightarrow> (case st of [] \<Rightarrow> None | x # st' \<Rightarrow> if x = r then held st' ls else None)))"

lemma held_app: "held st (xs @ ys) = Option.bind (held st xs) (\<lambda>st. held st ys)"
  by (induction st xs rule: held.induct) (auto split: option.splits list.splits)

text \<open>Calls that only configure.\<close>

definition plain_call :: "lib_call \<Rightarrow> bool" where
  "plain_call c \<longleftrightarrow> acquires c = None \<and> releases c = None"

lemma held_plain: "list_all plain_call ls \<Longrightarrow> held st ls = Some st"
  by (induction ls) (auto simp: plain_call_def)

lemma call_simps [simp]:
  "calls (call ls b) = calls b @ ls" "line_set (call ls b) = line_set b" "line_offset (call ls b) = line_offset b"
  "rx_done_callback (call ls b) = rx_done_callback b" "tx_done_callback (call ls b) = tx_done_callback b"
  "medium_callback (call ls b) = medium_callback b"
  by (simp_all add: call_def)

definition gpio_ok :: "gpio_ret \<Rightarrow> bool" where
  "gpio_ok r \<longleftrightarrow> chip_ok r \<and> settings_ok r \<and> config_ok r \<and> request_ok r \<and> line_ok r"

definition spi_ok :: "spi_dev \<Rightarrow> bool" where
  "spi_ok d \<longleftrightarrow> open_ok d \<and> mode_ok d \<and> bits_ok d \<and> speed_ok d"

text \<open>
  A request succeeds exactly when all five calls do; on every path what it acquired is released, latest
  first; the line is set on success, and no other line changes.
\<close>

lemma request_line_result:
  assumes "list_all plain_call settings"
  shows "fst (request_line r l settings consumer store p n b) = gpio_ok r"
    and "held st (calls (snd (request_line r l settings consumer store p n b))) = held st (calls b)"
    and "gpio_ok r \<Longrightarrow> line_set (snd (request_line r l settings consumer store p n b)) = (line_set b)(l := True)"
    and "line_set (snd (request_line r l settings consumer store p n b)) l' = (if l' = l \<and> chip_ok r \<and> settings_ok r \<and> config_ok r \<and> request_ok r then line_ok r else line_set b l')"
  using held_plain [OF assms]
  by (auto simp: request_line_def Let_def gpio_ok_def held_app split: bind_splits)

lemma request_line_calls:
  "gpio_ok r \<Longrightarrow> request_line r l settings consumer store p n b =
     (True, b\<lparr>calls := calls b @ [Chip_open p True, Settings_new True] @ settings @
        [Config_new True, Add_line n, Request_new True, Set_consumer consumer, Request_lines l True,
         Request_free, Config_free, Settings_free, Chip_close],
       line_set := (line_set b)(l := True), line_offset := (if store then (line_offset b)(l := n) else line_offset b)\<rparr>)"
  by (cases b) (simp add: request_line_def gpio_ok_def call_def Let_def)

text \<open>The output level a line is requested with; inputs have none.\<close>

fun driven :: "bool option \<Rightarrow> lib_call list \<Rightarrow> line \<Rightarrow> bool option" where
  "driven v [] l = None"
| "driven v (Settings_new ok # ls) l = driven None ls l"
| "driven v (Set_output_value x # ls) l = driven (Some x) ls l"
| "driven v (Request_lines l' ok # ls) l = (if l' = l \<and> ok then v else driven v ls l)"
| "driven v (_ # ls) l = driven v ls l"

lemma init_all_Cons: "init_all (f # fs) b = (True, b') \<longleftrightarrow> (\<exists>b1. f b = (True, b1) \<and> init_all fs b1 = (True, b'))"
  by (auto split: prod.split)

lemma init_spi_result:
  "fst (sx126x_init_spi d r s p n b) = (spi_ok d \<and> gpio_ok r)"
  "spi_ok d \<Longrightarrow> sx126x_init_spi d r s p n b = request_line r L_CS [Set_direction Output, Set_output_value True] ''sx126x_cs'' True p n
     (call [Spi_open s True, Spi_mode SPI_MODE_0_NO_CS True, Spi_bits 8 True, Spi_speed 1000000 True, Mutex_init] b)"
  using request_line_result(1) [of "[Set_direction Output, Set_output_value True]" r L_CS]
  by (auto simp: sx126x_init_spi_def Let_def spi_ok_def plain_call_def) (simp add: call_def)

lemma init_all_true_iff: "(fst (f b) = P) \<Longrightarrow> (f b = (True, b1)) = (P \<and> b1 = snd (f b))"
  by (cases "f b") auto

lemmas line_defs = sx126x_init_rst_def sx126x_init_busy_def sx126x_init_dio1_def sx126x_init_tx_en_def sx126x_init_rx_en_def

definition line_calls :: "line \<Rightarrow> lib_call list \<Rightarrow> string \<Rightarrow> u8 \<Rightarrow> u8 \<Rightarrow> lib_call list" where
  "line_calls l settings consumer p n = [Chip_open p True, Settings_new True] @ settings @
     [Config_new True, Add_line n, Request_new True, Set_consumer consumer, Request_lines l True,
      Request_free, Config_free, Settings_free, Chip_close]"

lemma gpio_step:
  assumes "request_line r l settings consumer store p n b = (True, b1)" "list_all plain_call settings"
  shows "calls b1 = calls b @ line_calls l settings consumer p n" "line_set b1 = (line_set b)(l := True)"
proof -
  have "gpio_ok r" using request_line_result(1) [OF assms(2), of r l consumer store p n b] assms(1) by simp
  from request_line_calls [OF this, of l settings consumer store p n b] assms(1)
  show "calls b1 = calls b @ line_calls l settings consumer p n" "line_set b1 = (line_set b)(l := True)"
    by (auto simp: line_calls_def)
qed

text \<open>The state after the six initialisations.\<close>

lemma init_all_main_lines:
  assumes "init_all (main_lines B c) boot_init = (True, b)"
  shows "line_set b = (\<lambda>l. True) \<and> driven None (calls b) L_CS = Some True \<and> driven None (calls b) L_RST = Some False
    \<and> driven None (calls b) L_TX_EN = Some False \<and> driven None (calls b) L_RX_EN = Some False
    \<and> driven None (calls b) L_BUSY = None \<and> driven None (calls b) L_DIO1 = None
    \<and> held [] (calls b) = Some [R_spi]"
proof -
  have p: "list_all plain_call [Set_direction d, Set_output_value x]" "list_all plain_call [Set_direction d, Set_bias_pull_down]"
    "list_all plain_call [Set_direction d, Set_edge_both]" for d x by (simp_all add: plain_call_def)
  obtain b1 b2 b3 b4 b5 where
    1: "sx126x_init_spi (spi_result B) (gpio_result B L_CS) (cfg_spi c) (port (cfg_cs c)) (pin (cfg_cs c)) boot_init = (True, b1)"
    and 2: "sx126x_init_rst (gpio_result B L_RST) (port (cfg_rst c)) (pin (cfg_rst c)) b1 = (True, b2)"
    and 3: "sx126x_init_busy (gpio_result B L_BUSY) (port (cfg_busy c)) (pin (cfg_busy c)) b2 = (True, b3)"
    and 4: "sx126x_init_dio1 (gpio_result B L_DIO1) (port (cfg_dio1 c)) (pin (cfg_dio1 c)) b3 = (True, b4)"
    and 5: "sx126x_init_tx_en (gpio_result B L_TX_EN) (port (cfg_tx_en c)) (pin (cfg_tx_en c)) b4 = (True, b5)"
    and 6: "sx126x_init_rx_en (gpio_result B L_RX_EN) (port (cfg_rx_en c)) (pin (cfg_rx_en c)) b5 = (True, b)"
    using assms unfolding main_lines_def init_all_Cons by auto
  have "spi_ok (spi_result B)" using init_spi_result(1) [of "spi_result B" "gpio_result B L_CS"] 1 by (metis fst_conv)
  note s1 = gpio_step [OF 1 [unfolded init_spi_result(2) [OF this]] p(1)]
  note s2 = gpio_step [OF 2 [unfolded line_defs] p(1)]
  note s3 = gpio_step [OF 3 [unfolded line_defs] p(2)]
  obtain b4' where 4: "request_line (gpio_result B L_DIO1) L_DIO1 [Set_direction Input, Set_edge_both] ''sx126x_dio1'' False
      (port (cfg_dio1 c)) (pin (cfg_dio1 c)) b3 = (True, b4')" "b4 = call [Thread_create ''irq_worker''] b4'"
    using 4 by (auto simp: sx126x_init_dio1_def split: prod.splits if_splits)
  note s4 = gpio_step [OF 4(1) p(3)]
  note s5 = gpio_step [OF 5 [unfolded line_defs] p(1)]
  note s6 = gpio_step [OF 6 [unfolded line_defs] p(1)]
  have l: "line_set b = (\<lambda>l. True)"
  proof (rule ext)
    fix l
    show "line_set b l = True" using s1(2) s2(2) s3(2) s4(2) s5(2) s6(2) 4(2) by (cases l) simp_all
  qed
  have "calls b = [Spi_open (cfg_spi c) True, Spi_mode SPI_MODE_0_NO_CS True, Spi_bits 8 True, Spi_speed 1000000 True, Mutex_init]
     @ line_calls L_CS [Set_direction Output, Set_output_value True] ''sx126x_cs'' (port (cfg_cs c)) (pin (cfg_cs c))
     @ line_calls L_RST [Set_direction Output, Set_output_value False] ''sx126x_rst'' (port (cfg_rst c)) (pin (cfg_rst c))
     @ line_calls L_BUSY [Set_direction Input, Set_bias_pull_down] ''sx126x_busy'' (port (cfg_busy c)) (pin (cfg_busy c))
     @ line_calls L_DIO1 [Set_direction Input, Set_edge_both] ''sx126x_dio1'' (port (cfg_dio1 c)) (pin (cfg_dio1 c))
     @ [Thread_create ''irq_worker'']
     @ line_calls L_TX_EN [Set_direction Output, Set_output_value False] ''sx126x_tx_en'' (port (cfg_tx_en c)) (pin (cfg_tx_en c))
     @ line_calls L_RX_EN [Set_direction Output, Set_output_value False] ''sx126x_rx_en'' (port (cfg_rx_en c)) (pin (cfg_rx_en c))"
    using s1(1) s2(1) s3(1) s4(1) s5(1) s6(1) 4(2) by (simp add: boot_init_def)
  then show ?thesis using l by (simp add: line_calls_def)
qed

text \<open>
  When the loop starts, every line has been requested, the outputs with the levels the driver's
  model starts from, nothing but the SPI device is held, the callbacks are registered, and the invariant holds.
\<close>

lemma world_init_inv: "host_inv kiss_init (world_init\<lparr>sx := sx_init\<lparr>tx_en_line := a, rx_en_line := b\<rparr>, tcp := t\<rparr>)"
  by (rule host_invI [of _ csma_init queue_init_st rnode_init "modem sx_init" "(0, [])" _ "[]"])
     (simp_all add: drv_ok_def lines_ok_def rest_def txfifo_def world_init_def levels_def levels0_def modem_def sx_init_def
        del: drv_rn_eq)

lemma driven_threads: "driven v (ls @ [Mutex_init, Thread_create n]) l = driven v ls l"
  by (induction v ls l rule: driven.induct) auto

lemma register_callbacks_simps [simp]:
  "calls (register_callbacks E b) = calls b" "line_set (register_callbacks E b) = line_set b"
  "register_callbacks E (register_callbacks E b) = register_callbacks E b"
  by (simp_all add: register_callbacks_def sx126x_set_medium_callback_def sx126x_set_tx_done_callback_def
      sx126x_set_rx_done_callback_def)

lemma tx_en_medium_state [simp]: "sx (queue_medium_state E c w) = sx w" "kiss_in (queue_medium_state E c w) = kiss_in w"
  by (cases c; simp add: queue_medium_state_def csma_set_dcd_def case_prod_unfold)+

lemma host_inv_medium_state: "host_inv k w \<Longrightarrow> host_inv k (queue_medium_state E c w)"
proof -
  assume w: "host_inv k w"
  obtain xs where xs: "queue_rep (qu w) xs" using host_inv_queue [OF w] .
  obtain q' where q': "chan_ok (k, q', rn w, modem (sx w), txfifo w) (queue_medium_state E c w)"
      "q' = (qu w)\<lparr>tx_enable := tx_enable q', flushing := flushing q', tx_disabled := tx_disabled q'\<rparr>"
    using queue_medium_state_ok [OF host_inv_chan_ok [OF w], of E c] by blast
  have "queue_rep q' xs" by (rule queue_rep_timers [OF xs]) (subst q'(2), simp)+
  then show ?thesis
    using q'(1) host_inv_rn_wf [OF w] by (auto simp: chan_ok_def chan_rest_def rest_def intro!: host_invI simp del: drv_rn_eq)
qed

lemma main_start_state:
  assumes "main_start E B argc = Inr (b, w)"
  shows "line_set b = (\<lambda>l. True)"
    and "driven None (calls b) L_CS = Some (levels0 CS)" "driven None (calls b) L_RST = Some (levels0 RST)"
    and "driven None (calls b) L_TX_EN = Some (levels0 TX_EN)" "driven None (calls b) L_RX_EN = Some (levels0 RX_EN)"
    and "driven None (calls b) L_BUSY = None" "driven None (calls b) L_DIO1 = None"
    and "held [] (calls b) = Some [R_spi]"
    and "sys_inv w" "tx_enable (qu w)" "\<not> dcd (cs w)" "tx_en_line (sx w)" "rx_en_line (sx w)"
    and "b = register_callbacks E b" "radio_state (sx w) = SX126X_IDLE"
    and "rn w = rnode_init" "channel (cs w) = channel csma_init" "queue_rep (qu w) []" "kiss_in w = kiss_init"
proof -
  obtain c b0 w0 where 1: "init_all (main_lines B c) boot_init = (True, b0)"
      "w0 = world_init\<lparr>sx := sx_init\<lparr>tx_en_line := line_set b0 L_TX_EN, rx_en_line := line_set b0 L_RX_EN\<rparr>,
         tcp := (tcp world_init)\<lparr>server_fd := socket_ret B\<rparr>\<rparr>"
      "b = register_callbacks E (queue_init b0)" "w = queue_medium_state E CAUSE_INIT w0"
    using assms
    by (auto simp: main_start_def tcp_init_def Let_def queue_init_def split: if_splits option.splits prod.splits sum.splits bool.splits)
  note b0 = init_all_main_lines [OF 1(1)]
  show "line_set b = (\<lambda>l. True)" "driven None (calls b) L_CS = Some (levels0 CS)" "driven None (calls b) L_RST = Some (levels0 RST)"
    "driven None (calls b) L_TX_EN = Some (levels0 TX_EN)" "driven None (calls b) L_RX_EN = Some (levels0 RX_EN)"
    "driven None (calls b) L_BUSY = None" "driven None (calls b) L_DIO1 = None"
    "held [] (calls b) = Some [R_spi]" "b = register_callbacks E b"
    using b0 by (simp_all add: 1(3) queue_init_def driven_threads held_app levels0_def)
  have "host_inv kiss_init w0" unfolding 1(2) by (rule world_init_inv)
  then have "host_inv kiss_init w" unfolding 1(4) by (rule host_inv_medium_state)
  then show "sys_inv w" using host_inv_kiss_in [of kiss_init w] by (simp add: sys_inv_def)
  show "tx_enable (qu w)" "\<not> dcd (cs w)"
    by (simp_all add: 1(4) queue_medium_state_def csma_set_dcd_def case_prod_unfold)
  show "tx_en_line (sx w)" "rx_en_line (sx w)" "radio_state (sx w) = SX126X_IDLE"
    using b0 by (simp_all add: 1(2,4) sx_init_def)
  have q: "queue_rep (qu w0) []" by (simp add: 1(2) world_init_def)
  show "rn w = rnode_init" "channel (cs w) = channel csma_init" "kiss_in w = kiss_init"
    by (simp_all add: 1(2,4) queue_medium_state_def csma_set_dcd_def world_init_def case_prod_unfold)
  show "queue_rep (qu w) []"
    unfolding 1(4) queue_medium_state_def csma_set_dcd_def case_prod_unfold
    by (rule queue_rep_timers [OF q]) simp_all
qed

text \<open>Start-up fails only with status 1, and then without the loop ever starting; success is possible.\<close>

lemma main_start_Inl: "main_start E B argc = Inl e \<Longrightarrow> e = 1"
  by (auto simp: main_start_def Let_def split: if_splits option.splits prod.splits sum.splits bool.splits)

text \<open>The six initialisations succeed together exactly when every library call does.\<close>

lemma init_all_step: "fst (init_all (f # fs) b) \<longleftrightarrow> fst (f b) \<and> fst (init_all fs (snd (f b)))"
  by (cases "f b") simp

lemma init_all_ok: "fst (init_all (main_lines B c) b) \<longleftrightarrow> spi_ok (spi_result B) \<and> (\<forall>l. gpio_ok (gpio_result B l))"
proof -
  have r: "fst (request_line r l [Set_direction d, x] consumer store p n b) = gpio_ok r" if "plain_call x"
    for r l d x consumer store p n b
    using request_line_result(1) [of "[Set_direction d, x]"] that by (simp add: plain_call_def)
  have d: "fst (sx126x_init_dio1 r p n b) = gpio_ok r" for r p n b
    using r [of Set_edge_both r L_DIO1 Input "''sx126x_dio1''" False p n b]
    by (simp add: sx126x_init_dio1_def plain_call_def case_prod_unfold Let_def)
  have l: "(\<forall>l. P l) \<longleftrightarrow> P L_CS \<and> P L_RST \<and> P L_BUSY \<and> P L_DIO1 \<and> P L_TX_EN \<and> P L_RX_EN" for P
    by (metis line.exhaust)
  show ?thesis
    unfolding main_lines_def init_all_step init_spi_result d l
    by (simp add: sx126x_init_rst_def sx126x_init_busy_def sx126x_init_tx_en_def sx126x_init_rx_en_def r plain_call_def)
qed

text \<open>The loop starts exactly when everything was given: one argument, a configuration that loads, every line and the SPI device,
  and the socket, bound to the low sixteen bits of the configured port.\<close>

lemma main_start_succeeds:
  "(\<exists>b w. main_start E B argc = Inr (b, w)) \<longleftrightarrow> argc = 2
     \<and> (\<exists>c. cyaml_load_file B (argv1 B) cyaml_config config_schema = Inr c \<and> 0 \<le> bind_ret B (ucast (cfg_tcp_port c)))
     \<and> spi_ok (spi_result B) \<and> (\<forall>l. gpio_ok (gpio_result B l)) \<and> socket_ret B \<noteq> 0 \<and> 0 \<le> listen_ret B"
proof (cases "argc = 2")
  case True
  show ?thesis
  proof (cases "cyaml_load_file B (argv1 B) cyaml_config config_schema")
    case (Inl e)
    then show ?thesis by (simp add: main_start_def config_load_def)
  next
    case (Inr c)
    obtain ok b where i: "init_all (main_lines B c) boot_init = (ok, b)" by (metis surj_pair)
    with init_all_ok [of B c boot_init] have "ok \<longleftrightarrow> spi_ok (spi_result B) \<and> (\<forall>l. gpio_ok (gpio_result B l))" by simp
    with True Inr i show ?thesis by (auto simp: main_start_def config_load_def tcp_init_def Let_def)
  qed
qed (simp add: main_start_def)

end
