(* ===== verification/System.thy ===== *)
theory System
  imports Startup
begin

section \<open>The whole daemon\<close>

text \<open>
  The three threads as a step relation: a turn of the socket loop of \<^verbatim>\<open>main\<close> (\<^verbatim>\<open>tcp_read\<close>), a rising edge of DIO1 in
  \<^verbatim>\<open>irq_worker\<close> (once the radio has left the idle state for the first time), and a turn of \<^verbatim>\<open>queue_worker\<close>, from the
  state in which \<^verbatim>\<open>main\<close> enters its loop. The turns come in any order and each is taken whole: what the
  threads do to each other inside their turns is in \<^verbatim>\<open>QueueThreads\<close> and \<^verbatim>\<open>Races\<close>. A step is a defined execution of the handler; the
  interrupt handler is shown to have one unless the radio reports a received packet of no bytes, and the conditions for the others are those of
  the components. The interface \<open>interrupt_layer\<close> is what a round of the interrupt handler needs of an invariant. What holds
  in all reachable states follows by rule induction.
\<close>

record sys_st =
  sys_world :: world
  irq_running :: bool
  irq_crc_ok :: bool

text \<open>The interrupt thread with the registered callbacks.\<close>

definition irq_turn :: "env \<Rightarrow> boot_st \<Rightarrow> bool \<Rightarrow> world \<Rightarrow> (bool \<times> world) option" where
  "irq_turn E b = irq_event (rx_done_callback b) (tx_done_callback b) (medium_callback b) E"

inductive sys_step :: "env \<Rightarrow> boot_st \<Rightarrow> sys_st \<Rightarrow> sys_st \<Rightarrow> bool" for E b where
  socket_turn: "tcp_read E n (sys_world s) = Some w \<Longrightarrow> sys_step E b s (s\<lparr>sys_world := w\<rparr>)"
| irq_begin: "radio_state (sx (sys_world s)) \<noteq> SX126X_IDLE \<Longrightarrow> sys_step E b s (s\<lparr>irq_running := True\<rparr>)"
| irq_edge: "irq_running s \<Longrightarrow> irq_turn E b (irq_crc_ok s) (sys_world s) = Some (ok, w) \<Longrightarrow>
    sys_step E b s (s\<lparr>sys_world := w, irq_crc_ok := ok\<rparr>)"
| worker_turn: "queue_worker_step E (sys_world s) = Some w \<Longrightarrow> sys_step E b s (s\<lparr>sys_world := w\<rparr>)"

inductive sys_reach :: "env \<Rightarrow> boot_env \<Rightarrow> sys_st \<Rightarrow> bool" for E B where
  start: "main_start E B argc = Inr (b, w) \<Longrightarrow>
    sys_reach E B \<lparr>sys_world = w, irq_running = False, irq_crc_ok = True\<rparr>"
| step: "sys_reach E B s \<Longrightarrow> main_start E B argc = Inr (b, w) \<Longrightarrow> sys_step E b s s' \<Longrightarrow> sys_reach E B s'"

text \<open>The rounds of the worker while \<^verbatim>\<open>main\<close> is still starting: no packet, not yet allowed to send, the radio idle.\<close>

lemma worker_before_loop:
  assumes "q_head (qu w) = None" "\<not> tx_enable (qu w)" "tx_disabled (qu w) = - 1" "radio_state (sx w) = SX126X_IDLE" "fst (get_time E w) \<noteq> - 1"
  shows "\<exists>d. queue_worker_step E w = Some ((next_read w)\<lparr>qu := (qu w)\<lparr>rssi_delay := d\<rparr>\<rparr>)"
proof -
  obtain now where t: "get_time E w = (now, next_read w)" using get_time_snd [of E w] by (metis prod.collapse)
  then have "\<not> - 1 \<le> now" using assms(5) by (simp add: word_order.extremum_unique)
  then show ?thesis
    using assms(1-4) by (cases "rssi_delay (qu w) < now")
      (auto simp: queue_worker_step_def t csma_update_current_rssi_def sx126x_get_state_def upd_qu_def intro: exI [of _ "rssi_delay (qu w)"])
qed

inductive_cases sys_stepE: "sys_step E b s s'"

inductive_simps sys_step_simps: "sys_step E b s s'"

subsection \<open>The interrupt handler\<close>

lemma u8_length: "n \<noteq> 0 \<Longrightarrow> 0 < unat (ucast (n :: u8) :: u16) \<and> unat (ucast n :: u16) \<le> SINGLE_MTU"
proof -
  assume n: "n \<noteq> 0"
  have "unat (ucast n :: u16) = unat n" by (simp add: unsigned_ucast_eq take_bit_nat_eq_self less_trans [OF unsigned_less])
  then show ?thesis using n unat_u8 [of n] by (simp add: unat_gt_0)
qed

lemma host_inv_rx_done:
  assumes "host_inv k w" "n \<noteq> 0"
  shows "gives (host_inv k) (rnode_rx_done E (ucast (n :: u8)) w)"
proof (rule host_inv_obtain [OF assms(1)])
  fix c q r sf cr bw pl e xs
  assume d: "drv_ok (k, c, q, r, (sf, cr, bw, pl), e) w" "csma_wf c" "queue_rep q xs" "rn_wf r"
  from rnode_rx_done_ok [OF d(1,4), of "ucast n" E] u8_length [OF assms(2)] show ?thesis
    by (auto elim!: gives_mono intro: host_invI d(2,3))
qed

lemma host_inv_tx_done:
  assumes "host_inv k w"
  shows "gives (host_inv k) (rnode_tx_done E w)"
proof (rule host_inv_obtain [OF assms])
  fix c q r sf cr bw pl e xs
  assume d: "drv_ok (k, c, q, r, (sf, cr, bw, pl), e) w" "csma_wf c" "queue_rep q xs" "rn_wf r"
  obtain p f where e: "e = (p, f)" by force
  from rnode_tx_done_ok [OF d(1) [unfolded e] d(4), of E] show ?thesis
    by (rule gives_mono) (use d(2,3) in \<open>auto intro: host_invI\<close>)
qed

lemma givesr_if: "(b \<Longrightarrow> givesr R x) \<Longrightarrow> (\<not> b \<Longrightarrow> givesr R y) \<Longrightarrow> givesr R (if b then x else y)"
  by simp

text \<open>The length of the packet that a round of the interrupt thread reads from the radio, if it reads one.\<close>

definition packet_length :: "env \<Rightarrow> boot_st \<Rightarrow> bool \<Rightarrow> world \<Rightarrow> u8 option" where
  "packet_length E b ok w = Option.bind (irq_read (medium_callback b) E ok w) (\<lambda>((status, ok, n), w). n)"

lemma registered_callbacks:
  assumes "b = register_callbacks E b"
  shows "rx_done_callback b = Some (rnode_rx_done E)" "tx_done_callback b = Some (rnode_tx_done E)"
    "medium_callback b = Some (\<lambda>cause w. Some (queue_medium_state E cause w))"
  by (subst assms, simp add: register_callbacks_def sx126x_set_medium_callback_def sx126x_set_tx_done_callback_def
      sx126x_set_rx_done_callback_def)+

text \<open>
  The interface of an invariant for the interrupt thread: kept by what the driver does, by the two radio callbacks and
  by the medium callback. The handler, with the callbacks of \<^verbatim>\<open>main\<close>, then keeps it, and is defined unless the radio
  reports a packet of no bytes.
\<close>

locale interrupt_layer =
  fixes J :: "kiss_st \<Rightarrow> world \<Rightarrow> bool"
  assumes bus: "(\<And>S. drv_ok S w \<Longrightarrow> drv_ok S w') \<Longrightarrow> J k w \<Longrightarrow> J k w'"
    and received: "J k w \<Longrightarrow> n \<noteq> 0 \<Longrightarrow> gives (J k) (rnode_rx_done E (ucast (n :: u8)) w)"
    and transmitted: "J k w \<Longrightarrow> gives (J k) (rnode_tx_done E w)"
    and medium: "J k w \<Longrightarrow> J k (queue_medium_state E cause w)"
begin

abbreviation medium_cb :: "env \<Rightarrow> (cause_medium_t \<Rightarrow> world \<Rightarrow> world option) option" where
  "medium_cb E \<equiv> Some (\<lambda>cause w. Some (queue_medium_state E cause w))"

lemma cleared [simp]: "J k w \<Longrightarrow> J k (snd (clear_irq_status E m w))"
  by (rule bus) auto

lemma length_read: "J k w \<Longrightarrow> J k ((snd (get_rx_buffer_status E w))\<lparr>sx := (sx (snd (get_rx_buffer_status E w)))\<lparr>payload_tx_rx := n\<rparr>\<rparr>)"
  by (rule bus, rule drv_ok_sx) simp_all

lemma medium_called: "J k w \<Longrightarrow> gives (J k) (medium_call (medium_cb E) cause w)"
  by (simp add: medium_call_def medium)

lemma status_read: "J k w \<Longrightarrow> get_irq_status E w = (status, w') \<Longrightarrow> J k w'"
  using bus [OF drv_ok_queries(1) [where E = E and w = w], where k = k] by simp

lemmas chain = givesr_bindr [where P = "J k" and Q = "J k" for k] givesr_bind [where P = "J k" and Q = "J k" for k]
  gives_bind [where P = "J k" and Q = "J k" for k]

lemma flag:
  assumes "J k w"
  shows "gives (J k) (if c then medium_call (medium_cb E) cause (snd (clear_irq_status E m w)) else Some w)"
    and "givesr (J k) (if c then do {
        w \<leftarrow> medium_call (medium_cb E) cause (snd (clear_irq_status E m w)); Some (True, w) } else Some (ok, w))"
proof -
  have m: "gives (J k) (medium_call (medium_cb E) cause (snd (clear_irq_status E m w)))"
    using assms by (simp add: medium_called)
  then show "gives (J k) (if c then medium_call (medium_cb E) cause (snd (clear_irq_status E m w)) else Some w)"
    using assms by simp
  show "givesr (J k) (if c then do {
        w \<leftarrow> medium_call (medium_cb E) cause (snd (clear_irq_status E m w)); Some (True, w) } else Some (ok, w))"
    using assms by (intro givesr_if givesr_bind [OF m]) simp_all
qed

lemma reception:
  assumes "J k w"
  shows "givesr (J k) (if c then do {
       let w = (if d then snd (clear_irq_status E m w) else w);
       w \<leftarrow> medium_call (medium_cb E) cause w;
       if ok then do {
         let (n, w) = get_rx_buffer_status E w;
         Some ((status, ok, Some n), w\<lparr>sx := (sx w)\<lparr>payload_tx_rx := n\<rparr>\<rparr>) }
       else Some ((status, ok, None), w) }
     else Some ((status, ok, None), w))"
  unfolding Let_def
  by (intro givesr_if givesr_bind [where P = "J k"] medium_called)
    (use assms length_read in \<open>auto simp: case_prod_unfold\<close>)

lemma read: "J k w \<Longrightarrow> givesr (J k) (irq_read (medium_cb E) E ok w)"
proof -
  assume w: "J k w"
  obtain status w0 where s: "get_irq_status E w = (status, w0)" by force
  obtain d v where p: "(if status AND 0x0040 \<noteq> 0 then (False, snd (clear_irq_status E 0x0040 w0)) else (ok, w0)) = (d, v)" by force
  have v: "J k v" using p status_read [OF w s] by (auto split: if_splits)
  show ?thesis
    unfolding irq_read_def s Let_def prod.case p
    by (rule givesr_bindr [OF flag(2) [OF v]], simp only: prod.case, rule givesr_bind [OF flag(1)], assumption,
        rule givesr_bind [OF flag(1)], assumption, rule reception [unfolded Let_def])
qed

lemma interrupt:
  assumes w: "J k w" and b: "b = register_callbacks E b"
  shows "packet_length E b ok w \<noteq> Some 0 \<Longrightarrow> givesr (J k) (irq_turn E b ok w)"
    and "packet_length E b ok w = Some 0 \<Longrightarrow> irq_turn E b ok w = None"
proof -
  note cb = registered_callbacks [OF b]
  obtain status ok' n v where r: "irq_read (medium_cb E) E ok w = Some ((status, ok', n), v)" "J k v"
    using read [OF w, of E ok] by (auto simp: givesr_def)
  have l: "packet_length E b ok w = n" by (simp add: packet_length_def cb r(1))
  have tx: "givesr (J k) (do {
      w \<leftarrow> (if status AND 0x0001 \<noteq> 0 then do {
          w \<leftarrow> medium_call (medium_cb E) CAUSE_TX_DONE (snd (clear_irq_status E 0x0001 u)); rnode_tx_done E w }
        else Some u);
      Some (ok', w) })" if u: "J k u" for u
  proof (rule givesr_bind [where P = "J k"])
    have "gives (J k) (do { w \<leftarrow> medium_call (medium_cb E) CAUSE_TX_DONE (snd (clear_irq_status E 0x0001 u)); rnode_tx_done E w })"
      by (rule gives_bind [OF medium_called transmitted]) (use u in simp_all)
    then show "gives (J k) (if status AND 0x0001 \<noteq> 0 then do {
          w \<leftarrow> medium_call (medium_cb E) CAUSE_TX_DONE (snd (clear_irq_status E 0x0001 u)); rnode_tx_done E w }
        else Some u)" using u by simp
  qed simp
  have e: "irq_turn E b ok w = Option.bind (case n of None \<Rightarrow> Some v | Some n \<Rightarrow> rnode_rx_done E (ucast n) v) (\<lambda>u. do {
      w \<leftarrow> (if status AND 0x0001 \<noteq> 0 then do {
          w \<leftarrow> medium_call (medium_cb E) CAUSE_TX_DONE (snd (clear_irq_status E 0x0001 u)); rnode_tx_done E w }
        else Some u);
      Some (ok', w) })"
    by (simp add: irq_turn_def irq_event_def cb r(1) cong: if_cong option.case_cong)
  show "irq_turn E b ok w = None" if "packet_length E b ok w = Some 0" using that by (simp add: e l)
  show "givesr (J k) (irq_turn E b ok w)" if "packet_length E b ok w \<noteq> Some 0"
    unfolding e
  proof (rule givesr_bind [OF _ tx])
    show "gives (J k) (case n of None \<Rightarrow> Some v | Some n \<Rightarrow> rnode_rx_done E (ucast n) v)"
      using that received [OF r(2), of _ E] r(2) by (auto simp: l split: option.split)
  qed
qed

end

lemma host_inv_bus: "(\<And>S. drv_ok S w \<Longrightarrow> drv_ok S w') \<Longrightarrow> host_inv k w \<Longrightarrow> host_inv k w'"
  by (erule host_inv_obtain) (rule host_invI)

interpretation hr: interrupt_layer host_inv
proof unfold_locales
  show "host_inv k w'" if "\<And>S. drv_ok S w \<Longrightarrow> drv_ok S w'" "host_inv k w" for k w w' using that by (rule host_inv_bus)
qed (simp_all add: host_inv_rx_done host_inv_tx_done host_inv_medium_state)

lemma irq_turn_ok:
  assumes "host_inv k w" "b = register_callbacks E b"
  shows "packet_length E b ok w \<noteq> Some 0 \<Longrightarrow> givesr (host_inv k) (irq_turn E b ok w)"
    and "packet_length E b ok w = Some 0 \<Longrightarrow> irq_turn E b ok w = None"
  using hr.interrupt [OF assms] by blast+

subsection \<open>Reachable states\<close>

lemma sys_inv_host: "sys_inv w \<Longrightarrow> host_inv (kiss_in w) w" and sys_inv_kiss: "sys_inv w \<Longrightarrow> kiss_wf (kiss_in w)"
  by (simp_all add: sys_inv_def)

lemma sys_inv_keep: "sys_inv w \<Longrightarrow> host_inv (kiss_in w) w' \<Longrightarrow> sys_inv w'"
  using host_inv_kiss_in [of "kiss_in w" w'] by (simp add: sys_inv_def)

lemma sys_step_inv:
  assumes "sys_step E b s s'" "sys_inv (sys_world s)" "b = register_callbacks E b"
  shows "sys_inv (sys_world s')"
  using assms(1)
proof (rule sys_stepE)
  fix n w assume "s' = s\<lparr>sys_world := w\<rparr>" "tcp_read E n (sys_world s) = Some w"
  then show ?thesis using tcp_read_safe [OF assms(2)] by simp
next
  assume "s' = s\<lparr>irq_running := True\<rparr>"
  then show ?thesis using assms(2) by simp
next
  fix ok w assume s: "s' = s\<lparr>sys_world := w, irq_crc_ok := ok\<rparr>" "irq_turn E b (irq_crc_ok s) (sys_world s) = Some (ok, w)"
  with irq_turn_ok [OF sys_inv_host [OF assms(2)] assms(3), of "irq_crc_ok s"] sys_inv_keep [OF assms(2)] show ?thesis
    by (cases "packet_length E b (irq_crc_ok s) (sys_world s) = Some 0") (auto simp: givesr_def)
next
  fix w assume "s' = s\<lparr>sys_world := w\<rparr>" "queue_worker_step E (sys_world s) = Some w"
  then show ?thesis
    using outcome_weak [OF queue_worker_step_outcome [OF sys_inv_host [OF assms(2)]]] sys_inv_keep [OF assms(2)] by simp
qed

lemma sys_reach_inv: "sys_reach E B s \<Longrightarrow> sys_inv (sys_world s)"
proof (induction rule: sys_reach.induct)
  case (start argc b w)
  then show ?case using main_start_state(9) by simp
next
  case (step s argc b w s')
  then show ?case using sys_step_inv main_start_state(14) by blast
qed

text \<open>What the invariant says, part by part.\<close>

lemma sys_inv_parts:
  assumes "sys_inv w"
  shows "trace_safe levels0 (trace w)" "\<not> (levels (trace w) TX_EN \<and> levels (trace w) RX_EN)" "levels (trace w) CS"
    and "length (kiss_buf_in (kiss_in w)) = MTU" "kiss_len_in (kiss_in w) < MTU" "length (kiss_out w) = MTU"
    and "length (rn_buf_in (rn w)) = MTU" "rn_len_in (rn w) \<le> DATA_MTU" "length (buf_tx (rn w)) = SINGLE_MTU" "len_tx (rn w) \<le> SINGLE_MTU"
    and "\<exists>xs. queue_rep (qu w) xs" "csma_wf (cs w)"
proof -
  obtain c q r sf cr bw pl e xs where d: "drv_ok (kiss_in w, c, q, r, (sf, cr, bw, pl), e) w" "csma_wf c" "queue_rep q xs" "rn_wf r"
    using host_inv_obtain [OF sys_inv_host [OF assms]] by blast
  show "trace_safe levels0 (trace w)" "\<not> (levels (trace w) TX_EN \<and> levels (trace w) RX_EN)" "levels (trace w) CS"
    "length (kiss_out w) = MTU" using d(1) by (auto simp: drv_ok_def lines_ok_def simp del: drv_rn_eq)
  show "length (kiss_buf_in (kiss_in w)) = MTU" "kiss_len_in (kiss_in w) < MTU"
    using sys_inv_kiss [OF assms] by (simp_all add: kiss_wf_def)
  show "length (rn_buf_in (rn w)) = MTU" "rn_len_in (rn w) \<le> DATA_MTU" "length (buf_tx (rn w)) = SINGLE_MTU" "len_tx (rn w) \<le> SINGLE_MTU"
    using d(1,4) by (auto simp: rn_wf_def)
  show "\<exists>xs. queue_rep (qu w) xs" "csma_wf (cs w)" using d drv_qu_eq [OF d(1)] drv_cs_eq [OF d(1)] by auto
qed

end
