(* ===== verification/Transmit.thy ===== *)
theory Transmit
  imports RadioStart System
begin

section \<open>A packet leaves the queue\<close>

text \<open>
  The definedness of a transmission: a bound for the air time of a frame, what it adds to the air time bins,
  and, from these, that \<^verbatim>\<open>send_packet\<close> completes, puts the first frame of the oldest packet into the radio and
  removes it from the queue. A worker that wins the contention or is in a burst does this.
\<close>

subsection \<open>A bound for the air time\<close>

text \<open>With \<open>T\<close> ms per symbol and \<open>N\<close> symbols of payload.\<close>

lemma air_time_le:
  assumes sf: "save_sf s \<noteq> 0" and len: "uint len \<le> 32000"
    and n: "lora_symbols (uint (save_sf s)) (uint (save_cr s)) (uint len) \<le> int N" "N < 65536"
    and t: "fin_le (of_nat T) (air_t_sym s)" and p: "uint (save_preamble_len s) \<le> 255"
    and fit: "N * T < 2 ^ 24" "260 * T < 2 ^ 24" "(N + 260) * T < 2 ^ 32"
    and air: "sx126x_air_time s len = Some (a, h, d)"
  shows "unat a \<le> (N + 260) * T"
proof -
  let ?k = "lora_symbols (uint (save_sf s)) (uint (save_cr s)) (uint len)"
  have k0: "0 \<le> ?k" using lora_symbols_nonneg [of "uint (save_sf s)" "uint (save_cr s)" "uint len"] sf
    by (simp add: order.strict_iff_order uint_0_iff)
  have pay: "air_payload s len = Some (of_int ?k)" using air_payload_lora [OF sf len] n by simp
  have "uint (of_int ?k :: u16) = ?k" using k0 n by (simp add: uint_word_of_int)
  then have fpay: "fin_le (of_nat N) (fl (of_int ?k :: u16))"
    using k0 n(1) fl_u16_exact [of "of_int ?k"] by (simp add: of_int_le_iff [of _ "int N", where 'a = rat, simplified])
  have one: "unat x \<le> M" if "f_to_u32 v = Some x" "fin_le (of_nat M) v" "M < 2 ^ 32" for v x M
  proof -
    obtain y where y: "v = Fin y" "0 \<le> y" "y \<le> of_nat M" using \<open>fin_le (of_nat M) v\<close> by (auto simp: fin_le_def)
    have "\<lfloor>y\<rfloor> \<le> int M" "0 \<le> \<lfloor>y\<rfloor>" using y by (simp_all add: floor_le_iff)
    moreover have "x = of_int \<lfloor>y\<rfloor>" using that(1) y(2) by (auto simp: y(1) f_to_u32_def rtrunc_def split: if_splits)
    ultimately have "uint x \<le> int M"
      using zmod_le_nonneg_dividend [of "\<lfloor>y\<rfloor>" "2 ^ 32"] by (simp add: uint_word_of_int)
    then show ?thesis by (simp only: uint_nat of_nat_le_iff)
  qed
  have pre: "fin_le (of_nat (260 * T)) (f_mul f32 (f_add f32 (fl (save_preamble_len s)) (Fin (17 / 4))) (air_t_sym s))"
  proof (rule fin_le_mul [OF _ t])
    have "(0::rat) \<le> of_int (uint (save_preamble_len s)) \<and> (of_int (uint (save_preamble_len s)) :: rat) \<le> of_int 255"
      unfolding of_int_0_le_iff of_int_le_iff using p by simp
    then have "fin_le 255 (fl (save_preamble_len s))" by (simp only: fl_u8_exact fin_le_const of_int_numeral)
    moreover have "fin_le (17 / 4) (Fin (17 / 4))" by simp
    ultimately show "fin_le (of_nat 260) (f_add f32 (fl (save_preamble_len s)) (Fin (17 / 4)))" by (rule fin_le_add) simp_all
  qed (use fit in simp_all)
  have dat: "fin_le (of_nat (N * T)) (f_mul f32 (fl (of_int ?k :: u16)) (air_t_sym s))"
    by (rule fin_le_mul [OF fpay t]) (use fit in simp_all)
  have "unat h \<le> 260 * T" "unat d \<le> N * T" "a = h + d"
    using air one [OF _ pre] one [OF _ dat] fit by (auto simp: sx126x_air_time_def pay split: bind_splits)
  moreover from this have "unat (h + d) \<le> unat h + unat d" by (simp add: unat_word_ariths)
  ultimately show ?thesis by (simp add: algebra_simps)
qed

text \<open>\<open>airtime_within B m\<close>: with the modem settings \<open>m\<close> every frame takes at most \<open>B\<close> ms.\<close>

definition airtime_within :: "nat \<Rightarrow> modem \<Rightarrow> bool" where
  "airtime_within B m \<longleftrightarrow> (\<forall>s len a h d. modem s = m \<longrightarrow> uint (len :: u16) \<le> 254 \<longrightarrow>
     sx126x_air_time s len = Some (a, h, d) \<longrightarrow> unat a \<le> B)"


subsection \<open>The air time bins\<close>

text \<open>Room for two frames of \<open>B\<close> ms in every bin.\<close>

definition bins_room :: "nat \<Rightarrow> csma_st \<Rightarrow> bool" where
  "bins_room B c \<longleftrightarrow> 2 * B \<le> 45000 \<and> list_all (\<lambda>x. unat x \<le> 45000 - 2 * B) (airtime_bins c)"

text \<open>No bin above \<open>M\<close> ms.\<close>

definition bins_upto :: "nat \<Rightarrow> csma_st \<Rightarrow> bool" where
  "bins_upto M c \<longleftrightarrow> list_all (\<lambda>x. unat x \<le> M) (airtime_bins c)"

lemma bins_upto_low: "bins_upto M c \<Longrightarrow> M \<le> 45000 \<Longrightarrow> bins_low c"
  and bins_room_upto: "bins_room B c \<longleftrightarrow> 2 * B \<le> 45000 \<and> bins_upto (45000 - 2 * B) c"
  by (auto simp: bins_upto_def bins_low_def bins_room_def list_all_iff)

lemma add_airtime_bins:
  assumes "csma_wf (cs w)" "bins_upto M (cs w)" "unat a \<le> N" "csma_add_airtime E a w = Some w'"
  shows "bins_upto (M + N) (cs w')"
proof -
  obtain cb where cb: "current_airtime_bin E w = (cb, next_read w)" "unat cb < AIRTIME_BINS"
    using airtime_bin_less [of E w] airtime_bin_snd [of E w] by (metis prod.collapse)
  let ?bins = "airtime_bins (cs w)"
  have len: "length ?bins = AIRTIME_BINS" using assms(1) by (simp add: csma_wf_def)
  have low: "list_all (\<lambda>x. unat x \<le> M + N) ?bins" using assms(2) by (auto simp: bins_upto_def list_all_iff)
  have "unat (?bins ! unat cb) \<le> M" using assms(2) len cb(2) by (auto simp: bins_upto_def list_all_length)
  moreover have "unat (ucast a :: u16) \<le> unat a" by (simp add: unsigned_ucast_eq)
  moreover have "unat (?bins ! unat cb + ucast a) \<le> unat (?bins ! unat cb) + unat (ucast a :: u16)"
    by (simp add: unat_word_ariths)
  ultimately have "unat (?bins ! unat cb + ucast a) \<le> M + N" using assms(3) by linarith
  then have "list_all (\<lambda>x. unat x \<le> M + N) (?bins[unat cb := ?bins ! unat cb + ucast a, next_bin cb := 0])"
    by (intro list_all_update low) simp_all
  then show ?thesis
    using assms(4) len cb(2) by (auto simp: csma_add_airtime_def cb(1) read_at_def store_at_def next_bin_less bins_upto_def)
qed


text \<open>An update of the air time clears at most a bin, and a share that it could report can be reported again.\<close>

lemma stat_channel_Some:
  "rnode_send_stat_channel E ch w = Some w' \<Longrightarrow> cs w' = cs w \<and> channel_reportable ch"
  by (auto simp: rnode_send_stat_channel_def channel_reportable_def Let_def dest: kiss_encode_cs split: bind_splits)

lemma update_airtime_after:
  assumes "csma_update_airtime E w = Some w'"
  shows "channel_reportable (channel (cs w'))" "bins_upto M (cs w) \<Longrightarrow> bins_upto M (cs w')"
proof -
  obtain cb w1 where cb: "current_airtime_bin E w = (cb, w1)" "cs w1 = cs w"
    using airtime_bin_snd [of E w] by (metis next_read_simps(7) prod.collapse)
  obtain bins w2 w3 where b: "store_at (airtime_bins (cs w)) (next_bin cb) 0 = Some bins" "update_csma_parameters E w2 = Some w3"
    "airtime_bins (cs w2) = bins" "rnode_send_stat_channel E (channel (cs w3)) w3 = Some w'"
    using assms cb by (fastforce simp: csma_update_airtime_def upd_channel_def Let_def split: bind_splits)
  have "airtime_bins (cs w3) = bins"
    using b(2,3) by (auto simp: update_csma_parameters_def rnode_send_stat_csma_def Let_def dest: kiss_encode_cs split: bind_splits if_splits)
  moreover have "bins_upto M (cs w) \<Longrightarrow> list_all (\<lambda>x. unat x \<le> M) bins"
    using b(1) by (auto simp: bins_upto_def store_at_def split: if_splits intro: list_all_update)
  ultimately show "channel_reportable (channel (cs w'))" "bins_upto M (cs w) \<Longrightarrow> bins_upto M (cs w')"
    using stat_channel_Some [OF b(4)] by (simp_all add: bins_upto_def)
qed

subsection \<open>Putting the first frame into the radio\<close>

lemma drv_upd_rn: "drv_ok (k, c, q, r, e) w \<Longrightarrow> drv_ok (k, c, q, g r, e) (upd_rn g w)"
  using drv_ok_rn [of k c q r e w "g r"] by (simp add: upd_rn_def)

lemma airtime_withinD:
  assumes "airtime_within B m" "drv_ok (k, c, q, r, m, e) w" "n \<le> DATA_MTU"
    and "sx126x_air_time (sx w) (of_nat n) = Some (a, h, d)"
  shows "unat a \<le> B"
proof -
  have "unat (of_nat n :: u16) = n" using assms(3) by (simp add: unat_of_nat)
  then have "uint (of_nat n :: u16) \<le> 254" using assms(3) by (simp only: uint_nat)
  then show ?thesis using assms(1,4) drv_modem [OF assms(2)] by (auto simp: airtime_within_def)
qed

lemma to_air_bins:
  assumes w: "drv_ok (k, c, q, r, m, p, f) w" "csma_wf c" and r: "\<not> promisc r" and buf: "length buf \<le> 508"
    and air: "airtime_within B m" and room: "bins_upto M c" and res: "rnode_to_air E buf w = Some (a, w')"
  shows "bins_upto (M + 2 * B) (cs w')"
proof -
  obtain x where x: "random_long E w = (x, next_read w)" using random_long_snd [of E w] by (metis prod.collapse)
  define w1 where "w1 = upd_rn (\<lambda>s. s\<lparr>seq_tx := ucast x AND 0xF0\<rparr>) (next_read w)"
  have w1: "drv_ok (k, c, q, r\<lparr>seq_tx := ucast x AND 0xF0\<rparr>, m, p, f) w1"
    unfolding w1_def using w(1) by (intro drv_upd_rn) simp
  have last: "bins_upto (M + 2 * B) (cs w')" if "csma_add_airtime E b w2 = Some w3" "cs w2 = c" "unat b \<le> 2 * B" "cs w' = cs w3" for b w2 w3
    using add_airtime_bins [of w2 M b "2 * B" E w3] that w(2) room by simp
  show ?thesis
  proof (cases "length buf \<le> DATA_MTU")
    case True
    obtain w2 a1 a2 w3 where s: "tx_buf E buf (length buf) 0 w1 = Some w2"
      "sx126x_air_time (sx w2) (of_nat (length buf)) = Some (a, a1, a2)"
      "csma_add_airtime E a (upd_rn (\<lambda>s. s\<lparr>len_tx := 0\<rparr>) w2) = Some w3" "w' = upd_rn (\<lambda>r. r\<lparr>stat_tx := stat_tx r + 1\<rparr>) w3"
      using res r w(1) True by (auto simp: rnode_to_air_def x w1_def upd_rn_def Let_def split: bind_splits)
    have d: "drv_ok (k, c, q, r\<lparr>seq_tx := ucast x AND 0xF0\<rparr>, m, of_nat (length buf + 1), f @ [(0, (seq_tx (r\<lparr>seq_tx := ucast x AND 0xF0\<rparr>) OR 0) # take (length buf) buf)]) w2"
      using drv_tx_buf [OF w1, of "length buf" buf 0 E] True s(1) by (simp add: gives_def)
    show ?thesis
      by (rule last [OF s(3)]) (use drv_cs_eq [OF d] airtime_withinD [OF air d True s(2)] s(4) in \<open>simp_all add: upd_rn_def\<close>)
  next
    case False
    obtain b w3 a1 a2 a3 b1 b2 b3 w4 where s:
      "sx126x_air_time (sx w1) (of_nat (length buf - DATA_MTU)) = Some (a1, a2, a3)"
      "tx_buf E buf DATA_MTU FLAG_SPLIT (upd_rn (\<lambda>s. s\<lparr>len_tx := length buf - DATA_MTU, buf_tx := b\<rparr>) w1) = Some w3"
      "sx126x_air_time (sx w3) (of_nat DATA_MTU) = Some (b1, b2, b3)"
      "csma_add_airtime E (a1 + b1) w3 = Some w4" "w' = upd_rn (\<lambda>r. r\<lparr>stat_tx := stat_tx r + 1\<rparr>) w4"
      using res r w(1) False by (auto simp: rnode_to_air_def x w1_def upd_rn_def Let_def split: bind_splits)
    obtain r2 e2 where d: "drv_ok (k, c, q, r2, m, e2) w3"
      using drv_tx_buf [OF drv_upd_rn [OF w1, where g = "\<lambda>s. s\<lparr>len_tx := length buf - DATA_MTU, buf_tx := b\<rparr>"],
          of DATA_MTU buf FLAG_SPLIT E] False s(2)
      by (auto simp: gives_def)
    have "unat a1 \<le> B" "unat b1 \<le> B"
      using airtime_withinD [OF air w1 _ s(1)] airtime_withinD [OF air d _ s(3)] buf by simp_all
    moreover have "unat (a1 + b1) \<le> unat a1 + unat b1" by (simp add: unat_word_ariths)
    ultimately show ?thesis by (intro last [OF s(4)]) (use drv_cs_eq [OF d] s(5) in \<open>simp_all add: upd_rn_def\<close>)
  qed
qed


subsection \<open>The transmission\<close>

text \<open>After the frame: the packet is dropped from the list, the depth reported and the air time updated.\<close>

lemma send_tail:
  assumes d: "drv_ok (k, c, q, r, m, e) w" "csma_wf c" "rn_wf r" "bins_upto M c" "M \<le> 45000" and q: "queue_rep q (x # xs)"
  shows "\<exists>w' q'. (do {
      let (now, w) = get_time E w;
      let w = upd_qu (\<lambda>q. q\<lparr>tx_wait_timeout := now + ucast (a * 2)\<rparr>) w;
      q' \<leftarrow> q_remove (q_head q) (qu w);
      w \<leftarrow> rnode_send_stat_queue E (queue_depth q') (w\<lparr>qu := q'\<rparr>);
      w \<leftarrow> csma_update_airtime E w;
      Some (True, w) }) = Some (True, w') \<and> chan_ok (k, q', r, m, e) w' \<and> queue_rep q' xs
    \<and> channel_reportable (channel (cs w')) \<and> bins_upto M (cs w')"
proof -
  obtain now where t: "get_time E w = (now, next_read w)" using get_time_snd [of E w] by (metis prod.collapse)
  define q1 where "q1 = q\<lparr>tx_wait_timeout := now + ucast (a * 2)\<rparr>"
  have "queue_rep q1 (x # xs)" using q unfolding q1_def by (rule queue_rep_timers) simp_all
  from pq.rep_remove [OF this] obtain q2 where q2: "q_remove (q_head q) q1 = Some q2" "queue_rep q2 xs" by (auto simp: q1_def)
  let ?w = "(next_read w)\<lparr>qu := q2\<rparr>"
  have "drv_ok (k, c, q2, r, m, e) ?w" using d(1) by (intro drv_ok_qu [where q = q]) simp
  then have "chan_ok (k, q2, r, m, e) ?w" "cs ?w = c" using d(2)
    by (auto simp: chan_ok_def drv_ok_def rest_def chan_rest_def simp del: drv_rn_eq)
  then obtain w2 where w2: "rnode_send_stat_queue E (queue_depth q2) ?w = Some w2" "chan_ok (k, q2, r, m, e) w2" "cs w2 = c"
    using chan_encode [of "(k, q2, r, m, e)" ?w "CMD_STAT_QUEUE # be16 (queue_depth q2)" E]
    by (auto simp: gives_def chan_fixed_def rnode_send_stat_queue_def)
  obtain w3 where w3: "csma_update_airtime E w2 = Some w3" "chan_ok (k, q2, r, m, e) w3"
    using csma_update_airtime_ok [OF w2(2), of E] w2(3) bins_upto_low [OF d(4,5)] by (auto simp: outcome_def)
  moreover have "channel_reportable (channel (cs w3))" "bins_upto M (cs w3)"
    using update_airtime_after [OF w3(1)] w2(3) d(4) by simp_all
  ultimately show ?thesis using t q2 w2(1) drv_qu_eq [OF d(1)] by (auto simp: upd_qu_def q1_def)
qed

lemma host_inv_of_chan:
  "chan_ok (k, q, r, m, e) w \<Longrightarrow> queue_rep q xs \<Longrightarrow> rn_wf r \<Longrightarrow> host_inv k w"
  by (rule host_invI [of k "cs w" q r m e w xs]) (auto simp: chan_ok_def drv_ok_def rest_def chan_rest_def simp del: drv_rn_eq)

definition may_send :: "nat \<Rightarrow> world \<Rightarrow> u8 list \<Rightarrow> bool" where
  "may_send B w x \<longleftrightarrow> \<not> rnode_check_airtime_lock w \<and> \<not> promisc (rn w) \<and> modem_ok (modem (sx w)) \<and> length x \<le> 508
     \<and> airtime_within B (modem (sx w)) \<and> bins_room B (cs w)"

text \<open>The packet \<open>x\<close> is on its way: the first frame is in the radio, the rest waits for its end.\<close>

definition on_air :: "world \<Rightarrow> u8 list \<Rightarrow> world \<Rightarrow> bool" where
  "on_air w x w' \<longleftrightarrow> (\<exists>s. s AND 0x0F = 0 \<and> fifo_writes (trace w') = fifo_writes (trace w) @ [(0, hd (split_frames s x))]
     \<and> len_tx (rn w') = length x - DATA_MTU \<and> take (len_tx (rn w')) (buf_tx (rn w')) = drop DATA_MTU x)"

lemma send_packet_bins:
  assumes w: "host_inv k w" "queue_rep (qu w) (x # xs)" and m: "may_send B w x" and M: "bins_upto M (cs w)" "M + 2 * B \<le> 45000"
  shows "\<exists>w'. send_packet E w = Some (True, w') \<and> on_air w x w' \<and> queue_rep (qu w') xs \<and> host_inv k w'
    \<and> rn_mode (rn w') = rn_mode (rn w) \<and> modem (sx w') = modem (sx w) \<and> channel_reportable (channel (cs w'))
    \<and> bins_upto (M + 2 * B) (cs w') \<and> air_limits (rn w') = air_limits (rn w)"
proof -
  obtain c q r m p f ys where d: "drv_ok (k, c, q, r, m, p, f) w" "csma_wf c" "rn_wf r"
    using w(1) by (auto simp: host_inv_def)
  have eq: "cs w = c" "qu w = q" "rn w = r" "modem (sx w) = m" "fifo_writes (trace w) = f"
    using d(1) by (simp_all add: drv_ok_def rest_def txfifo_def del: drv_rn_eq)
  have may: "\<not> promisc r" "modem_ok m" "length x \<le> 508" "airtime_within B m"
    using m by (simp_all add: may_send_def eq)
  obtain a w1 c' r' p' s where a: "rnode_to_air E x w = Some (a, w1)" "s AND 0x0F = 0"
    "drv_ok (k, c', q, r', m, p', f @ [(0, hd (split_frames s x))]) w1" "csma_wf c'" "rn_wf r'"
    "len_tx r' = length x - DATA_MTU" "take (len_tx r') (buf_tx r') = drop DATA_MTU x" "rn_mode r' = rn_mode r"
    "air_limits r' = air_limits r"
    using rnode_to_air_frames [OF d may(1-3), of E] by blast
  have "bins_upto (M + 2 * B) c'"
    using to_air_bins [OF d(1,2) may(1,3,4) M(1) [unfolded eq] a(1)] drv_cs_eq [OF a(3)] by simp
  from send_tail [OF a(3-5) this M(2) w(2) [unfolded eq], of E a] obtain w' q' where w': "(do {
      let (now, w) = get_time E w1;
      let w = upd_qu (\<lambda>q. q\<lparr>tx_wait_timeout := now + ucast (a * 2)\<rparr>) w;
      q' \<leftarrow> q_remove (q_head q) (qu w);
      w \<leftarrow> rnode_send_stat_queue E (queue_depth q') (w\<lparr>qu := q'\<rparr>);
      w \<leftarrow> csma_update_airtime E w;
      Some (True, w) }) = Some (True, w')" "chan_ok (k, q', r', m, p', f @ [(0, hd (split_frames s x))]) w'" "queue_rep q' xs"
      "channel_reportable (channel (cs w'))" "bins_upto (M + 2 * B) (cs w')"
    by blast
  have "q_head q \<noteq> None" using pq.rep_empty [OF w(2)] by (simp add: eq)
  moreover obtain it where "deref q (q_head q) = Some it" "item_data it = x"
    using pq.rep_peek [OF w(2)] by (auto simp: q_peek_def eq)
  ultimately have "send_packet E w = Some (True, w')"
    using w'(1) a(1) m by (simp add: send_packet_def may_send_def eq)
  moreover have "on_air w x w'" "queue_rep (qu w') xs"
    using w'(2,3) a(2,6,7) by (auto simp: on_air_def eq chan_ok_def chan_rest_def txfifo_def)
  moreover have "rn_mode (rn w') = rn_mode (rn w)" "modem (sx w') = modem (sx w)" "air_limits (rn w') = air_limits (rn w)"
    using w'(2) a(8,9) by (simp_all add: eq chan_ok_def chan_rest_def)
  ultimately show ?thesis using host_inv_of_chan [OF w'(2,3) a(5)] w'(4,5) by blast
qed

lemma send_packet_sends:
  assumes w: "host_inv k w" "queue_rep (qu w) (x # xs)" and m: "may_send B w x"
  shows "\<exists>w'. send_packet E w = Some (True, w') \<and> on_air w x w' \<and> queue_rep (qu w') xs \<and> host_inv k w'
    \<and> rn_mode (rn w') = rn_mode (rn w) \<and> modem (sx w') = modem (sx w) \<and> channel_reportable (channel (cs w')) \<and> bins_low (cs w')"
proof -
  have "bins_upto (45000 - 2 * B) (cs w)" "45000 - 2 * B + 2 * B \<le> 45000"
    using m by (simp_all add: may_send_def bins_room_upto)
  from send_packet_bins [OF w m this, of E] bins_upto_low [OF _ this(2)] show ?thesis by blast
qed


subsection \<open>The worker transmits\<close>

text \<open>The conditions under which a round of the worker goes on to send: a burst, or the end of the contention.\<close>

definition talks :: "u64 \<Rightarrow> world \<Rightarrow> bool" where
  "talks now w \<longleftrightarrow> flushing (qu w)
     \<or> cw_picked (qu w) \<and> fst (difs_cw_step now (of_int (csma_get_difs_ms w)) (csma_medium_free w) (qu w))"

lemma send_after_timers:
  assumes w: "host_inv k w" "queue_rep (qu w) (x # xs)" and m: "may_send B w x"
    and q: "\<And>ys. queue_rep (qu w) ys \<Longrightarrow> queue_rep q ys"
  shows "\<exists>w'. send_packet E (w\<lparr>qu := q\<rparr>) = Some (True, w') \<and> on_air w x w' \<and> queue_rep (qu w') xs \<and> host_inv k w'"
proof -
  have "host_inv k (w\<lparr>qu := q\<rparr>)" using host_inv_qu [OF w(1), of q] q by blast
  moreover have "queue_rep (qu (w\<lparr>qu := q\<rparr>)) (x # xs)" using q [OF w(2)] by simp
  moreover have "may_send B (w\<lparr>qu := q\<rparr>) x"
    using m by (simp add: may_send_def rnode_check_airtime_lock_def csma_get_channel_def)
  ultimately show ?thesis using send_packet_sends [of k "w\<lparr>qu := q\<rparr>" x xs B E] by (auto simp add: on_air_def)
qed

lemma worker_transmits:
  assumes w: "host_inv k w" "queue_rep (qu w) (x # xs)" and m: "may_send B w x" and go: "talks now w"
  shows "\<exists>w'. worker_access E now w = Some w' \<and> on_air w x w' \<and> queue_rep (qu w') xs \<and> host_inv k w'"
proof (cases "flushing (qu w)")
  case True
  obtain w1 where w1: "send_packet E w = Some (True, w1)" "on_air w x w1" "queue_rep (qu w1) xs" "host_inv k w1"
    using send_packet_sends [OF w m] by blast
  let ?w = "end_flush (True, w1)"
  have "queue_rep (qu ?w) xs" using w1(3) by (auto simp: end_flush_def upd_qu_def intro: queue_rep_timers)
  moreover have "host_inv k ?w" using w1(4) by (simp add: end_flush_def host_inv_upd_qu)
  moreover have "on_air w x ?w" using w1(2) by (simp add: end_flush_def upd_qu_def on_air_def)
  ultimately show ?thesis using flushing_access [OF True, of E now] w1(1) by auto
next
  case False
  let ?s = "difs_cw_step now (of_int (csma_get_difs_ms w)) (csma_medium_free w) (qu w)"
  define q where "q = (if csma_should_flush w then (snd ?s)\<lparr>flushing := True\<rparr> else snd ?s)"
  have p: "cw_picked (qu w)" "fst ?s" using go False by (simp_all add: talks_def)
  obtain a b c e f where s: "snd ?s =
      (qu w)\<lparr>medium_free_since := a, cw_wait_start := b, cw_wait_passed := c, cw_picked := e, cw_target := f\<rparr>"
    using difs_cw_step_list by blast
  have "queue_rep q ys" if "queue_rep (qu w) ys" for ys using that by (rule queue_rep_timers) (simp_all add: q_def s)
  from send_after_timers [OF w m this] obtain w1 where
    w1: "send_packet E (w\<lparr>qu := q\<rparr>) = Some (True, w1)" "on_air w x w1" "queue_rep (qu w1) xs" "host_inv k w1" by blast
  have "worker_access E now w = Some w1"
    using False p w1(1) by (auto simp: worker_access_def pick_cw_def Let_def case_prod_unfold q_def csma_should_flush_def upd_qu_def
      split: if_splits)
  with w1(2-4) show ?thesis by blast
qed


subsection \<open>The bound at a common setting\<close>

lemma t_sym_sf7: "modem s = (7, 5, 125000, 12) \<Longrightarrow> fin_le (of_nat 2) (air_t_sym s)"
  by (simp add: modem_def air_t_sym_def fl_pow2_def fl_def fround_eval)

lemma airtime_sf7: "airtime_within 1276 (7, 5, 125000, 12)"
proof -
  have "unat a \<le> 1276" if s: "modem s = (7, 5, 125000, 12)" and len: "uint (len :: u16) \<le> 254"
    and air: "sx126x_air_time s len = Some (a, h, d)" for s len a h d
  proof -
    have f: "save_sf s = 7" "save_cr s = 5" "save_preamble_len s = 12" using s by (simp_all add: modem_def)
    have "lora_symbols 7 5 (uint len) \<le> int 378" using len by (simp add: lora_symbols_def)
    then show ?thesis using air_time_le [OF _ _ _ _ t_sym_sf7 [OF s] _ _ _ _ air, of 378] len by (simp add: f)
  qed
  then show ?thesis by (auto simp: airtime_within_def)
qed

end
