(* ===== verification/Calm.thy ===== *)
theory Calm
  imports Transmit
begin

section \<open>A host that keeps the contract\<close>

text \<open>
  The daemon leaves the defined part of C at a host's fault: without a spreading factor, with a packet that is too long,
  in the promiscuous mode, with four byte parameters of 128 and more. \<open>polite_payload\<close> is the contract that excludes
  these, as a condition on one command; \<open>calm\<close> is the invariant the contract keeps. Two conditions do not lie with the
  host: the radio must not report a received packet of no bytes, and the worker must find room in the air time bins (\<open>paced\<close>). With them every
  turn of every thread from a calm state is defined and ends in a calm state, and a host that configures and starts the radio
  gets there. The interfaces \<open>command_layer\<close>, \<open>worker_layer\<close> and \<open>interrupt_layer\<close> are provided a second time, by
  this invariant.
\<close>

subsection \<open>The invariant\<close>

definition sendable :: "u8 list \<Rightarrow> bool" where
  "sendable p \<longleftrightarrow> length p \<le> 508"

text \<open>\<open>on\<close>: the spreading factor has been set, and the modem has been programmed.\<close>

definition rn_calm :: "bool \<Rightarrow> rnode_st \<Rightarrow> bool" where
  "rn_calm on r \<longleftrightarrow> rn_wf r \<and> \<not> promisc r \<and> uint (current_sf r) \<le> 16 \<and> (on \<longrightarrow> current_sf r \<noteq> 0)"

definition calm :: "bool \<Rightarrow> kiss_st \<Rightarrow> world \<Rightarrow> bool" where
  "calm on k w \<longleftrightarrow> host_inv k w \<and> rn_calm on (rn w) \<and> channel_reportable (channel (cs w))
     \<and> (on \<longrightarrow> modem_ok (modem (sx w))) \<and> (\<exists>xs. queue_rep (qu w) xs \<and> list_all sendable xs)"

lemma calm_host: "calm on k w \<Longrightarrow> host_inv k w"
  by (simp add: calm_def)

lemma calm_startable: "calm True k w \<Longrightarrow> sf_startable (current_sf (rn w))"
proof -
  assume w: "calm True k w"
  then have "uint (current_sf (rn w)) \<noteq> 0" by (simp add: calm_def rn_calm_def uint_0_iff)
  moreover have "0 \<le> uint (current_sf (rn w))" by simp
  ultimately have "1 \<le> uint (current_sf (rn w))" by linarith
  with w show ?thesis by (simp add: calm_def rn_calm_def sf_startable_def)
qed

lemma calm_on_startable: "calm on k w \<Longrightarrow> on \<Longrightarrow> sf_startable (current_sf (rn w))"
  using calm_startable by simp

lemma calm_weaken: "calm True k w \<Longrightarrow> calm on k w"
  by (auto simp: calm_def rn_calm_def)

text \<open>What an operation may change.\<close>

lemma calm_keep:
  assumes "calm on k w" "host_inv k w'" "rn_mode (rn w') = rn_mode (rn w)" "channel_reportable (channel (cs w'))"
    "modem (sx w') = modem (sx w)" "\<And>xs. queue_rep (qu w) xs \<Longrightarrow> queue_rep (qu w') xs"
  shows "calm on k w'"
  using assms host_inv_rn_wf [OF assms(2)] by (auto simp: calm_def rn_calm_def rn_mode_def)

lemma calm_parts:
  assumes "calm on k w" "drv_ok (k', c, q, r, m, e) w'" "drv_ok (k', c, q, r, m, e) w"
  shows "rn w' = rn w" "channel (cs w') = channel (cs w)" "modem (sx w') = modem (sx w)" "qu w' = qu w"
  using assms(2,3) by (simp_all add: drv_ok_def rest_def del: drv_rn_eq)

lemma calm_bus:
  assumes "\<And>S. drv_ok S w \<Longrightarrow> drv_ok S w'" "calm on k w"
  shows "calm on k w'"
proof (rule host_inv_obtain [OF calm_host [OF assms(2)]])
  fix c q r sf cr bw pl e xs
  assume d: "drv_ok (k, c, q, r, (sf, cr, bw, pl), e) w"
  note p = calm_parts [OF assms(2) assms(1) [OF d] d]
  show ?thesis
    by (rule calm_keep [OF assms(2) host_inv_bus [OF assms(1) calm_host [OF assms(2)]]])
       (use p assms(2) in \<open>simp_all add: calm_def\<close>)
qed

lemma calm_drv:
  assumes "\<And>S. drv_ok S w \<Longrightarrow> gives (drv_ok S) n" "calm on k w"
  shows "gives (calm on k) n"
proof -
  obtain S where "drv_ok S w" using calm_host [OF assms(2)] by (rule host_inv_obtain) blast
  from assms(1) [OF this] obtain w' where n: "n = Some w'" by (auto simp: gives_def)
  with assms(1) have "drv_ok S w \<Longrightarrow> drv_ok S w'" for S by simp
  from calm_bus [OF this assms(2)] show ?thesis by (simp add: n)
qed

lemma calm_set_rn:
  assumes "calm on k w" "rn_calm on r"
  shows "calm on k (w\<lparr>rn := r\<rparr>)"
  using assms host_inv_upd_rn [OF calm_host [OF assms(1)], of "\<lambda>x. r"] by (simp add: calm_def rn_calm_def upd_rn_def)

lemma calm_kiss: "calm on k w \<Longrightarrow> calm on k' (w\<lparr>kiss_in := k'\<rparr>)"
  by (auto simp: calm_def intro: host_inv_kiss)

lemma calm_qu: "calm on k w \<Longrightarrow> (\<And>xs. queue_rep (qu w) xs \<Longrightarrow> queue_rep q xs) \<Longrightarrow> calm on k (w\<lparr>qu := q\<rparr>)"
  by (rule calm_keep) (auto simp: calm_def intro: host_inv_qu)

lemma calm_timeouts: "calm on k w \<Longrightarrow> calm on k (queue_set_busy_timeout a b w)"
  unfolding queue_set_busy_timeout_def by (erule calm_qu, erule queue_rep_timers) simp_all

subsection \<open>The operations of the handlers\<close>

lemma calm_push:
  assumes "calm on k w" "sendable buf"
  shows "gives (calm on k) (queue_push E buf w)"
proof -
  obtain xs where xs: "queue_rep (qu w) xs" "list_all sendable xs" using assms(1) by (auto simp: calm_def)
  obtain q' w' where p: "queue_push E buf w = Some w'" "chan_ok (k, q', rn w, modem (sx w), txfifo w) w'" "cs w' = cs w"
      "queue_rep q' (xs @ [buf])"
    using queue_push_ok [OF host_inv_chan_ok [OF calm_host [OF assms(1)]] xs(1), of E buf] by blast
  have "rn w' = rn w" "modem (sx w') = modem (sx w)" "qu w' = q'" using p(2) by (simp_all add: chan_ok_def chan_rest_def)
  moreover have "host_inv k w'" using host_inv_push [OF calm_host [OF assms(1)], of E buf] p(1) by simp
  ultimately show ?thesis using assms p(1,3,4) xs(2) by (auto simp: calm_def intro!: exI [of _ "xs @ [buf]"])
qed

lemma calm_params:
  assumes "calm on k w"
  shows "outcome (unat sf \<le> 30) (calm on k) (csma_update_radio_params sf (bw_to_hz b) w)"
proof -
  have b: "bw_to_hz b = bw_value b" by (cases b) simp_all
  consider "sf = 0" | "31 \<le> unat sf" | "sf \<noteq> 0" "unat sf \<le> 30" by linarith
  then show ?thesis
  proof cases
    case 3
    from csma_update_radio_params_cases(3) [OF this, of b w] host_inv_radio_params [OF calm_host [OF assms], of sf b]
    obtain c where c: "csma_update_radio_params sf (bw_value b) w = Some (w\<lparr>cs := c\<rparr>)" "channel c = channel (cs w)"
      "host_inv k (w\<lparr>cs := c\<rparr>)" by (auto simp: b outcome_def)
    have "calm on k (w\<lparr>cs := c\<rparr>)" by (rule calm_keep [OF assms c(3)]) (use assms c(2) in \<open>simp_all add: calm_def\<close>)
    with c(1) show ?thesis by (simp add: b)
  qed (use assms csma_update_radio_params_cases in \<open>simp_all add: b\<close>)
qed

lemma calm_modulation:
  assumes "calm on k w"
  shows "gives (calm (sf_startable (current_sf (rn w))) k) (sx126x_set_lora_modulation E (current_sf (rn w)) bw cr ldro w)"
proof (rule host_inv_obtain [OF calm_host [OF assms]])
  fix c q r sf c' bw' pl e xs
  assume d: "drv_ok (k, c, q, r, (sf, c', bw', pl), e) w" "csma_wf c" "queue_rep q xs" "rn_wf r"
  obtain w' where w': "sx126x_set_lora_modulation E (current_sf (rn w)) bw cr ldro w = Some w'"
    "drv_ok (k, c, q, r, (current_sf (rn w), cr_code cr + 4, bw_value bw, pl), e) w'"
    using drv_set_lora_modulation [OF d(1), where E = E and sf = "current_sf (rn w)" and bw = bw and cr = cr and ldro = ldro] by (auto simp: gives_def)
  have p: "rn w' = rn w" "cs w' = cs w" "qu w' = qu w" using d(1) w'(2) by (simp_all add: drv_ok_def rest_def del: drv_rn_eq)
  have "modem_ok (modem (sx w'))" if "sf_startable (current_sf (rn w))"
    using drv_modem [OF w'(2)] sf_startable_modem [OF that] by simp
  moreover have "current_sf (rn w) \<noteq> 0" if "sf_startable (current_sf (rn w))" using that by (auto simp: sf_startable_def)
  ultimately show ?thesis
    using assms host_invI [OF w'(2) d(2-4)] p by (auto simp: w'(1) calm_def rn_calm_def)
qed

lemma calm_apply_modulation:
  assumes "calm on k w"
  shows "gives (calm on k) (sx126x_set_lora_modulation E (current_sf (rn w)) bw cr ldro w)"
proof -
  have "calm on k w'" if "calm (sf_startable (current_sf (rn w))) k w'" for w'
    using that calm_on_startable [OF assms] by (cases on) (auto simp: calm_def rn_calm_def)
  then show ?thesis using calm_modulation [OF assms] by (rule gives_mono [rotated])
qed

lemma calm_packet:
  assumes "calm on k w"
  shows "gives (calm on k) (sx126x_set_lora_packet E h p n crc w)"
proof (rule host_inv_obtain [OF calm_host [OF assms]])
  fix c q r sf cr bw pl e xs
  assume d: "drv_ok (k, c, q, r, (sf, cr, bw, pl), e) w" "csma_wf c" "queue_rep q xs" "rn_wf r"
  obtain w' where w': "sx126x_set_lora_packet E h p n crc w = Some w'" "drv_ok (k, c, q, r, (sf, cr, bw, p), e) w'"
    using drv_set_lora_packet [OF d(1), where E = E and h = h and p = p and n = n and crc = crc] by (auto simp: gives_def)
  have "rn w' = rn w" "cs w' = cs w" "qu w' = qu w" using d(1) w'(2) by (simp_all add: drv_ok_def rest_def del: drv_rn_eq)
  then show ?thesis
    using assms host_invI [OF w'(2) d(2-4)] drv_modem [OF w'(2)] drv_modem [OF d(1)] by (simp add: w'(1) calm_def modem_ok_def)
qed

subsection \<open>Starting the radio\<close>

text \<open>After the radio has answered the start leaves a modem whose air times are defined.\<close>

lemma calm_start_tail:
  assumes "calm on k w"
  defines "s \<equiv> sf_startable (current_sf (rn w))"
  shows "outcome s (calm s k) (do {
     w \<leftarrow> sx126x_set_freq E (ucast (current_freq (rn w))) w;
     w \<leftarrow> sx126x_set_tx_power E (current_tx_power (rn w)) w;
     w \<leftarrow> sx126x_set_lora_modulation E (current_sf (rn w)) (current_bw (rn w)) (current_cr (rn w)) LDRO_OFF w;
     w \<leftarrow> sx126x_set_lora_packet E (header_type (rn w)) (ucast (preamble_length (rn w))) 15 CRC_ON w;
     w \<leftarrow> sx126x_set_sync_word E 0x1424 w;
     w \<leftarrow> sx126x_request E RX_CONTINUOUS w;
     (total, header_ms, data_ms) \<leftarrow> sx126x_air_time (sx w) 255;
     Some (queue_set_busy_timeout (header_ms * 3 div 2) (data_ms * 3 div 2) w) })"
proof -
  define I where "I = (\<lambda>v. calm on k v \<and> rn v = rn w)"
  have keep: "gives I n" if n: "\<And>S. drv_ok S v \<Longrightarrow> gives (drv_ok S) n" and v: "I v" for v n
  proof -
    obtain c q r m e where d: "drv_ok (k, c, q, r, m, e) v" using v calm_host by (fastforce simp: I_def host_inv_def)
    from calm_drv [OF n] v have "gives (calm on k) n" by (simp add: I_def)
    with n [OF d] d v show ?thesis by (auto simp: gives_def I_def)
  qed
  have last: "outcome s (calm s k) (do {
      (total, header_ms, data_ms) \<leftarrow> sx126x_air_time (sx v) 255;
      Some (queue_set_busy_timeout (header_ms * 3 div 2) (data_ms * 3 div 2) v) })" if "calm s k v" for v
  proof (rule outcome_value)
    assume s
    then have "modem_ok (modem (sx v))" using that by (simp add: calm_def)
    from air_time_modem_ok [OF this, of 255] show "sx126x_air_time (sx v) 255 \<noteq> None" by auto
  qed (use that in \<open>auto simp: calm_timeouts split: prod.split\<close>)
  have "outcome s (calm s k) (do {
     w \<leftarrow> sx126x_set_lora_packet E h p n crc v;
     w \<leftarrow> sx126x_set_sync_word E y w;
     w \<leftarrow> sx126x_request E t w;
     (total, header_ms, data_ms) \<leftarrow> sx126x_air_time (sx w) 255;
     Some (queue_set_busy_timeout (header_ms * 3 div 2) (data_ms * 3 div 2) w) })" if "calm s k v" for v h p n crc y t
    by (intro outcome_bind [where P = "calm s k"] gives_outcome calm_packet last)
       (use that in \<open>auto intro: calm_drv drv_set_sync_word drv_request\<close>)
  note tail = this
  have mod: "outcome s (calm s k) (sx126x_set_lora_modulation E (current_sf (rn v)) bw cr ldro v)" if "I v" for v bw cr ldro
    using calm_modulation [of on k v E bw cr ldro] that by (intro gives_outcome) (simp add: I_def s_def)
  have w: "I w" using assms(1) by (simp add: I_def)
  show ?thesis
    by (rule outcome_bind [OF gives_outcome [OF keep [OF drv_set_freq w]]], assumption,
        rule outcome_bind [OF gives_outcome [OF keep [OF drv_set_tx_power]]], assumption, assumption,
        rule outcome_bind [OF mod tail])
qed

lemma calm_begin:
  assumes w: "calm on k w"
  shows "\<exists>ok w1. sx126x_begin E w = Some (ok, w1) \<and> calm on k w1 \<and> rn w1 = rn w"
proof -
  obtain c q r m e where d: "drv_ok (k, c, q, r, m, e) w" using calm_host [OF w] by (fastforce simp: host_inv_def)
  obtain ok w1 where b: "sx126x_begin E w = Some (ok, w1)" "drv_ok (k, c, q, r, m, e) w1"
    using sx126x_begin_ok [OF d, of E] by (auto simp: givesr_def)
  have "drv_ok S w1" if "drv_ok S w" for S using sx126x_begin_ok [OF that, of E] b(1) by (simp add: givesr_def)
  from calm_bus [OF this w] show ?thesis using b drv_rn_eq [OF d] drv_rn_eq [OF b(2)] by auto
qed

lemma calm_begun:
  assumes w: "calm on k w" "sf_startable (current_sf (rn w))" and b: "sx126x_begin E w = Some (True, w1)"
  shows "gives (calm True k) (rnode_start E w)"
  using calm_begin [OF w(1), of E] calm_start_tail [where w = w1 and E = E and on = on and k = k] w(2) by (simp add: rnode_start_def b)

lemma calm_start:
  assumes w: "calm on k w"
  shows "outcome (sf_startable (current_sf (rn w))) (calm on k) (rnode_start E w)"
proof -
  obtain ok w1 where b: "sx126x_begin E w = Some (ok, w1)" and w1: "calm on k w1" "rn w1 = rn w" using calm_begin [OF w] by blast
  have "calm on k v" if "calm (sf_startable (current_sf (rn w))) k v" for v
    using that calm_on_startable [OF w] by (cases on) (auto simp: calm_def rn_calm_def)
  then have "outcome (sf_startable (current_sf (rn w))) (calm on k) (rnode_start E w)" if ok
    using outcome_imp [OF calm_start_tail [OF w1(1), where E = E]] that w1(2) by (simp add: rnode_start_def b)
  moreover have "gives (calm on k) (rnode_start E w)" if "\<not> ok"
    using that calm_drv [OF drv_ok_report_error [where E = E and c = ERROR_INITRADIO] w1(1)] by (simp add: rnode_start_def b)
  ultimately show ?thesis by (cases ok) (simp_all add: gives_outcome)
qed

subsection \<open>The three interfaces\<close>

interpretation cc: command_layer "calm on" "rn_calm on" sendable for on
proof unfold_locales
  show "\<exists>S. drv_ok S w" if "calm on k w" for k w using calm_host [OF that] by (rule host_inv_obtain) (rule exI)
  show "kiss_in w = k" if "calm on k w" for k w using host_inv_kiss_in [OF calm_host [OF that]] .
  show "gives (calm on k) n" if "\<And>S. drv_ok S w \<Longrightarrow> gives (drv_ok S) n" "calm on k w" for k w n
    using that by (rule calm_drv)
  show "rn_calm on r'" if "rn_calm on r" "rn_wf r'" "rn_mode r' = rn_mode r" for r r'
    using that by (simp add: rn_calm_def rn_mode_def)
qed (simp_all add: calm_set_rn calm_kiss calm_apply_modulation calm_packet calm_push calm_params calm_start, simp_all add: calm_def rn_calm_def)

lemma calm_received:
  assumes "calm on k w" "n \<noteq> 0"
  shows "gives (calm on k) (rnode_rx_done E (ucast (n :: u8)) w)"
proof (rule host_inv_obtain [OF calm_host [OF assms(1)]])
  fix c q r sf cr bw pl e xs
  assume d: "drv_ok (k, c, q, r, (sf, cr, bw, pl), e) w" "csma_wf c" "queue_rep q xs" "rn_wf r"
  obtain w' r' where w': "rnode_rx_done E (ucast n) w = Some w'"
    "drv_ok (k, c, q, r', (sf, cr, bw, pl), e) w'" "rn_wf r'" "rn_mode r' = rn_mode r"
    using rnode_rx_done_ok [OF d(1,4), of "ucast n" E] u8_length [OF assms(2)] by (auto simp: gives_def)
  have "calm on k w'"
    by (rule calm_keep [OF assms(1) host_invI [OF w'(2) d(2,3) w'(3)]])
       (use assms(1) d(1) w'(2,4) drv_cs_eq [OF d(1)] drv_cs_eq [OF w'(2)] drv_qu_eq [OF d(1)] drv_qu_eq [OF w'(2)]
          drv_modem [OF d(1)] drv_modem [OF w'(2)] in \<open>simp_all add: calm_def\<close>)
  with w'(1) show ?thesis by simp
qed

lemma calm_transmitted:
  assumes "calm on k w"
  shows "gives (calm on k) (rnode_tx_done E w)"
proof (rule host_inv_obtain [OF calm_host [OF assms]])
  fix c q r sf cr bw pl e xs
  assume d: "drv_ok (k, c, q, r, (sf, cr, bw, pl), e) w" "csma_wf c" "queue_rep q xs" "rn_wf r"
  obtain p f where e: "e = (p, f)" by force
  from rnode_tx_done_ok [OF d(1) [unfolded e] d(4), of E] obtain w' r' p' f' where w': "rnode_tx_done E w = Some w'"
    "drv_ok (k, c, q, r', (sf, cr, bw, pl), p', f') w'" "rn_wf r'" "rn_mode r' = rn_mode r" by (auto simp: gives_def)
  have "calm on k w'"
    by (rule calm_keep [OF assms host_invI [OF w'(2) d(2,3) w'(3)]])
       (use assms d(1) w'(2,4) drv_cs_eq [OF d(1)] drv_cs_eq [OF w'(2)] drv_qu_eq [OF d(1)] drv_qu_eq [OF w'(2)]
          drv_modem [OF d(1)] drv_modem [OF w'(2)] in \<open>simp_all add: calm_def\<close>)
  with w'(1) show ?thesis by simp
qed

lemma calm_medium: "calm on k w \<Longrightarrow> calm on k (queue_medium_state E c w)"
proof -
  assume w: "calm on k w"
  obtain q' where q': "chan_ok (k, q', rn w, modem (sx w), txfifo w) (queue_medium_state E c w)"
      "q' = (qu w)\<lparr>tx_enable := tx_enable q', flushing := flushing q', tx_disabled := tx_disabled q'\<rparr>"
    using queue_medium_state_ok [OF host_inv_chan_ok [OF calm_host [OF w]], of E c] by blast
  have q: "qu (queue_medium_state E c w) = q'" using q'(1) by (simp add: chan_ok_def chan_rest_def)
  show ?thesis
  proof (rule calm_keep [OF w host_inv_medium_state [OF calm_host [OF w]]])
    show "channel_reportable (channel (cs (queue_medium_state E c w)))"
      using w by (cases c) (simp_all add: calm_def queue_medium_state_def csma_set_dcd_def case_prod_unfold)
    show "queue_rep (qu (queue_medium_state E c w)) xs" if "queue_rep (qu w) xs" for xs
      unfolding q by (rule queue_rep_timers [OF that]) (subst q'(2), simp)+
  qed (use q'(1) in \<open>simp_all add: chan_ok_def chan_rest_def\<close>)
qed

interpretation cr: interrupt_layer "calm on" for on
proof unfold_locales
  show "calm on k w'" if "\<And>S. drv_ok S w \<Longrightarrow> drv_ok S w'" "calm on k w" for k w w' using that by (rule calm_bus)
qed (simp_all add: calm_received calm_transmitted calm_medium)

subsection \<open>The worker\<close>

text \<open>A sample of the channel leaves the shares reportable: it recomputes them all, or none but the noise.\<close>

lemma reportable_noise [simp]:
  "channel_reportable (ch\<lparr>current_rssi := x\<rparr>) = channel_reportable ch" "channel_reportable (ch\<lparr>noise_floor := x\<rparr>) = channel_reportable ch"
  by (simp_all add: channel_reportable_def)

lemma track_reportable: "track_noise_floor c = Some c' \<Longrightarrow> channel_reportable (channel c') = channel_reportable (channel c)"
  by (auto simp: track_noise_floor_def Let_def split: bind_splits if_splits)

lemma sample_reportable:
  "sample_util E w = Some w' \<Longrightarrow> channel_reportable (channel (cs w)) \<Longrightarrow> channel_reportable (channel (cs w'))"
  by (auto simp: sample_util_def Let_def dest: update_airtime_after(1) split: bind_splits if_splits prod.splits)

lemma rssi_reportable:
  assumes w: "host_inv k w" "channel_reportable (channel (cs w))" and u: "csma_update_current_rssi E w = Some w'"
  shows "channel_reportable (channel (cs w'))"
proof (cases "sx126x_get_state w \<noteq> SX126X_RX_SINGLE \<and> sx126x_get_state w \<noteq> SX126X_RX_CONTINUOUS")
  case True
  then show ?thesis using w(2) u by (simp add: csma_update_current_rssi_def)
next
  case False
  obtain rssi w1 where r: "sx126x_current_rssi E w = Some (rssi, w1)" "cs w1 = cs w"
    using chan_drvr [OF drv_current_rssi [where E = E and w = w] host_inv_chan_ok [OF w(1)]] by (auto simp: givesr_def chan_fixed_def)
  define v where "v = upd_channel (\<lambda>ch. ch\<lparr>current_rssi := rssi\<rparr>) w1"
  define v2 where "v2 = check_persistence E (v\<lparr>cs := detect_interference (cs v)\<rparr>)"
  have c: "channel (cs v2) = (channel (cs w))\<lparr>current_rssi := rssi\<rparr>"
    by (simp add: v2_def v_def check_persistence_def detect_interference_def upd_channel_def r(2) Let_def case_prod_unfold)
  obtain c' where c': "track_noise_floor (cs v2) = Some c'" "sample_util E (v2\<lparr>cs := c'\<rparr>) = Some w'"
    using u False r(1) by (auto simp: csma_update_current_rssi_def v_def v2_def Let_def split: bind_splits)
  from track_reportable [OF c'(1)] have "channel_reportable (channel c')" using w(2) by (simp add: c)
  with sample_reportable [OF c'(2)] show ?thesis by simp
qed

text \<open>
  The worker needs room in the bins of the air time: at most 45 seconds would be counted in a bin of 7.5 seconds after
  two more frames. A radio that sends one frame at a time keeps far below.
\<close>

definition paced :: "nat \<Rightarrow> world \<Rightarrow> bool" where
  "paced B w \<longleftrightarrow> airtime_within B (modem (sx w)) \<and> bins_room B (cs w)"

lemma room_low: "bins_room B c \<Longrightarrow> bins_low c"
  by (auto simp: bins_room_def bins_low_def list_all_iff)

lemma calm_send:
  assumes w: "calm True k w" "paced B w"
  shows "outcomer True (\<lambda>w. calm True k w \<and> bins_low (cs w)) (send_packet E w)"
proof -
  obtain ys where ys: "queue_rep (qu w) ys" "list_all sendable ys" using w(1) by (auto simp: calm_def)
  have low: "bins_low (cs w)" using w(2) room_low by (auto simp: paced_def)
  show ?thesis
  proof (cases "q_head (qu w) = None \<or> rnode_check_airtime_lock w")
    case True
    then show ?thesis using w(1) low by (auto simp: send_packet_def)
  next
    case False
    obtain x xs where x: "ys = x # xs" using queue_rep_nonempty [OF ys(1)] False by blast
    have "may_send B w x" using w ys(2) False by (simp add: may_send_def x calm_def rn_calm_def sendable_def paced_def)
    from send_packet_sends [OF calm_host [OF w(1)] ys(1) [unfolded x] this, of E] obtain w' where
      w': "send_packet E w = Some (True, w')" "queue_rep (qu w') xs" "host_inv k w'" "rn_mode (rn w') = rn_mode (rn w)"
        "modem (sx w') = modem (sx w)" "channel_reportable (channel (cs w'))" "bins_low (cs w')" by blast
    have "rn_calm True (rn w')" using w(1) w'(4) host_inv_rn_wf [OF w'(3)] by (simp add: calm_def rn_calm_def rn_mode_def)
    with w(1) w' ys(2) x show ?thesis by (auto simp: calm_def)
  qed
qed

lemma calm_dcd: "calm on k w \<Longrightarrow> calm on k (csma_set_dcd b w)"
  by (rule calm_keep) (auto simp: calm_def csma_set_dcd_def host_inv_dcd [unfolded csma_set_dcd_def])

interpretation cw: worker_layer True "\<lambda>w. calm True k w \<and> paced B w" "\<lambda>w. calm True k w \<and> bins_low (cs w)" "calm True k" for k B
proof unfold_locales
  fix w and E :: env assume w: "calm True k w \<and> paced B w"
  show "\<exists>t. csma_get_cw E w = Some (t, next_read w)"
    using csma_get_cw_range [OF host_inv_csma_wf [OF calm_host], of True k w E] w by blast
  show "calm True k (next_read w) \<and> paced B (next_read w)" using w cc.step_next by (simp add: paced_def)
  show "outcomer True (\<lambda>w. calm True k w \<and> bins_low (cs w)) (send_packet E w)" using calm_send w by blast
  show "outcome True (calm True k) (rnode_start E w)" using calm_start [of True k w E] calm_startable [of k w] w by simp
  show "calm True k w \<and> bins_low (cs w)" using w room_low by (auto simp: paced_def)
next
  fix w and E :: env assume w: "calm True k w \<and> bins_low (cs w)"
  obtain w' where w': "csma_update_current_rssi E w = Some w'" "chan_ok (k, qu w, rn w, modem (sx w), txfifo w) w'"
    using csma_update_current_rssi_ok [OF host_inv_chan_ok [OF calm_host], of True k w E] w by (auto simp: outcome_def)
  obtain xs where xs: "queue_rep (qu w) xs" using w by (auto simp: calm_def)
  have p: "rn w' = rn w" "qu w' = qu w" "modem (sx w') = modem (sx w)" using w'(2) by (simp_all add: chan_ok_def chan_rest_def)
  have "host_inv k w'" using host_inv_of_chan [OF w'(2) xs] host_inv_rn_wf [OF calm_host, of True k w] w by simp
  then have "calm True k w'"
    using calm_keep [of True k w w'] rssi_reportable [OF calm_host _ w'(1), of True k] w p by (simp add: calm_def)
  then show "outcome True (calm True k) (csma_update_current_rssi E w)" by (simp add: w'(1))
next
  fix w q assume "calm True k w \<and> paced B w" "\<And>xs. queue_rep (qu w) xs \<Longrightarrow> queue_rep q xs"
  then show "calm True k (w\<lparr>qu := q\<rparr>) \<and> paced B (w\<lparr>qu := q\<rparr>)" by (simp add: calm_qu paced_def)
qed (auto simp: calm_qu calm_dcd, simp add: csma_set_dcd_def bins_low_def)

end
