(* ===== verification/Contract.thy ===== *)
theory Contract
  imports Calm
begin

section \<open>The contract of the host\<close>

text \<open>
  The contract as a condition on the payload of one frame, and its two consequences. In a run of whole turns the state stays
  calm and the next turn of every thread is defined, however the stream is cut into reads and the turns follow one another:
  that of the worker while the air time is paced, that of the interrupt handler unless the radio reports a packet of no bytes. And
  a stream that sets a spreading factor and starts an answering radio establishes the invariant from the start of the daemon.
\<close>

subsection \<open>Polite payloads\<close>

text \<open>
  Four byte parameters below 2 to the 31, a spreading factor up to 16, packets of up to 508 bytes, no promiscuous mode, no
  report of the physical parameters; and no start of the radio as long as \<open>on\<close> is false.
\<close>

definition polite_payload :: "bool \<Rightarrow> u8 list \<Rightarrow> bool" where
  "polite_payload on p \<longleftrightarrow> kiss_fits p \<and> hd p \<noteq> CMD_STAT_PHYPRM
     \<and> (hd p \<in> {CMD_FREQUENCY, CMD_BANDWIDTH} \<longrightarrow> 2 \<le> length p \<and> p ! 1 < 0x80)
     \<and> (hd p = CMD_SF \<longrightarrow> 2 \<le> length p \<and> uint (p ! 1) \<le> 16)
     \<and> (hd p = CMD_DATA \<longrightarrow> length p \<le> 509)
     \<and> (hd p = CMD_PROMISC \<longrightarrow> 2 \<le> length p \<and> p ! 1 = 0)
     \<and> (hd p = CMD_RADIO_STATE \<and> \<not> on \<longrightarrow> 2 \<le> length p \<and> p ! 1 \<noteq> 0x01)
     \<and> (hd p = CMD_RESET \<and> \<not> on \<longrightarrow> 2 \<le> length p \<and> p ! 1 \<noteq> CMD_RESET_BYTE)"

lemma polite_fits: "polite_payload on p \<Longrightarrow> kiss_fits p"
  by (simp add: polite_payload_def)

text \<open>The first bytes of the receive buffer are those of the payload.\<close>

lemma payload_reads:
  assumes "length buf = MTU" "take (length p) buf = p" "0 < length p"
  shows "hd buf = hd p" "2 \<le> length p \<Longrightarrow> tl buf ! 0 = p ! 1" "take (length p - 1) (tl buf) = tl p"
proof -
  show "hd buf = hd p" using assms(2,3) by (metis hd_take)
  show "tl buf ! 0 = p ! 1" if "2 \<le> length p"
  proof -
    have "p ! 1 = buf ! 1" using that nth_take [of 1 "length p" buf] assms(2) by simp
    then show ?thesis using assms(1) by (simp add: nth_tl)
  qed
  show "take (length p - 1) (tl buf) = tl p" using assms by (metis tl_take)
qed

lemma if_holds: "(b \<Longrightarrow> x) \<Longrightarrow> (\<not> b \<Longrightarrow> y) \<Longrightarrow> (if b then x else y)"
  by simp

lemma polite_served:
  assumes p: "polite_payload on p" "length buf = MTU" "take (length p) buf = p" and w: "calm on k w"
  shows "cmd_allowed (rn_calm on) sendable (hd buf) (tl buf) (length p - 1) w \<and> cmd_defined (hd buf) (tl buf) w"
proof -
  have "0 < length p" using p(1) by (simp add: polite_payload_def kiss_fits_def)
  note r = payload_reads [OF p(2,3) this]
  have rn: "rn_calm on (rn w)" "channel_reportable (channel (cs w))" using w by (simp_all add: calm_def)
  have sf: "unat (current_sf (rn w)) \<le> 30"
  proof -
    have "uint (current_sf (rn w)) \<le> 16" using rn(1) by (simp add: rn_calm_def)
    then show ?thesis by (simp only: uint_nat)
  qed
  have p16: "unat (p ! 1) \<le> 30" if "uint (p ! 1) \<le> 16" using that by (simp only: uint_nat)
  have st: "sf_startable (current_sf (rn w))" if on using calm_on_startable [OF w that] .
  note pol = p(1) [unfolded polite_payload_def]
  have "cmd_allowed (rn_calm on) sendable (hd p) (tl buf) (length p - 1) w"
    unfolding cmd_allowed_def r(3) using pol r(2) rn(1) by (intro if_holds impI) (simp_all add: rn_calm_def sendable_def, arith)
  moreover have "cmd_defined (hd p) (tl buf) w"
    unfolding cmd_defined_def using pol r(2) rn(2) sf p16 st by (intro if_holds impI conjI) auto
  ultimately show ?thesis by (simp only: r(1))
qed

lemma polite_turn:
  assumes "calm on (kiss_in w) w" "on_stream (polite_payload on) (kiss_in w) (tcp_taken E n w @ todo)"
  shows "\<exists>w'. tcp_read E n w = Some w' \<and> calm on (kiss_in w') w' \<and> on_stream (polite_payload on) (kiss_in w') todo"
  using polite_fits polite_served assms by (rule cc.socket_turn)

lemma polite_input:
  assumes "calm on (kiss_in w) w" "kiss_ready (kiss_in w)" "list_all (polite_payload on) ps"
  shows "\<exists>w'. kiss_input E (concat (map kiss_frame ps)) w = Some w' \<and> calm on (kiss_in w') w' \<and> kiss_ready (kiss_in w')"
proof -
  have "\<exists>k' w'. kiss_decode (rnode_from_channel E) (concat (map kiss_frame ps)) (kiss_in w, w) = Some (k', w') \<and> calm on (kiss_in w) w'
    \<and> on_stream (polite_payload on) k' [] \<and> ([] = ([] :: u8 list) \<longrightarrow> kiss_ready k')"
    by (rule cc.stream_pieces [OF polite_fits polite_served assms(2,3) _ assms(1)]) simp_all
  then obtain k' w' where d: "kiss_decode (rnode_from_channel E) (concat (map kiss_frame ps)) (kiss_in w, w) = Some (k', w')"
    "calm on (kiss_in w) w'" "kiss_ready k'" by blast
  then show ?thesis using calm_kiss [OF d(2), of k'] by (auto simp: kiss_input_def)
qed

subsection \<open>Runs with a polite host\<close>

text \<open>
  The runs of the daemon from a calm state between two frames, with the bytes the host has still to send: a turn of the socket loop
  takes some of them, the interrupts come at any time, and the worker runs when there is room for two more frames.
\<close>

inductive polite_reach :: "env \<Rightarrow> boot_st \<Rightarrow> sys_st \<Rightarrow> u8 list \<Rightarrow> bool" for E b where
  calm_start: "calm True (kiss_in (sys_world s)) (sys_world s) \<Longrightarrow> kiss_ready (kiss_in (sys_world s)) \<Longrightarrow>
    list_all (polite_payload True) ps \<Longrightarrow> polite_reach E b s (concat (map kiss_frame ps))"
| polite_socket: "polite_reach E b s (tcp_taken E n (sys_world s) @ todo) \<Longrightarrow> tcp_read E n (sys_world s) = Some w \<Longrightarrow>
    polite_reach E b (s\<lparr>sys_world := w\<rparr>) todo"
| polite_begin: "polite_reach E b s todo \<Longrightarrow> radio_state (sx (sys_world s)) \<noteq> SX126X_IDLE \<Longrightarrow>
    polite_reach E b (s\<lparr>irq_running := True\<rparr>) todo"
| polite_edge: "polite_reach E b s todo \<Longrightarrow> irq_running s \<Longrightarrow> irq_turn E b (irq_crc_ok s) (sys_world s) = Some (ok, w) \<Longrightarrow>
    polite_reach E b (s\<lparr>sys_world := w, irq_crc_ok := ok\<rparr>) todo"
| polite_worker: "polite_reach E b s todo \<Longrightarrow> paced B (sys_world s) \<Longrightarrow> queue_worker_step E (sys_world s) = Some w \<Longrightarrow>
    polite_reach E b (s\<lparr>sys_world := w\<rparr>) todo"

text \<open>Preservation.\<close>

lemma polite_reach_calm:
  assumes "polite_reach E b s todo" "b = register_callbacks E b"
  shows "calm True (kiss_in (sys_world s)) (sys_world s) \<and> on_stream (polite_payload True) (kiss_in (sys_world s)) todo"
  using assms(1)
proof (induction rule: polite_reach.induct)
  case (calm_start s ps)
  then show ?case by (simp add: on_stream_ready)
next
  case (polite_socket s n todo w)
  then show ?case using polite_turn [of True "sys_world s" E n todo] by auto
next
  case (polite_begin s todo)
  then show ?case by simp
next
  case (polite_edge s todo ok w)
  then have "calm True (kiss_in (sys_world s)) w"
    using cr.interrupt [of True "kiss_in (sys_world s)" "sys_world s" b E "irq_crc_ok s"] assms(2)
    by (cases "packet_length E b (irq_crc_ok s) (sys_world s) = Some 0") (auto simp: givesr_def)
  then show ?case using polite_edge.IH host_inv_kiss_in [OF calm_host, of True "kiss_in (sys_world s)" w] by simp
next
  case (polite_worker s todo B w)
  then have "calm True (kiss_in (sys_world s)) w"
    using cw.worker_round [of "kiss_in (sys_world s)" "sys_world s" B E] by (auto simp: outcome_def)
  then show ?case using polite_worker.IH host_inv_kiss_in [OF calm_host, of True "kiss_in (sys_world s)" w] by simp
qed

text \<open>Progress: no thread is ever stuck.\<close>

lemma calm_progress:
  assumes "calm True (kiss_in w) w" "b = register_callbacks E b"
  shows "on_stream (polite_payload True) (kiss_in w) (tcp_taken E n w @ todo) \<Longrightarrow> tcp_read E n w \<noteq> None"
    and "packet_length E b ok w \<noteq> Some 0 \<Longrightarrow> irq_turn E b ok w \<noteq> None" and "paced B w \<Longrightarrow> queue_worker_step E w \<noteq> None"
proof -
  show "tcp_read E n w \<noteq> None" if "on_stream (polite_payload True) (kiss_in w) (tcp_taken E n w @ todo)"
    using polite_turn [OF assms(1) that] by auto
  show "irq_turn E b ok w \<noteq> None" if "packet_length E b ok w \<noteq> Some 0"
    using cr.interrupt(1) [OF assms that] by (auto simp: givesr_def)
  show "queue_worker_step E w \<noteq> None" if "paced B w"
    using cw.worker_round [of "kiss_in w" w B E] assms(1) that by (auto simp: outcome_def)
qed

subsection \<open>How a host gets there\<close>

lemma start_is_calm: "main_start E B argc = Inr (b, w) \<Longrightarrow> calm False (kiss_in w) w \<and> kiss_ready (kiss_in w)"
proof -
  assume m: "main_start E B argc = Inr (b, w)"
  note s = main_start_state [OF m]
  have "channel_reportable (channel csma_init)"
    by (simp add: channel_reportable_def csma_init_def stat_percent_defined)
  moreover have "rn_calm False rnode_init" by (simp add: rn_calm_def) (simp add: rnode_init_def)
  ultimately show ?thesis
    using sys_inv_host [OF s(9)] s(16-19) by (auto simp: calm_def intro: exI [of _ "[]"])
qed

lemma radio_on_frame:
  assumes w: "calm False (kiss_in w) w" "kiss_ready (kiss_in w)" "sf_startable (current_sf (rn w))"
    and b: "sx126x_begin E w = Some (True, w1)"
  shows "\<exists>w'. kiss_input E (kiss_frame [CMD_RADIO_STATE, 0x01]) w = Some w' \<and> calm True (kiss_in w') w'
    \<and> kiss_ready (kiss_in w') \<and> radio_online (rn w')"
proof -
  let ?k = "kiss_in w"
  obtain buf k' where k': "kiss_ready k'" "length buf = MTU" "take 2 buf = [CMD_RADIO_STATE, 0x01]"
    "\<And>w r. kiss_decode (rnode_from_channel E) (kiss_frame [CMD_RADIO_STATE, 0x01] @ r) (?k, w) =
       Option.bind (rnode_from_channel E buf 2 w) (\<lambda>w'. kiss_decode (rnode_from_channel E) r (k', w'))"
    using kiss_decode_frame [OF w(2), of "[CMD_RADIO_STATE, 0x01]" "rnode_from_channel E"] by (auto simp: numeral_2_eq_2)
  obtain p where p: "buf = CMD_RADIO_STATE # 0x01 # p"
    using k'(2,3) by (cases buf; cases "tl buf") (auto simp: numeral_2_eq_2)
  obtain w2 where w2: "rnode_start E w = Some w2" "calm True ?k w2" using calm_begun [OF w(1,3) b] by (auto simp: gives_def)
  define w3 where "w3 = upd_rn (\<lambda>r. r\<lparr>radio_online := True\<rparr>) w2"
  have w3: "calm True ?k w3" "radio_online (rn w3)" unfolding w3_def by (rule cc.protocol_setting [OF w2(2)]) simp_all
  from cc.answer_eq [OF w3(1), of "[CMD_RADIO_STATE, 0x01]" E]
  have e: "kiss_encode E [CMD_RADIO_STATE, 0x01] w3 = Some (host_send E [CMD_RADIO_STATE, 0x01] w3)"
    "calm True ?k (host_send E [CMD_RADIO_STATE, 0x01] w3)" by simp_all
  have "rnode_from_channel E buf 2 w = ans_radio_state E (0x01 # p) w"
    by (simp add: p rnode_from_channel_def handlers_def)
  also have "\<dots> = Some (host_send E [CMD_RADIO_STATE, 0x01] w3)"
    using w3(2) e(1) by (simp add: ans_radio_state_def read_at_def w2(1) w3_def [symmetric] flag_byte_def)
  finally have "kiss_input E (kiss_frame [CMD_RADIO_STATE, 0x01]) w = Some ((host_send E [CMD_RADIO_STATE, 0x01] w3)\<lparr>kiss_in := k'\<rparr>)"
    using k'(4) [of "[]" w] by (simp add: kiss_input_def)
  then show ?thesis using calm_kiss [OF e(2), of k'] k'(1) w3(2) by auto
qed

lemma sf_set:
  assumes w: "calm on k w" and p: "length p = 1023" "p ! 0 \<noteq> 0" and r: "ans_sf E p w = Some w'"
  shows "current_sf (rn w') = p ! 0"
proof -
  define w1 where "w1 = upd_rn (\<lambda>r. r\<lparr>current_sf := p ! 0\<rparr>) w"
  have h: "host_inv k w1" unfolding w1_def using calm_host [OF w] by (rule host_inv_upd_rn) simp
  from hc.answer_eq [OF h, of "[CMD_SF, current_sf (rn w1)]" E]
  obtain w2 where w2: "kiss_encode E [CMD_SF, current_sf (rn w1)] w1 = Some w2" "host_inv k w2" "rn w2 = rn w1" by auto
  obtain w3 where w3: "csma_update_radio_params (current_sf (rn w2)) (bw_to_hz (current_bw (rn w2))) w2 = Some w3"
      "apply_modulation E w3 = Some w'"
    using r p w2(1) by (auto simp: ans_sf_def param_reads w1_def Let_def split: bind_splits)
  have "rn w3 = rn w2 \<and> host_inv k w3"
    using w3(1) outcome_weak [OF host_inv_radio_params [OF w2(2)] w3(1)]
    by (auto simp: csma_update_radio_params_def Let_def split: bind_splits if_splits prod.splits)
  moreover have "rn w' = rn w3" if "host_inv k w3"
  proof (rule host_inv_obtain [OF that])
    fix c q rr sf cr bw pl e xs
    assume d: "drv_ok (k, c, q, rr, (sf, cr, bw, pl), e) w3"
    have "rn v = rn w3" if "sx126x_set_lora_modulation E a x y z w3 = Some v" for a x y z v
      using drv_set_lora_modulation [OF d, where E = E and sf = a and bw = x and cr = y and ldro = z] d that by (simp add: gives_def)
    then show ?thesis using w3(2) by (auto simp: apply_modulation_def split: if_splits)
  qed
  ultimately show ?thesis by (simp add: w2(3)) (simp add: w1_def)
qed

lemma sf_frame:
  assumes w: "calm False (kiss_in w) w" "kiss_ready (kiss_in w)" and s: "0 < uint s" "uint s \<le> 16"
  shows "\<exists>w'. kiss_input E (kiss_frame [CMD_SF, s]) w = Some w' \<and> calm False (kiss_in w') w' \<and> kiss_ready (kiss_in w')
    \<and> current_sf (rn w') = s"
proof -
  have "list_all (polite_payload False) [[CMD_SF, s]]" using s(2) by (simp add: polite_payload_def kiss_fits_def)
  from polite_input [OF w this, of E] obtain w' where w': "kiss_input E (kiss_frame [CMD_SF, s]) w = Some w'"
    "calm False (kiss_in w') w'" "kiss_ready (kiss_in w')" by auto
  obtain buf k' where k': "length buf = MTU" "take 2 buf = [CMD_SF, s]"
    "\<And>v r. kiss_decode (rnode_from_channel E) (kiss_frame [CMD_SF, s] @ r) (kiss_in w, v) =
       Option.bind (rnode_from_channel E buf 2 v) (\<lambda>w'. kiss_decode (rnode_from_channel E) r (k', w'))"
    using kiss_decode_frame [OF w(2), of "[CMD_SF, s]" "rnode_from_channel E"] by (auto simp: numeral_2_eq_2)
  obtain p where p: "buf = CMD_SF # s # p" using k'(1,2) by (cases buf; cases "tl buf") (auto simp: numeral_2_eq_2)
  obtain v where v: "ans_sf E (s # p) w = Some v" "w' = v\<lparr>kiss_in := k'\<rparr>"
    using w'(1) k'(3) [of "[]" w] by (auto simp: kiss_input_def p rnode_from_channel_def handlers_def split: bind_splits)
  have "s \<noteq> 0" using s(1) by auto
  with sf_set [OF w(1) _ _ v(1)] k'(1) p have "current_sf (rn v) = s" by simp
  then show ?thesis using w' v(2) by simp
qed

lemma configured:
  assumes m: "main_start E B argc = Inr (b, w0)" and ps: "list_all (polite_payload False) ps" and s: "0 < uint s" "uint s \<le> 16"
  shows "\<exists>w1. (do { w \<leftarrow> kiss_input E (concat (map kiss_frame ps)) w0; kiss_input E (kiss_frame [CMD_SF, s]) w }) = Some w1
    \<and> (\<forall>v. sx126x_begin E w1 = Some (True, v) \<longrightarrow>
        (\<exists>w2. kiss_input E (kiss_frame [CMD_RADIO_STATE, 0x01]) w1 = Some w2 \<and> calm True (kiss_in w2) w2
          \<and> kiss_ready (kiss_in w2) \<and> radio_online (rn w2)))"
proof -
  obtain w where w: "kiss_input E (concat (map kiss_frame ps)) w0 = Some w" "calm False (kiss_in w) w" "kiss_ready (kiss_in w)"
    using polite_input [OF _ _ ps] start_is_calm [OF m] by blast
  obtain w1 where w1: "kiss_input E (kiss_frame [CMD_SF, s]) w = Some w1" "calm False (kiss_in w1) w1" "kiss_ready (kiss_in w1)"
    "current_sf (rn w1) = s" using sf_frame [OF w(2,3) s] by blast
  have "sf_startable (current_sf (rn w1))" using s by (simp add: w1(4) sf_startable_def)
  from radio_on_frame [OF w1(2,3) this] w(1) w1(1) show ?thesis by auto
qed

end
