(* ===== verification/Liveness.thy ===== *)
theory Liveness
  imports Contract
begin

section \<open>A free channel is used\<close>

text \<open>
  Consecutive rounds of the worker with a packet waiting: each is one sample of the medium, a round that is not
  allowed to send changes the timers alone, and the invariant \<open>waiting\<close> ties them to the times of the samples. So when the medium
  stays free for the guard time and then for the contention window that was drawn in the first of the rounds, the oldest packet goes on the air.
\<close>

primrec worker_run :: "env \<Rightarrow> nat \<Rightarrow> world \<Rightarrow> world option" where
  "worker_run E 0 w = Some w"
| "worker_run E (Suc n) w = Option.bind (worker_run E n w) (queue_worker_step E)"

definition worker_time :: "env \<Rightarrow> world \<Rightarrow> nat" where
  "worker_time E w = unat (fst (get_time E w))"

text \<open>What the worker needs of a round: nobody talks, the radio does not, and no limit forbids it.\<close>

definition quiet_round :: "nat \<Rightarrow> world \<Rightarrow> bool" where
  "quiet_round B w \<longleftrightarrow> csma_medium_free w \<and> sx126x_get_state w \<noteq> SX126X_TX \<and> \<not> rnode_check_airtime_lock w \<and> paced B w"

definition sent :: "u8 list \<Rightarrow> u8 list list \<Rightarrow> world \<Rightarrow> world \<Rightarrow> bool" where
  "sent x xs w w' \<longleftrightarrow> on_air w x w' \<and> queue_rep (qu w') xs"

subsection \<open>The end of a round\<close>

text \<open>The sample of the signal strength at the end of a round leaves all but its own timer.\<close>

definition round_end :: "env \<Rightarrow> u64 \<Rightarrow> world \<Rightarrow> world option" where
  "round_end E now w = (if rssi_delay (qu w) < now
     then csma_update_current_rssi E (upd_qu (\<lambda>q. q\<lparr>rssi_delay := now + 25\<rparr>) w) else Some w)"

lemma difs_update_airtime: "csma_update_airtime E w = Some w' \<Longrightarrow> difs_ms (cs w') = difs_ms (cs w)"
proof -
  assume u: "csma_update_airtime E w = Some w'"
  obtain cb w1 where cb: "current_airtime_bin E w = (cb, w1)" "cs w1 = cs w"
    using airtime_bin_snd [of E w] by (metis next_read_simps(7) prod.collapse)
  have p: "difs_ms (cs w2) = difs_ms (cs w1)" if "update_csma_parameters E w1 = Some w2" for w1 w2
    using that by (auto simp: update_csma_parameters_def rnode_send_stat_csma_def Let_def dest: kiss_encode_cs split: bind_splits if_splits)
  from u cb show ?thesis
    by (auto simp: csma_update_airtime_def upd_channel_def Let_def dest!: p stat_channel_Some split: bind_splits)
qed

lemma difs_sample: "sample_util E w = Some w' \<Longrightarrow> difs_ms (cs w') = difs_ms (cs w)"
proof -
  assume s: "sample_util E w = Some w'"
  have b: "cs (snd (current_airtime_bin E v)) = cs v" for v by simp
  from s show ?thesis
    using b by (auto simp: sample_util_def upd_channel_def Let_def case_prod_unfold dest!: difs_update_airtime split: bind_splits if_splits)
qed

lemma difs_track: "track_noise_floor c = Some c' \<Longrightarrow> difs_ms c' = difs_ms c"
  by (auto simp: track_noise_floor_def Let_def split: bind_splits if_splits)

lemma difs_rssi:
  assumes w: "host_inv k w" and u: "csma_update_current_rssi E w = Some w'"
  shows "difs_ms (cs w') = difs_ms (cs w)"
proof (cases "sx126x_get_state w \<noteq> SX126X_RX_SINGLE \<and> sx126x_get_state w \<noteq> SX126X_RX_CONTINUOUS")
  case True
  then show ?thesis using u by (simp add: csma_update_current_rssi_def)
next
  case False
  obtain rssi w1 where r: "sx126x_current_rssi E w = Some (rssi, w1)" "cs w1 = cs w"
    using chan_drvr [OF drv_current_rssi [where E = E and w = w] host_inv_chan_ok [OF w]] by (auto simp: givesr_def chan_fixed_def)
  define v where "v = upd_channel (\<lambda>ch. ch\<lparr>current_rssi := rssi\<rparr>) w1"
  define v2 where "v2 = check_persistence E (v\<lparr>cs := detect_interference (cs v)\<rparr>)"
  have "difs_ms (cs v2) = difs_ms (cs w)"
    by (simp add: v2_def v_def check_persistence_def detect_interference_def upd_channel_def r(2) Let_def case_prod_unfold)
  moreover obtain c' where "track_noise_floor (cs v2) = Some c'" "sample_util E (v2\<lparr>cs := c'\<rparr>) = Some w'"
    using u False r(1) by (auto simp: csma_update_current_rssi_def v_def v2_def Let_def split: bind_splits)
  ultimately show ?thesis using difs_track difs_sample by fastforce
qed

lemma round_end_keeps:
  assumes w: "host_inv k w" and r: "round_end E now w = Some w'"
  shows "rn w' = rn w \<and> fifo_writes (trace w') = fifo_writes (trace w) \<and> (\<exists>d. qu w' = (qu w)\<lparr>rssi_delay := d\<rparr>)
    \<and> difs_ms (cs w') = difs_ms (cs w) \<and> modem (sx w') = modem (sx w)"
proof (cases "rssi_delay (qu w) < now")
  case True
  define v where "v = upd_qu (\<lambda>q. q\<lparr>rssi_delay := now + 25\<rparr>) w"
  have u: "csma_update_current_rssi E v = Some w'" using r True by (simp add: round_end_def v_def)
  have v: "host_inv k v" unfolding v_def by (rule host_inv_upd_qu [OF w]) simp_all
  have c: "chan_ok (k, qu v, rn v, modem (sx v), txfifo v) w'"
    using csma_update_current_rssi_ok [OF host_inv_chan_ok [OF v], of E] u by (simp add: outcome_def)
  have p: "rn v = rn w" "trace v = trace w" "qu v = (qu w)\<lparr>rssi_delay := now + 25\<rparr>" "cs v = cs w" "sx v = sx w" by (simp_all add: v_def upd_qu_def)
  have "rn w' = rn v" "txfifo w' = txfifo v" "qu w' = qu v" "modem (sx w') = modem (sx w)" using p(5) c by (simp_all add: chan_ok_def chan_rest_def)
  then show "rn w' = rn w \<and> fifo_writes (trace w') = fifo_writes (trace w) \<and> (\<exists>d. qu w' = (qu w)\<lparr>rssi_delay := d\<rparr>)
      \<and> difs_ms (cs w') = difs_ms (cs w) \<and> modem (sx w') = modem (sx w)"
    using p difs_rssi [OF v u] by (simp add: txfifo_def) blast
next
  case False
  then have "w' = w" using r by (simp add: round_end_def)
  moreover have "qu w = (qu w)\<lparr>rssi_delay := rssi_delay (qu w)\<rparr>" by simp
  ultimately show "rn w' = rn w \<and> fifo_writes (trace w') = fifo_writes (trace w) \<and> (\<exists>d. qu w' = (qu w)\<lparr>rssi_delay := d\<rparr>)
      \<and> difs_ms (cs w') = difs_ms (cs w) \<and> modem (sx w') = modem (sx w)" by metis
qed

text \<open>A round with a packet waiting is an access to the medium and this end.\<close>

lemma waiting_round:
  assumes "sx126x_get_state w \<noteq> SX126X_TX" "tx_enable (qu w)" "q_head (qu w) \<noteq> None"
  shows "queue_worker_step E w =
    Option.bind (worker_access E (fst (get_time E w)) (next_read w)) (round_end E (fst (get_time E w)))"
proof -
  obtain now where t: "get_time E w = (now, next_read w)" using get_time_snd [of E w] by (metis prod.collapse)
  show ?thesis
    using assms by (simp add: queue_worker_step_def t round_end_def [abs_def] sx126x_get_state_def)
qed

subsection \<open>Waiting\<close>

text \<open>The guard time, as the worker reads it.\<close>

definition guard_time :: "world \<Rightarrow> u64" where
  "guard_time w = of_int (csma_get_difs_ms w)"

text \<open>The contention window, in milliseconds, that a round of the worker draws if it draws one: the time is read first.\<close>

definition window :: "env \<Rightarrow> world \<Rightarrow> nat" where
  "window E w = (case csma_get_cw E (snd (get_time E w)) of None \<Rightarrow> 0 | Some (t, w) \<Rightarrow> unat t)"

text \<open>\<open>ts\<close>: the times of the samples since the access began, all of a free medium; \<open>t\<close>: the window, once drawn.\<close>

definition waiting :: "nat \<Rightarrow> nat list \<Rightarrow> u64 \<Rightarrow> kiss_st \<Rightarrow> u8 list list \<Rightarrow> world \<Rightarrow> bool" where
  "waiting t ts d k xs w \<longleftrightarrow> calm True k w \<and> queue_rep (qu w) xs \<and> tx_enable (qu w) \<and> \<not> flushing (qu w)
     \<and> guard_time w = d \<and> (if cw_picked (qu w) then unat (cw_target (qu w)) = t else ts = [])
     \<and> lbt_rep (unat d) (unat (cw_target (qu w))) 0 ts (if ts = [] then 0 else last ts) (qu w)"

lemma guard_time_pos: "host_inv k w \<Longrightarrow> 0 < guard_time w"
proof -
  assume "host_inv k w"
  then have "csma_wf (cs w)" by (rule host_inv_csma_wf)
  then have d: "12 \<le> difs_ms (cs w)" "difs_ms (cs w) \<le> 200" by (simp_all add: csma_wf_def)
  then have "uint (of_int (difs_ms (cs w)) :: u64) = difs_ms (cs w)" by (simp add: uint_word_of_int)
  with d show ?thesis by (simp add: guard_time_def csma_get_difs_ms_def word_less_def)
qed

text \<open>The window is drawn once and then kept.\<close>

lemma waiting_picked:
  assumes w: "waiting t ts d k xs w" and win: "\<not> cw_picked (qu w) \<Longrightarrow> map_option (unat \<circ> fst) (csma_get_cw E w) = Some t"
  shows "\<exists>v. pick_cw E w = Some v \<and> waiting t ts d k xs v \<and> cw_picked (qu v) \<and> csma_medium_free v = csma_medium_free w
    \<and> trace v = trace w \<and> rn v = rn w \<and> modem (sx v) = modem (sx w) \<and> cs v = cs w"
proof (cases "cw_picked (qu w)")
  case True
  then show ?thesis using w by (simp add: pick_cw_def)
next
  case False
  have h: "host_inv k w" using w calm_host by (auto simp: waiting_def)
  obtain u where u: "csma_get_cw E w = Some (u, next_read w)" "unat u = t"
    using csma_get_cw_range [OF host_inv_csma_wf [OF h], of E] win [OF False] by auto
  define v where "v = upd_qu (\<lambda>q. q\<lparr>cw_target := ucast u, cw_picked := True\<rparr>) (next_read w)"
  have "unat (ucast u :: u64) = unat u" by (simp add: unsigned_ucast_eq take_bit_nat_eq_self less_trans [OF unsigned_less])
  then have "unat (ucast u :: u64) = t" using u(2) by simp
  moreover have "calm True k v"
    unfolding v_def upd_qu_def using w by (intro calm_qu cc.step_next) (auto simp: waiting_def intro: queue_rep_timers)
  ultimately have "waiting t ts d k xs v" using w False
    by (auto simp: waiting_def v_def upd_qu_def guard_time_def csma_get_difs_ms_def lbt_rep_def intro: queue_rep_timers)
  moreover have "pick_cw E w = Some v" by (simp add: pick_cw_def False u(1) v_def)
  moreover have "cw_picked (qu v)" "csma_medium_free v = csma_medium_free w" "trace v = trace w" "rn v = rn w"
    "modem (sx v) = modem (sx w)" "cs v = cs w"
    by (simp_all add: v_def upd_qu_def csma_medium_free_def next_read_def)
  ultimately show ?thesis by blast
qed

lemma window_drawn: "host_inv k w \<Longrightarrow> map_option (unat \<circ> fst) (csma_get_cw E (next_read w)) = Some (window E w)"
proof -
  assume "host_inv k w"
  then have "host_inv k (next_read w)" by simp
  from csma_get_cw_range [OF host_inv_csma_wf [OF this], of E] obtain u where "csma_get_cw E (next_read w) = Some (u, next_read (next_read w))"
    by blast
  moreover have "snd (get_time E w) = next_read w" using get_time_snd [of E w] by simp
  ultimately show ?thesis by (simp add: window_def)
qed

lemma pick_again: "cw_picked (qu v) \<Longrightarrow> pick_cw E v = Some v"
  by (simp add: pick_cw_def)

lemma access_picked: "\<not> flushing (qu w) \<Longrightarrow> pick_cw E w = Some v \<Longrightarrow> cw_picked (qu v) \<Longrightarrow> \<not> flushing (qu v) \<Longrightarrow>
    worker_access E now w = worker_access E now v"
  by (simp add: worker_access_def pick_again)

text \<open>The list determines its first packet.\<close>

lemma calm_head: "calm on k w \<Longrightarrow> queue_rep (qu w) (x # xs) \<Longrightarrow> length x \<le> 508"
proof -
  assume w: "calm on k w" and x: "queue_rep (qu w) (x # xs)"
  obtain ys where ys: "queue_rep (qu w) ys" "list_all sendable ys" using w by (auto simp: calm_def)
  obtain y zs where y: "ys = y # zs" using queue_rep_nonempty [OF ys(1)] pq.rep_empty [OF x] by blast
  then have "y = x" using pq.rep_peek [OF x] pq.rep_peek [of "qu w" y zs] ys(1) by simp
  with ys(2) show ?thesis by (simp add: y sendable_def)
qed

text \<open>A sample that lets nothing go changes three timers.\<close>

lemma difs_cw_step_timers:
  "\<not> fst (difs_cw_step now d free q) \<Longrightarrow> snd (difs_cw_step now d free q) =
     q\<lparr>medium_free_since := medium_free_since (snd (difs_cw_step now d free q)),
       cw_wait_start := cw_wait_start (snd (difs_cw_step now d free q)),
       cw_wait_passed := cw_wait_passed (snd (difs_cw_step now d free q))\<rparr>"
  by (rule queue_st.equality) (auto simp: difs_cw_step_def Let_def)

text \<open>One quiet round: the packet is sent, or the wait goes on with one more sample.\<close>

lemma quiet_step:
  assumes w: "waiting tw ts d k (x # xs) w" and q: "quiet_round B w" and win: "\<not> cw_picked (qu w) \<Longrightarrow> window E w = tw"
    and t: "(if ts = [] then 0 else last ts) \<le> worker_time E w" "0 < worker_time E w"
  defines "ts' \<equiv> ts @ [worker_time E w]"
  shows "\<exists>w'. queue_worker_step E w = Some w' \<and> (sent x xs w w' \<or> waiting tw ts' d k (x # xs) w' \<and> cw_picked (qu w')
    \<and> \<not> (hd ts' + unat d \<le> worker_time E w \<and> tw \<le> contention (unat d) ts'))"
proof -
  define now where "now = fst (get_time E w)"
  have now: "unat now = worker_time E w" "0 < now" using t(2) by (simp_all add: now_def worker_time_def unat_gt_0 word_gt_0)
  let ?w = "next_read w"
  have "calm True k ?w" using w by (intro cc.step_next) (simp add: waiting_def)
  then have "waiting tw ts d k (x # xs) ?w" using w by (simp add: waiting_def guard_time_def csma_get_difs_ms_def)
  moreover have "map_option (unat \<circ> fst) (csma_get_cw E ?w) = Some tw" if "\<not> cw_picked (qu ?w)"
    using window_drawn [of k w E] win that w calm_host [of True k w] by (simp add: waiting_def)
  ultimately obtain v where v: "pick_cw E ?w = Some v" "waiting tw ts d k (x # xs) v" "cw_picked (qu v)"
    "csma_medium_free v = csma_medium_free ?w" "trace v = trace w" "rn v = rn w" "modem (sx v) = modem (sx w)" "cs v = cs w"
    using waiting_picked [of tw ts d k "x # xs" ?w E] by auto
  have wq: "tx_enable (qu w)" "\<not> flushing (qu ?w)" "\<not> flushing (qu v)" "queue_rep (qu w) (x # xs)" "queue_rep (qu v) (x # xs)"
    and hv: "host_inv k v" and cv: "calm True k v" and cw: "calm True k w"
    using w v(2) calm_host by (auto simp: waiting_def)
  have free: "csma_medium_free v" using q v(8) by (auto simp: quiet_round_def csma_medium_free_def split: if_splits)
  have head: "q_head (qu w) \<noteq> None" using pq.rep_empty [OF wq(4)] by simp
  have round: "queue_worker_step E w = Option.bind (worker_access E now v) (round_end E now)"
    using waiting_round [OF _ wq(1) head, of E] q access_picked [OF wq(2) v(1,3) wq(3), of now]
    by (simp add: quiet_round_def now_def)
  obtain w' where w': "queue_worker_step E w = Some w'" "calm True k w'"
    using cw.worker_round [of k w B E] cw q by (auto simp: quiet_round_def outcome_def)
  then obtain u where u: "worker_access E now v = Some u" "round_end E now u = Some w'" using round by (auto split: bind_splits)
  let ?s = "difs_cw_step now (guard_time v) True (qu v)"
  define ready where "ready \<longleftrightarrow> hd ts' + unat d \<le> worker_time E w \<and> unat (cw_target (qu v)) \<le> contention (unat d) ts'"
  have d: "guard_time v = d" "0 < d" using v(2) guard_time_pos [OF hv] by (auto simp: waiting_def)
  have step: "fst ?s = ready" "\<not> ready \<Longrightarrow> lbt_rep (unat d) (unat (cw_target (qu v))) 0 ts' (worker_time E w) (snd ?s)"
    using difs_cw_step_free [of d "unat (cw_target (qu v))" 0 ts _ "qu v" now] v(2) t(1) now d
    by (auto simp: waiting_def ready_def ts'_def Let_def)
  show ?thesis
  proof (cases ready)
    case True
    have "rnode_check_airtime_lock v = rnode_check_airtime_lock w"
      by (simp add: rnode_check_airtime_lock_def csma_get_channel_def v(6,8))
    then have "may_send B v x" using cv q v(7,8) calm_head [OF cv wq(5)]
      by (simp add: may_send_def quiet_round_def paced_def calm_def rn_calm_def)
    moreover have "talks now v" using v(3) free step(1) True by (simp add: talks_def guard_time_def)
    ultimately obtain u' where u': "worker_access E now v = Some u'" "on_air v x u'" "queue_rep (qu u') xs" "host_inv k u'"
      using worker_transmits [OF hv wq(5), of B now E] by blast
    have r: "rn w' = rn u'" "fifo_writes (trace w') = fifo_writes (trace u')" "\<exists>d. qu w' = (qu u')\<lparr>rssi_delay := d\<rparr>"
      using round_end_keeps [OF u'(4), of E now w'] u u'(1) by simp_all
    then obtain d where "qu w' = (qu u')\<lparr>rssi_delay := d\<rparr>" by blast
    then have "queue_rep (qu w') xs" using u'(3) by (simp add: queue_rep_timers)
    with r u'(2) v(5) have "sent x xs w w'" by (simp add: sent_def on_air_def)
    with w'(1) show ?thesis by blast
  next
    case False
    have "u = v\<lparr>qu := snd ?s\<rparr>"
      using u(1) wq(3) free step(1) False by (auto simp: worker_access_def pick_again [OF v(3)] guard_time_def split: prod.splits)
    moreover obtain a b c where s: "snd ?s = (qu v)\<lparr>medium_free_since := a, cw_wait_start := b, cw_wait_passed := c\<rparr>"
      using difs_cw_step_timers [of now "guard_time v" True "qu v"] step(1) False by blast
    moreover have "host_inv k (v\<lparr>qu := snd ?s\<rparr>)"
      unfolding s by (rule host_inv_qu [OF hv], rule exI, erule queue_rep_timers) simp_all
    ultimately have uq: "qu u = (qu v)\<lparr>medium_free_since := a, cw_wait_start := b, cw_wait_passed := c\<rparr>" "host_inv k u" "cs u = cs v" by simp_all
    have r: "\<exists>d. qu w' = (qu u)\<lparr>rssi_delay := d\<rparr>" "difs_ms (cs w') = difs_ms (cs u)" using round_end_keeps [OF uq(2) u(2)] by simp_all
    obtain e where e: "qu w' = (qu v)\<lparr>medium_free_since := a, cw_wait_start := b, cw_wait_passed := c, rssi_delay := e\<rparr>"
      using r(1) uq(1) by auto
    have "lbt_rep (unat d) (unat (cw_target (qu v))) 0 ts' (worker_time E w) (qu w')"
      using step(2) [OF False] by (simp add: e s lbt_rep_def)
    moreover have "queue_rep (qu w') (x # xs)" unfolding e by (rule queue_rep_timers [OF wq(5)]) simp_all
    moreover have "guard_time w' = d" using r(2) uq(3) d(1) by (simp add: guard_time_def csma_get_difs_ms_def)
    ultimately have "waiting tw ts' d k (x # xs) w'"
      using w'(2) v(2,3) e by (auto simp: waiting_def ts'_def)
    moreover have "unat (cw_target (qu v)) = tw" "cw_picked (qu w')" using v(2,3) e by (auto simp: waiting_def)
    ultimately show ?thesis using w'(1) False by (auto simp: ready_def)
  qed
qed

subsection \<open>The packet goes\<close>

lemma hd_filter_le: "sorted ts \<Longrightarrow> t \<in> set ts \<Longrightarrow> P t \<Longrightarrow> hd (filter P ts) \<le> t"
  by (induction ts) auto

lemma contention_ge:
  assumes "sorted ts" "t \<in> set ts" "hd ts + d \<le> t"
  shows "last ts - t \<le> contention d ts"
proof -
  have "t \<in> set (after_difs d ts)" using assms by (simp add: after_difs_def)
  then have "after_difs d ts \<noteq> []" by auto
  moreover have "hd (after_difs d ts) \<le> t" unfolding after_difs_def using assms by (intro hd_filter_le) auto
  ultimately show ?thesis by (simp add: contention_def)
qed

lemma worker_run_waits:
  assumes w: "waiting (window E w) [] d k (x # xs) w"
    and q: "\<And>i v. i < n \<Longrightarrow> worker_run E i w = Some v \<Longrightarrow> queue_rep (qu v) (x # xs) \<Longrightarrow> quiet_round B v \<and> worker_time E v = tm i"
    and t: "0 < tm 0" "\<And>i j. i \<le> j \<Longrightarrow> j < n \<Longrightarrow> tm i \<le> tm j"
  shows "m \<le> n \<Longrightarrow> (\<exists>i<m. \<exists>v v'. worker_run E i w = Some v \<and> queue_worker_step E v = Some v' \<and> sent x xs v v')
    \<or> (\<exists>v. worker_run E m w = Some v \<and> waiting (window E w) (map tm [0..<m]) d k (x # xs) v
      \<and> (m \<noteq> 0 \<longrightarrow> cw_picked (qu v) \<and> \<not> (tm 0 + unat d \<le> tm (m - 1) \<and> window E w \<le> contention (unat d) (map tm [0..<m]))))"
proof (induction m)
  case 0
  then show ?case using w by simp
next
  case (Suc m)
  show ?case
  proof (cases "\<exists>i<m. \<exists>v v'. worker_run E i w = Some v \<and> queue_worker_step E v = Some v' \<and> sent x xs v v'")
    case True
    then show ?thesis using less_SucI by blast
  next
    case False
    then obtain v where v: "worker_run E m w = Some v" "waiting (window E w) (map tm [0..<m]) d k (x # xs) v" "m \<noteq> 0 \<longrightarrow> cw_picked (qu v)"
      using Suc by auto
    have win: "window E v = window E w" if "\<not> cw_picked (qu v)" using that v(1,3) by (cases m) simp_all
    have qv: "quiet_round B v" "worker_time E v = tm m" using q [of m v] v Suc.prems by (simp_all add: waiting_def)
    have "0 < tm m" using t(1) t(2) [of 0 m] Suc.prems by simp
    moreover have "(if map tm [0..<m] = [] then 0 else last (map tm [0..<m])) \<le> tm m"
      using t(2) [of "m - 1" m] Suc.prems by (simp add: last_map)
    ultimately obtain v' where v': "queue_worker_step E v = Some v'" "sent x xs v v' \<or> waiting (window E w) (map tm [0..<m] @ [tm m]) d k (x # xs) v' \<and> cw_picked (qu v')
        \<and> \<not> (hd (map tm [0..<m] @ [tm m]) + unat d \<le> tm m \<and> window E w \<le> contention (unat d) (map tm [0..<m] @ [tm m]))"
      using quiet_step [OF v(2) qv(1) win] by (auto simp: qv(2))
    have "hd (map tm [0..<m] @ [tm m]) = tm 0" by (cases m) (simp_all add: upt_conv_Cons del: upt_Suc)
    with v(1) v' show ?thesis by (auto simp: less_Suc_eq)
  qed
qed

lemma free_channel_sends:
  assumes w: "waiting (window E w) [] (guard_time w) k (x # xs) w"
    and q: "\<And>i v. i < n \<Longrightarrow> worker_run E i w = Some v \<Longrightarrow> queue_rep (qu v) (x # xs) \<Longrightarrow> quiet_round B v \<and> worker_time E v = tm i"
    and t: "0 < tm 0" "\<And>i j. i \<le> j \<Longrightarrow> j < n \<Longrightarrow> tm i \<le> tm j"
    and long: "j < n" "tm 0 + unat (guard_time w) \<le> tm j" "tm j + window E w \<le> tm (n - 1)"
  shows "\<exists>i<n. \<exists>v v'. worker_run E i w = Some v \<and> queue_worker_step E v = Some v' \<and> sent x xs v v'"
proof (rule ccontr)
  assume "\<not> ?thesis"
  moreover have "(\<exists>i<n. \<exists>v v'. worker_run E i w = Some v \<and> queue_worker_step E v = Some v' \<and> sent x xs v v')
    \<or> (\<exists>v. worker_run E n w = Some v \<and> waiting (window E w) (map tm [0..<n]) (guard_time w) k (x # xs) v \<and> (n \<noteq> 0 \<longrightarrow>
        cw_picked (qu v) \<and> \<not> (tm 0 + unat (guard_time w) \<le> tm (n - 1) \<and> window E w \<le> contention (unat (guard_time w)) (map tm [0..<n]))))"
    by (rule worker_run_waits [where n = n and B = B, OF w]) (fact q, fact t(1), fact t(2), simp)
  ultimately have "\<not> (tm 0 + unat (guard_time w) \<le> tm (n - 1) \<and> window E w \<le> contention (unat (guard_time w)) (map tm [0..<n]))"
    using long(1) by auto
  moreover have "sorted (map tm [0..<n])" using t(2) by (auto simp: sorted_iff_nth_mono)
  then have "last (map tm [0..<n]) - tm j \<le> contention (unat (guard_time w)) (map tm [0..<n])"
    by (rule contention_ge) (use long(1,2) in \<open>auto simp: hd_map\<close>)
  moreover have "last (map tm [0..<n]) = tm (n - 1)" using long(1) by (simp add: last_map)
  moreover have "tm j \<le> tm (n - 1)" using t(2) [of j "n - 1"] long(1) by simp
  ultimately show False using long by linarith
qed

text \<open>A fresh access: no window drawn, no sample taken.\<close>

lemma waiting_fresh:
  assumes "calm True k w" "queue_rep (qu w) xs" "tx_enable (qu w)" "\<not> flushing (qu w)" "\<not> cw_picked (qu w)"
    and "medium_free_since (qu w) = 0" "cw_wait_start (qu w) = 0" "cw_wait_passed (qu w) = 0"
  shows "waiting t [] (guard_time w) k xs w"
  using assms by (simp add: waiting_def lbt_rep_def after_difs_def contention_def)

end
