(* ===== verification/Listening.thy ===== *)
theory Listening
  imports Liveness
begin

section \<open>What a round of the worker puts on the bus\<close>

text \<open>
  A round of the worker samples the signal strength, so it is never without input and output; but as long as it
  does not send a packet, nothing it does lets the radio transmit: no transmit command, no write into the transmit
  buffer, no transmit level on the antenna switch (\<open>silent\<close>). This covers the recovery of a radio that is stuck, the
  restart of the reception after a transmission and the reports to the host. With it: the round that finds the channel busy, and the flag
  of a burst that outlives the burst.
\<close>

subsection \<open>Silent actions\<close>

primrec silent :: "io \<Rightarrow> bool" where
  "silent (Pin p v) = (p = TX_EN \<longrightarrow> \<not> v)"
| "silent (Spi m) = (m = [] \<or> hd m \<noteq> 0x83 \<and> hd m \<noteq> 0x0E)"
| "silent (SpiXfer m n) = True"
| "silent (SpiDuplex m) = True"
| "silent (TcpSend b r) = True"
| "silent (TcpClose fd) = True"
| "silent (TcpAccept fd) = True"

text \<open>From \<open>w\<close> to \<open>w'\<close> the process was silent, and it does not believe that the radio transmits.\<close>

definition hushed :: "world \<Rightarrow> world \<Rightarrow> bool" where
  "hushed w w' \<longleftrightarrow> (\<exists>es. trace w' = trace w @ es \<and> list_all silent es) \<and> radio_state (sx w') \<noteq> SX126X_TX"

lemma hushed_refl: "radio_state (sx w) \<noteq> SX126X_TX \<Longrightarrow> hushed w w"
  by (simp add: hushed_def)

lemma hushed_trans: "hushed w v \<Longrightarrow> hushed v u \<Longrightarrow> hushed w u"
  by (force simp: hushed_def)

lemma hushed_keep:
  "hushed w v \<Longrightarrow> trace v' = trace v \<Longrightarrow> radio_state (sx v') = radio_state (sx v) \<Longrightarrow> hushed w v'"
  by (simp add: hushed_def)

lemma hushed_emit: "hushed w v \<Longrightarrow> list_all silent es \<Longrightarrow> hushed w (emit es v)"
  by (fastforce simp: hushed_def emit_def)

lemma hushed_next [simp, intro]: "hushed w v \<Longrightarrow> hushed w (next_read v)"
  by (erule hushed_keep) simp_all

lemma hushed_write_bytes [simp, intro]: "hushed w v \<Longrightarrow> silent (Spi m) \<Longrightarrow> hushed w (snd (write_bytes E m v))"
  by (simp add: write_bytes_def Let_def hushed_emit)

lemma hushed_write_read_bytes [simp, intro]: "hushed w v \<Longrightarrow> hushed w (snd (write_read_bytes E m r v))"
  and hushed_read_bytes [simp, intro]: "hushed w v \<Longrightarrow> hushed w (snd (read_bytes E m r v))"
  by (simp_all add: write_read_bytes_def read_bytes_def Let_def hushed_emit)

lemma hushed_rst [simp, intro]: "hushed w v \<Longrightarrow> hushed w (set_pin RST b v)"
  by (simp add: set_pin_def hushed_emit)

lemma hushed_idle [simp, intro]: "hushed w v \<Longrightarrow> st \<noteq> SX126X_TX \<Longrightarrow> hushed w (v\<lparr>sx := (sx v)\<lparr>radio_state := st\<rparr>\<rparr>)"
  by (simp add: hushed_def)

lemma hushed_switch_ant [simp, intro]: "hushed w v \<Longrightarrow> hushed w (switch_ant v)"
  by (cases "radio_state (sx v)") (auto simp: switch_ant_def set_pin_def Let_def hushed_emit, auto simp: hushed_def)

lemma hushed_commands [simp, intro]:
  assumes "hushed w v"
  shows "hushed w (snd (set_standby E x v))" "hushed w (snd (set_packet_type E x v))" "hushed w (snd (calibrate E x v))"
    "hushed w (snd (irq_setup E a b c d v))" "hushed w (snd (set_packet_params_loRa E pl ht py crc v))" "hushed w (snd (set_rx E t v))"
    "hushed w (snd (sx126x_get_status_mode E v))" "hushed w (snd (get_busy E v))" "hushed w (snd (get_current_rssi E v))"
    "hushed w (set_recovering r v)"
  using assms
  by (simp_all add: set_standby_def set_packet_type_def calibrate_def irq_setup_def clear_irq_status_def set_packet_params_loRa_def
      set_rx_def sx126x_get_status_mode_def get_busy_def get_current_rssi_def set_recovering_def Let_def case_prod_beta
      hushed_keep [of w v])

lemma hushed_busy_poll [simp, intro]: "hushed w v \<Longrightarrow> hushed w (snd (busy_poll E n v))"
proof (induction E n v rule: busy_poll.induct)
  case (1 E n v)
  then show ?case by (subst busy_poll.simps) (auto simp: get_busy_def Let_def)
qed

lemma hushed_encode: "hushed w v \<Longrightarrow> outcome False (hushed w) (kiss_encode E buf v)"
proof -
  assume v: "hushed w v"
  have "hushed w v'" if v': "kiss_encode E buf v = Some v'" for v'
  proof -
    obtain out i where o: "v' = tcp_send E (take i out) (v\<lparr>kiss_out := out\<rparr>)"
      using v' by (auto simp: kiss_encode_def split: bind_splits)
    obtain es where es: "trace v' = trace v @ es" "list_all host_io es"
      using tcp_send_trace [of E "take i out" "v\<lparr>kiss_out := out\<rparr>"] by (auto simp: o)
    have "silent e" if "host_io e" for e using that by (cases e) simp_all
    with es(2) have "list_all silent es" by (auto simp: list_all_iff)
    then show ?thesis using v es(1) by (auto simp: hushed_def o)
  qed
  then show ?thesis by (simp add: outcome_def)
qed

subsection \<open>Waiting and recovery\<close>

locale silent_wait =
  fixes wait :: "env \<Rightarrow> world \<Rightarrow> world option"
  assumes waits: "hushed w v \<Longrightarrow> outcome False (hushed w) (wait E v)"
begin

lemma silent_mask: "hushed w v \<Longrightarrow> outcome False (hushed w) (set_irq_mask_by wait E v)"
  unfolding set_irq_mask_by_def Let_def by (auto intro!: outcome_chain waits)

lemma silent_dio3: "hushed w v \<Longrightarrow> outcome False (hushed w) (set_dio3_txco_ctrl_by wait E x d v)"
  unfolding set_dio3_txco_ctrl_by_def Let_def by (auto intro!: outcome_chain waits)

lemma silent_tail: "hushed w v \<Longrightarrow> outcomer False (hushed w) (begin_tail_by wait E v)"
  unfolding begin_tail_by_def Let_def case_prod_beta by (auto intro!: outcome_chain waits silent_mask)

lemma silent_begin: "hushed w v \<Longrightarrow> outcomer False (hushed w) (sx126x_begin_by wait E v)"
  unfolding sx126x_begin_by_def Let_def case_prod_beta by (auto intro!: outcome_chain waits silent_dio3 silent_tail)

end

interpretation sn: silent_wait wait_nested
  by unfold_locales (simp add: wait_nested_def)

lemma silent_wait_on_busy: "hushed w v \<Longrightarrow> outcome False (hushed w) (wait_on_busy E v)"
  unfolding wait_on_busy_def wait_body_def Let_def case_prod_beta rnode_report_error_def
  by (auto intro!: outcome_chain sn.silent_begin hushed_encode)

interpretation sb: silent_wait wait_on_busy
  by unfold_locales (rule silent_wait_on_busy)

lemma silent_current_rssi: "hushed w v \<Longrightarrow> outcomer False (hushed w) (sx126x_current_rssi E v)"
  unfolding sx126x_current_rssi_def Let_def case_prod_beta by (auto intro!: outcome_chain silent_wait_on_busy)

text \<open>A request for reception first leaves the transmitting state, so it is silent whatever the state was.\<close>

lemma silent_request: "outcome False (hushed v) (sx126x_request E t v)"
proof -
  have "fst (request_timeout t) \<noteq> SX126X_TX" by (simp add: request_timeout_def Let_def)
  then have "hushed v (v\<lparr>sx := (sx v)\<lparr>radio_state := fst (request_timeout t)\<rparr>\<rparr>)" by (simp add: hushed_def)
  then show ?thesis
    unfolding sx126x_request_def Let_def case_prod_beta set_irq_mask_def set_radio_state_def
    by (auto intro!: outcome_chain silent_wait_on_busy sb.silent_mask)
qed

subsection \<open>A sample of the channel\<close>

lemma hushed_states [simp]:
  "hushed w (v\<lparr>cs := c\<rparr>) = hushed w v" "hushed w (v\<lparr>qu := q\<rparr>) = hushed w v" "hushed w (v\<lparr>rn := r\<rparr>) = hushed w v"
  "hushed w (upd_channel g v) = hushed w v" "hushed w (upd_qu f v) = hushed w v" "hushed w (upd_rn h v) = hushed w v"
  by (simp_all add: hushed_def upd_channel_def upd_qu_def upd_rn_def)

lemma silent_parameters: "hushed w v \<Longrightarrow> outcome False (hushed w) (update_csma_parameters E v)"
  unfolding update_csma_parameters_def Let_def rnode_send_stat_csma_def
  by (auto intro!: outcome_value hushed_encode)

lemma silent_stat_channel: "hushed w v \<Longrightarrow> outcome False (hushed w) (rnode_send_stat_channel E ch v)"
  unfolding rnode_send_stat_channel_def Let_def
  by (auto intro!: outcome_value hushed_encode)

lemma silent_airtime: "hushed w v \<Longrightarrow> outcome False (hushed w) (csma_update_airtime E v)"
  unfolding csma_update_airtime_def Let_def case_prod_beta
  by (auto intro!: outcome_value outcome_bind [OF silent_parameters] silent_stat_channel)

lemma silent_sample: "hushed w v \<Longrightarrow> outcome False (hushed w) (sample_util E v)"
  unfolding sample_util_def Let_def case_prod_beta
  by (auto intro!: outcome_value silent_airtime)

lemma silent_persistence: "hushed w v \<Longrightarrow> hushed w (check_persistence E v)"
  by (simp add: check_persistence_def Let_def case_prod_beta)

lemma silent_rssi: "hushed w v \<Longrightarrow> outcome False (hushed w) (csma_update_current_rssi E v)"
proof -
  assume v: "hushed w v"
  have "outcome False (hushed w) (do {
      (rssi, v) \<leftarrow> sx126x_current_rssi E v;
      let v = upd_channel (\<lambda>ch. ch\<lparr>current_rssi := rssi\<rparr>) v;
      let v = check_persistence E (v\<lparr>cs := detect_interference (cs v)\<rparr>);
      c \<leftarrow> track_noise_floor (cs v);
      sample_util E (v\<lparr>cs := c\<rparr>) })"
    by (rule outcome_bindr [OF silent_current_rssi [OF v]])
      (auto simp: Let_def intro!: outcome_value silent_sample silent_persistence)
  then show ?thesis using v by (simp add: csma_update_current_rssi_def)
qed

lemma silent_round_end: "hushed w v \<Longrightarrow> outcome False (hushed w) (round_end E now v)"
  by (simp add: round_end_def silent_rssi)

text \<open>A round that does not access the medium is its end, after an end of the pause if transmission was disabled.\<close>

definition pause_over :: "u64 \<Rightarrow> world \<Rightarrow> world" where
  "pause_over now w = (if \<not> tx_enable (qu w) \<and> tx_disabled (qu w) \<le> now
     then csma_set_dcd False (upd_qu (\<lambda>q. q\<lparr>tx_enable := True\<rparr>) w) else w)"

lemma round_without_access:
  assumes "sx126x_get_state w \<noteq> SX126X_TX" "\<not> (tx_enable (qu w) \<and> q_head (qu w) \<noteq> None)"
  shows "queue_worker_step E w = round_end E (fst (get_time E w)) (pause_over (fst (get_time E w)) (next_read w))"
proof -
  obtain now where t: "get_time E w = (now, next_read w)" using get_time_snd [of E w] by (metis prod.collapse)
  have r: "(if rssi_delay (qu v) < now then csma_update_current_rssi E (upd_qu (\<lambda>q. q\<lparr>rssi_delay := now + 25\<rparr>) v) else Some v)
      = round_end E now v" for v
    by (simp add: round_end_def)
  show ?thesis
    using assms unfolding queue_worker_step_def t Let_def prod.case fst_conv r
    by (cases "tx_enable (qu w)") (simp_all add: pause_over_def sx126x_get_state_def)
qed

lemma pause_over_keeps:
  assumes "host_inv k w"
  shows "host_inv k (pause_over now w)" "hushed u w \<Longrightarrow> hushed u (pause_over now w)" "bins_low (cs w) \<Longrightarrow> bins_low (cs (pause_over now w))"
    "qu (pause_over now w) = (qu w)\<lparr>tx_enable := tx_enable (qu (pause_over now w))\<rparr>"
    "tx_enable (qu w) \<Longrightarrow> pause_over now w = w"
proof -
  have "host_inv k (csma_set_dcd False (upd_qu (\<lambda>q. q\<lparr>tx_enable := True\<rparr>) w))"
    by (intro host_inv_dcd host_inv_upd_qu assms) simp_all
  then show "host_inv k (pause_over now w)" using assms by (simp add: pause_over_def)
  show "hushed u w \<Longrightarrow> hushed u (pause_over now w)" "bins_low (cs w) \<Longrightarrow> bins_low (cs (pause_over now w))"
    "qu (pause_over now w) = (qu w)\<lparr>tx_enable := tx_enable (qu (pause_over now w))\<rparr>"
    "tx_enable (qu w) \<Longrightarrow> pause_over now w = w"
    by (simp_all add: pause_over_def csma_set_dcd_def bins_low_def upd_qu_def)
qed

text \<open>The end of a round is defined while the air time bins are low, and keeps the timers of the queue.\<close>

lemma round_end_defined:
  assumes w: "host_inv k w" "bins_low (cs w)"
  shows "\<exists>w'. round_end E now w = Some w'"
proof (cases "rssi_delay (qu w) < now")
  case True
  have "host_inv k (upd_qu (\<lambda>q. q\<lparr>rssi_delay := now + 25\<rparr>) w)" by (rule host_inv_upd_qu [OF w(1)]) simp_all
  from csma_update_current_rssi_ok [OF host_inv_chan_ok [OF this], of E] w(2) True show ?thesis
    by (auto simp: outcome_def round_end_def upd_qu_def)
next
  case False
  then show ?thesis by (simp add: round_end_def)
qed

subsection \<open>A busy channel\<close>

text \<open>Outside a burst the access to a busy channel resets two timers, and draws the window if there is none yet.\<close>

lemma busy_access:
  assumes w: "host_inv k w" "\<not> flushing (qu w)" "\<not> csma_medium_free w" "radio_state (sx w) \<noteq> SX126X_TX"
  shows "\<exists>v. worker_access E now w = Some v \<and> hushed w v \<and> host_inv k v \<and> cs v = cs w
    \<and> (\<exists>t c. qu v = (qu w)\<lparr>medium_free_since := 0, cw_wait_start := 0, cw_target := t, cw_picked := c\<rparr>)"
proof -
  obtain t where t: "csma_get_cw E w = Some (t, next_read w)" using csma_get_cw_range [OF host_inv_csma_wf [OF w(1)], of E] by blast
  obtain v where v: "worker_access E now w = Some v" "trace v = trace w" "sx v = sx w" "cs v = cs w"
    "\<exists>t c. qu v = (qu w)\<lparr>medium_free_since := 0, cw_wait_start := 0, cw_target := t, cw_picked := c\<rparr>"
  proof (cases "cw_picked (qu w)")
    case True
    then show ?thesis using w(2,3) by (intro that [of "w\<lparr>qu := (qu w)\<lparr>medium_free_since := 0, cw_wait_start := 0\<rparr>\<rparr>"])
        (auto simp: worker_access_def pick_cw_def difs_cw_step_def Let_def intro!: exI [of _ "cw_target (qu w)"] exI [of _ True])
  next
    case False
    then show ?thesis using w(2,3) t
      by (intro that [of "(next_read w)\<lparr>qu := (qu w)\<lparr>medium_free_since := 0, cw_wait_start := 0, cw_target := ucast t, cw_picked := True\<rparr>\<rparr>"])
        (auto simp: worker_access_def pick_cw_def difs_cw_step_def upd_qu_def csma_medium_free_def Let_def)
  qed
  have "hushed w v" using hushed_keep [OF hushed_refl [OF w(4)] v(2)] v(3) by simp
  moreover have "host_inv k v" using outcome_weak [OF worker_access_outcome [OF w(1)] v(1)] .
  ultimately show ?thesis using v by blast
qed

lemma busy_round:
  assumes w: "host_inv k w" "bins_low (cs w)" "sx126x_get_state w \<noteq> SX126X_TX" "\<not> flushing (qu w)" "\<not> csma_medium_free w"
  shows "\<exists>w'. queue_worker_step E w = Some w' \<and> hushed w w' \<and> host_inv k w' \<and> \<not> flushing (qu w')
    \<and> q_head (qu w') = q_head (qu w) \<and> q_tail (qu w') = q_tail (qu w) \<and> q_heap (qu w') = q_heap (qu w)
    \<and> cw_wait_passed (qu w') = cw_wait_passed (qu w)
    \<and> (tx_enable (qu w) \<and> q_head (qu w) \<noteq> None \<longrightarrow> medium_free_since (qu w') = 0 \<and> cw_wait_start (qu w') = 0)"
proof -
  define now where "now = fst (get_time E w)"
  have n: "host_inv k (next_read w)" "hushed w (next_read w)" using w(1,3) by (simp_all add: hushed_refl sx126x_get_state_def)
  have fin: ?thesis if v: "queue_worker_step E w = round_end E now v" "hushed w v" "host_inv k v" "bins_low (cs v)"
      "\<not> flushing (qu v)" "q_head (qu v) = q_head (qu w)" "q_tail (qu v) = q_tail (qu w)" "q_heap (qu v) = q_heap (qu w)"
      "cw_wait_passed (qu v) = cw_wait_passed (qu w)"
      "tx_enable (qu w) \<and> q_head (qu w) \<noteq> None \<longrightarrow> medium_free_since (qu v) = 0 \<and> cw_wait_start (qu v) = 0" for v
  proof -
    obtain w' where w': "round_end E now v = Some w'" using round_end_defined [OF v(3,4), of E now] by blast
    obtain d where d: "qu w' = (qu v)\<lparr>rssi_delay := d\<rparr>" using round_end_keeps [OF v(3) w'] by blast
    have "hushed w w'" using silent_round_end [OF v(2), of E now] w' by (simp add: outcome_def)
    moreover have "host_inv k w'" using outcome_weak [OF queue_worker_step_outcome [OF w(1)]] v(1) w' by simp
    ultimately show ?thesis using v(1,5-) w' d by simp
  qed
  show ?thesis
  proof (cases "tx_enable (qu w) \<and> q_head (qu w) \<noteq> None")
    case True
    have "\<not> flushing (qu (next_read w))" "\<not> csma_medium_free (next_read w)" "radio_state (sx (next_read w)) \<noteq> SX126X_TX"
      using w(3-5) by (simp_all add: csma_medium_free_def sx126x_get_state_def split: if_splits)
    from busy_access [OF n(1) this, of E now] obtain v where v: "worker_access E now (next_read w) = Some v"
      "hushed (next_read w) v" "host_inv k v" "cs v = cs (next_read w)"
      "\<exists>t c. qu v = (qu (next_read w))\<lparr>medium_free_since := 0, cw_wait_start := 0, cw_target := t, cw_picked := c\<rparr>"
      by blast
    show ?thesis
    proof (rule fin)
      show "queue_worker_step E w = round_end E now v" using waiting_round [OF w(3), of E] True v(1) by (simp add: now_def)
      show "hushed w v" using n(2) v(2) by (rule hushed_trans)
    qed (use v w in auto)
  next
    case False
    note p = pause_over_keeps [OF n(1), where now = now]
    show ?thesis
    proof (rule fin)
      show "queue_worker_step E w = round_end E now (pause_over now (next_read w))"
        using round_without_access [OF w(3) False, of E] by (simp add: now_def)
    qed (use p(1-3) n(2) w(2,4) in \<open>simp_all, (subst p(4), simp)+, insert False, auto\<close>)
  qed
qed

subsection \<open>A burst that outlives itself\<close>

lemma host_push:
  assumes "host_inv k w" "queue_rep (qu w) xs"
  shows "\<exists>w'. queue_push E buf w = Some w' \<and> host_inv k w' \<and> queue_rep (qu w') (xs @ [buf]) \<and> rn w' = rn w
    \<and> cs w' = cs w \<and> modem (sx w') = modem (sx w) \<and> flushing (qu w') = flushing (qu w)
    \<and> tx_enable (qu w') = tx_enable (qu w) \<and> medium_free_since (qu w') = medium_free_since (qu w)"
proof -
  obtain q' w' where q': "queue_push E buf w = Some w'" "chan_ok (k, q', rn w, modem (sx w), txfifo w) w'" "cs w' = cs w"
      "queue_rep q' (xs @ [buf])"
      "q' = (qu w)\<lparr>q_heap := q_heap q', q_brk := q_brk q', q_head := q_head q', q_tail := q_tail q', queue_depth := queue_depth q'\<rparr>"
    using queue_push_ok [OF host_inv_chan_ok [OF assms(1)] assms(2), of E buf] by blast
  moreover have "host_inv k w'" using host_inv_push [OF assms(1), of E buf] q'(1) by (simp add: gives_def)
  moreover have "flushing q' = flushing (qu w)" "tx_enable q' = tx_enable (qu w)" "medium_free_since q' = medium_free_since (qu w)"
    by (subst q'(5), simp)+
  ultimately show ?thesis by (auto simp: chan_ok_def chan_rest_def)
qed

lemma silent_push: "hushed w v \<Longrightarrow> outcome False (hushed w) (queue_push E buf v)"
  unfolding queue_push_def rnode_send_stat_queue_def by (auto intro!: outcome_value hushed_encode)

text \<open>Sending changes the list and the time-out of the transmission, and no other timer or flag.\<close>

lemma q_remove_flags:
  "q_remove i q = Some q' \<Longrightarrow> flushing q' = flushing q \<and> tx_enable q' = tx_enable q \<and> medium_free_since q' = medium_free_since q"
  by (auto simp: q_remove_def split: bind_splits if_splits)

lemma kiss_encode_qu: "kiss_encode E buf w = Some w' \<Longrightarrow> qu w' = qu w"
  by (auto simp: kiss_encode_def split: bind_splits)

lemma update_airtime_qu: "csma_update_airtime E w = Some w' \<Longrightarrow> qu w' = qu w"
proof -
  assume u: "csma_update_airtime E w = Some w'"
  have p: "qu v' = qu v" if "update_csma_parameters E v = Some v'" for v v'
    using that by (auto simp: update_csma_parameters_def rnode_send_stat_csma_def Let_def dest: kiss_encode_qu split: bind_splits if_splits)
  have c: "qu v' = qu v" if "rnode_send_stat_channel E ch v = Some v'" for ch v v'
    using that by (auto simp: rnode_send_stat_channel_def Let_def dest: kiss_encode_qu split: bind_splits)
  from u show ?thesis
    by (auto simp: csma_update_airtime_def upd_channel_def case_prod_unfold Let_def dest!: p c split: bind_splits)
qed

lemma send_packet_flags:
  assumes w: "host_inv k w" and s: "send_packet E w = Some (b, w')"
  shows "flushing (qu w') = flushing (qu w) \<and> tx_enable (qu w') = tx_enable (qu w) \<and> medium_free_since (qu w') = medium_free_since (qu w)"
proof (cases "q_head (qu w) = None \<or> rnode_check_airtime_lock w")
  case True
  then have "w' = w" using s by (cases "q_head (qu w) = None") (simp_all add: send_packet_def)
  then show ?thesis by simp
next
  case False
  obtain buf a w1 q2 w2 where s1: "rnode_to_air E buf w = Some (a, w1)"
    "q_remove (q_head (qu w)) ((qu w1)\<lparr>tx_wait_timeout := fst (get_time E w1) + ucast (a * 2)\<rparr>) = Some q2"
    "rnode_send_stat_queue E (queue_depth q2) ((next_read w1)\<lparr>qu := q2\<rparr>) = Some w2" "csma_update_airtime E w2 = Some w'"
    using s False by (auto simp: send_packet_def Let_def upd_qu_def case_prod_unfold split: bind_splits)
  obtain c q r sf cr bw pl e xs where d: "drv_ok (k, c, q, r, (sf, cr, bw, pl), e) w" "csma_wf c" "queue_rep q xs" "rn_wf r"
    using w host_inv_obtain by blast
  have "air_inv k q (sf, cr, bw, pl) w1"
    using rnode_to_air_outcome [OF air_invI [OF d(1,2,4)], of buf E] s1(1) by (auto simp: outcomer_def)
  then have q1: "qu w1 = qu w" using drv_qu_eq [OF d(1)] by (auto simp: air_inv_def dest: drv_qu_eq)
  have q2: "qu w2 = q2" using kiss_encode_qu [OF s1(3) [unfolded rnode_send_stat_queue_def]] by simp
  show ?thesis using q_remove_flags [OF s1(2)] q1 q2 update_airtime_qu [OF s1(4)] by simp
qed

text \<open>The state between the burst and the next packet.\<close>

definition after_burst :: "kiss_st \<Rightarrow> world \<Rightarrow> bool" where
  "after_burst k w \<longleftrightarrow> host_inv k w \<and> queue_rep (qu w) [] \<and> tx_enable (qu w) \<and> flushing (qu w) \<and> medium_free_since (qu w) = 0
     \<and> sx126x_get_state w \<noteq> SX126X_TX"

lemma after_burst_head: "after_burst k w \<Longrightarrow> q_head (qu w) = None"
  using pq.rep_empty [of "qu w" "[]"] by (simp add: after_burst_def)

text \<open>An idle round leaves it, so any number of them does.\<close>

lemma after_burst_round:
  assumes w: "after_burst k w" and s: "queue_worker_step E w = Some w'"
  shows "after_burst k w'"
proof -
  let ?now = "fst (get_time E w)"
  have n: "host_inv k (next_read w)" "sx126x_get_state w \<noteq> SX126X_TX" "tx_enable (qu w)" "hushed w (next_read w)"
    using w by (auto simp: after_burst_def sx126x_get_state_def hushed_refl)
  have "queue_worker_step E w = round_end E ?now (next_read w)"
    using round_without_access [OF n(2), of E] after_burst_head [OF w] pause_over_keeps(5) [OF n(1), of ?now] n(3) by simp
  then have r: "round_end E ?now (next_read w) = Some w'" using s by simp
  obtain d where q: "qu w' = (qu w)\<lparr>rssi_delay := d\<rparr>" using round_end_keeps [OF n(1) r] by auto
  have "queue_rep (qu w') []" unfolding q by (rule queue_rep_timers) (use w in \<open>simp_all add: after_burst_def\<close>)
  moreover have "hushed w w'" using silent_round_end [OF n(4), of E ?now] r by (simp add: outcome_def)
  moreover have "host_inv k w'" using outcome_weak [OF queue_worker_step_outcome s] w by (simp add: after_burst_def)
  ultimately show ?thesis using w q by (simp add: after_burst_def hushed_def sx126x_get_state_def)
qed

lemma after_burst_run: "after_burst k w \<Longrightarrow> worker_run E n w = Some w' \<Longrightarrow> after_burst k w'"
  by (induction n arbitrary: w') (auto intro: after_burst_round split: bind_splits)

text \<open>The air time bins are only ever cleared outside a transmission.\<close>

lemma track_bins: "track_noise_floor c = Some c' \<Longrightarrow> airtime_bins c' = airtime_bins c"
  by (auto simp: track_noise_floor_def Let_def split: bind_splits if_splits)

lemma bins_upto_updates [simp]:
  "bins_upto M (c\<lparr>longterm_bins := x\<rparr>) = bins_upto M c" "bins_upto M (c\<lparr>util_samples := y\<rparr>) = bins_upto M c"
  "bins_upto M (c\<lparr>dcd_sample := i\<rparr>) = bins_upto M c" "bins_upto M (c\<lparr>local_channel_util := z\<rparr>) = bins_upto M c"
  "bins_upto M (c\<lparr>channel := ch\<rparr>) = bins_upto M c" "bins_upto M (c\<lparr>dcd := b\<rparr>) = bins_upto M c"
  by (simp_all add: bins_upto_def)

lemma sample_bins: "sample_util E w = Some w' \<Longrightarrow> bins_upto M (cs w) \<Longrightarrow> bins_upto M (cs w')"
proof -
  assume s: "sample_util E w = Some w'" and m: "bins_upto M (cs w)"
  have b: "cs (snd (current_airtime_bin E v)) = cs v" for v by simp
  from s show ?thesis
    using b m by (auto simp: sample_util_def upd_channel_def Let_def case_prod_unfold
        dest!: update_airtime_after(2) [where M = M] split: bind_splits if_splits)
qed

lemma rssi_bins:
  assumes w: "host_inv k w" "bins_upto M (cs w)" and u: "csma_update_current_rssi E w = Some w'"
  shows "bins_upto M (cs w')"
proof (cases "sx126x_get_state w \<noteq> SX126X_RX_SINGLE \<and> sx126x_get_state w \<noteq> SX126X_RX_CONTINUOUS")
  case True
  then show ?thesis using w(2) u by (simp add: csma_update_current_rssi_def)
next
  case False
  obtain rssi w1 where r: "sx126x_current_rssi E w = Some (rssi, w1)" "cs w1 = cs w"
    using chan_drvr [OF drv_current_rssi [where E = E and w = w] host_inv_chan_ok [OF w(1)]] by (auto simp: givesr_def chan_fixed_def)
  define v where "v = upd_channel (\<lambda>ch. ch\<lparr>current_rssi := rssi\<rparr>) w1"
  define v2 where "v2 = check_persistence E (v\<lparr>cs := detect_interference (cs v)\<rparr>)"
  have "airtime_bins (cs v2) = airtime_bins (cs w)"
    by (simp add: v2_def v_def check_persistence_def detect_interference_def upd_channel_def r(2) Let_def case_prod_unfold)
  moreover obtain c' where c': "track_noise_floor (cs v2) = Some c'" "sample_util E (v2\<lparr>cs := c'\<rparr>) = Some w'"
    using u False r(1) by (auto simp: csma_update_current_rssi_def v_def v2_def Let_def split: bind_splits)
  ultimately show ?thesis using sample_bins [OF c'(2), of M] track_bins [OF c'(1)] w(2) by (simp add: bins_upto_def)
qed

lemma round_end_bins: "host_inv k w \<Longrightarrow> round_end E now w = Some w' \<Longrightarrow> bins_upto M (cs w) \<Longrightarrow> bins_upto M (cs w')"
proof -
  assume w: "host_inv k w" "round_end E now w = Some w'" "bins_upto M (cs w)"
  have "host_inv k (upd_qu (\<lambda>q. q\<lparr>rssi_delay := now + 25\<rparr>) w)" by (rule host_inv_upd_qu [OF w(1)]) simp_all
  from rssi_bins [OF this, of M E w'] w(2,3) show ?thesis
    by (auto simp: round_end_def upd_qu_def split: if_splits)
qed

text \<open>What stays of the settings from the burst to the next packet.\<close>

definition send_settings :: "world \<Rightarrow> (u8 \<times> bool) \<times> (cfloat \<times> cfloat) \<times> modem" where
  "send_settings w = (rn_mode (rn w), air_limits (rn w), modem (sx w))"

text \<open>The end of the contention with a packet waiting: the packet goes, and the flag of the burst is set and stays set.\<close>

lemma burst_access:
  assumes w: "host_inv k w" "queue_rep (qu w) (x # xs)" "may_send B w x" "\<not> flushing (qu w)" "talks now w" "csma_should_flush w"
    and M: "bins_upto M (cs w)" "M + 2 * B \<le> 45000"
  shows "\<exists>u. worker_access E now w = Some u \<and> on_air w x u \<and> queue_rep (qu u) xs \<and> host_inv k u \<and> flushing (qu u)
    \<and> medium_free_since (qu u) = 0 \<and> bins_upto (M + 2 * B) (cs u) \<and> send_settings u = send_settings w"
proof -
  let ?s = "difs_cw_step now (of_int (csma_get_difs_ms w)) (csma_medium_free w) (qu w)"
  define q where "q = (snd ?s)\<lparr>flushing := True\<rparr>"
  have p: "cw_picked (qu w)" "fst ?s" using w(4,5) by (simp_all add: talks_def)
  obtain a b c e f where s: "snd ?s =
      (qu w)\<lparr>medium_free_since := a, cw_wait_start := b, cw_wait_passed := c, cw_picked := e, cw_target := f\<rparr>"
    using difs_cw_step_list by blast
  have q: "flushing q" "medium_free_since q = 0" using p(2) by (auto simp: q_def difs_cw_step_def Let_def split: if_splits)
  have rep: "queue_rep q ys" if "queue_rep (qu w) ys" for ys using that by (rule queue_rep_timers) (simp_all add: q_def s)
  define v where "v = w\<lparr>qu := q\<rparr>"
  have v: "host_inv k v" "queue_rep (qu v) (x # xs)" "may_send B v x" "bins_upto M (cs v)"
    using host_inv_qu [OF w(1), of q] rep w(2,3) M(1)
    by (auto simp: v_def may_send_def rnode_check_airtime_lock_def csma_get_channel_def)
  obtain u where u: "send_packet E v = Some (True, u)" "on_air v x u" "queue_rep (qu u) xs" "host_inv k u"
    "rn_mode (rn u) = rn_mode (rn v)" "modem (sx u) = modem (sx v)" "bins_upto (M + 2 * B) (cs u)" "air_limits (rn u) = air_limits (rn v)"
    using send_packet_bins [OF v(1-3,4) M(2), of E] by blast
  have "flushing (qu u)" "medium_free_since (qu u) = 0" using send_packet_flags [OF v(1) u(1)] q by (simp_all add: v_def)
  moreover have "worker_access E now w = Some u"
    using w(4,6) p u(1) by (auto simp: worker_access_def pick_cw_def Let_def case_prod_unfold q_def v_def csma_should_flush_def upd_qu_def)
  ultimately show ?thesis using u by (auto simp: v_def on_air_def send_settings_def)
qed

text \<open>The round around an access: its end changes neither the queue nor what is on the air.\<close>

lemma round_of_access:
  assumes w: "sx126x_get_state w \<noteq> SX126X_TX" "tx_enable (qu w)" "q_head (qu w) \<noteq> None"
    and u: "worker_access E (fst (get_time E w)) (next_read w) = Some u" "host_inv k u" "bins_upto M (cs u)" "M \<le> 45000"
  shows "\<exists>w'. queue_worker_step E w = Some w' \<and> host_inv k w' \<and> rn w' = rn u \<and> fifo_writes (trace w') = fifo_writes (trace u)
    \<and> (\<exists>d. qu w' = (qu u)\<lparr>rssi_delay := d\<rparr>) \<and> modem (sx w') = modem (sx u) \<and> bins_upto M (cs w')"
proof -
  obtain w' where w': "round_end E (fst (get_time E w)) u = Some w'"
    using round_end_defined [OF u(2) bins_upto_low [OF u(3,4)]] by blast
  have s: "queue_worker_step E w = Some w'" using waiting_round [OF w, of E] u(1) w' by simp
  have "host_inv k w'"
  proof -
    obtain d where d: "qu w' = (qu u)\<lparr>rssi_delay := d\<rparr>" using round_end_keeps [OF u(2) w'] by blast
    show ?thesis
    proof (cases "rssi_delay (qu u) < fst (get_time E w)")
      case True
      have h: "host_inv k (upd_qu (\<lambda>q. q\<lparr>rssi_delay := fst (get_time E w) + 25\<rparr>) u)" by (rule host_inv_upd_qu [OF u(2)]) simp_all
      have "outcome False (host_inv k) (csma_update_current_rssi E (upd_qu (\<lambda>q. q\<lparr>rssi_delay := fst (get_time E w) + 25\<rparr>) u))"
        by (rule host_inv_chan [OF _ h], drule csma_update_current_rssi_ok [of _ _ E]) (simp add: outcome_def)
      then show ?thesis using w' True by (simp add: round_end_def outcome_def)
    next
      case False
      then show ?thesis using w' u(2) by (simp add: round_end_def)
    qed
  qed
  then show ?thesis using s round_end_keeps [OF u(2) w'] round_end_bins [OF u(2) w' u(3)] by blast
qed

text \<open>The radio reports the end of a packet of one frame.\<close>

lemma burst_done:
  assumes w: "host_inv k w" "queue_rep (qu w) []" "flushing (qu w)" "medium_free_since (qu w) = 0" "len_tx (rn w) = 0"
    and M: "bins_upto M (cs w)"
  shows "\<exists>w'. rnode_tx_done E (queue_medium_state E CAUSE_TX_DONE w) = Some w' \<and> after_burst k w' \<and> bins_upto M (cs w')
    \<and> send_settings w' = send_settings w"
proof -
  obtain now where t: "get_time E w = (now, next_read w)" using get_time_snd [of E w] by (metis prod.collapse)
  define v where "v = queue_medium_state E CAUSE_TX_DONE w"
  have v: "host_inv k v" unfolding v_def by (rule host_inv_medium_state [OF w(1)])
  have e: "v = (csma_set_dcd False (next_read w))\<lparr>qu := (qu w)\<lparr>tx_enable := True\<rparr>\<rparr>"
    by (simp add: v_def queue_medium_state_def t)
  have rnv: "len_tx (rn v) = 0" by (simp add: e csma_set_dcd_def w(5))
  obtain c q r sf cr bw pl p xs where d: "drv_ok (k, c, q, r, (sf, cr, bw, pl), p) v" "csma_wf c" "queue_rep q xs" "rn_wf r"
    using v by (rule host_inv_obtain)
  obtain w' where w': "sx126x_request E RX_CONTINUOUS v = Some w'" "drv_ok (k, c, q, r, (sf, cr, bw, pl), p) w'"
    using drv_request [OF d(1), of E RX_CONTINUOUS] by (auto simp: gives_def)
  have keep: "cs w' = cs v" "qu w' = qu v" "rn w' = rn v" "modem (sx w') = modem (sx v)"
    using drv_cs_eq [OF w'(2)] drv_cs_eq [OF d(1)] drv_qu_eq [OF w'(2)] drv_qu_eq [OF d(1)] drv_modem [OF w'(2)] drv_modem [OF d(1)] d(1) w'(2)
    by simp_all
  have "hushed v w'" using silent_request [of v E RX_CONTINUOUS] w'(1) by (simp add: outcome_def)
  then have st: "sx126x_get_state w' \<noteq> SX126X_TX" by (simp add: hushed_def sx126x_get_state_def)
  have "queue_rep (qu v) []" unfolding e by simp (rule queue_rep_timers [OF w(2)], simp_all)
  moreover have "host_inv k w'" using host_invI [OF w'(2) d(2-4)] .
  ultimately have "after_burst k w'" using st w(3,4) by (simp add: after_burst_def keep) (simp add: e)
  moreover have "rnode_tx_done E v = Some w'" using rnv w'(1) by (simp add: rnode_tx_done_def)
  moreover have "bins_upto M (cs w')" "send_settings w' = send_settings w" using M by (simp_all add: keep send_settings_def e csma_set_dcd_def)
  ultimately show ?thesis by (auto simp: v_def)
qed

text \<open>Idle rounds are defined, and nothing changes for the next packet.\<close>

lemma idle_round:
  assumes w: "after_burst k w" "bins_upto M (cs w)" "M \<le> 45000"
  shows "\<exists>w'. queue_worker_step E w = Some w' \<and> after_burst k w' \<and> bins_upto M (cs w') \<and> send_settings w' = send_settings w"
proof -
  let ?now = "fst (get_time E w)"
  have n: "host_inv k (next_read w)" "sx126x_get_state w \<noteq> SX126X_TX" "tx_enable (qu w)" "bins_upto M (cs (next_read w))"
    using w by (auto simp: after_burst_def)
  have s: "queue_worker_step E w = round_end E ?now (next_read w)"
    using round_without_access [OF n(2), of E] after_burst_head [OF w(1)] pause_over_keeps(5) [OF n(1), of ?now] n(3) by simp
  obtain w' where w': "round_end E ?now (next_read w) = Some w'"
    using round_end_defined [OF n(1) bins_upto_low [OF n(4) w(3)]] by blast
  moreover have "send_settings w' = send_settings w" using round_end_keeps [OF n(1) w'] by (simp add: send_settings_def)
  ultimately show ?thesis using s after_burst_round [OF w(1), of E w'] round_end_bins [OF n(1) w' n(4)] by simp
qed

lemma idle_rounds:
  assumes w: "after_burst k w" "bins_upto M (cs w)" "M \<le> 45000"
  shows "\<exists>w'. worker_run E n w = Some w' \<and> after_burst k w' \<and> bins_upto M (cs w') \<and> send_settings w' = send_settings w"
proof (induction n)
  case 0
  then show ?case using w by simp
next
  case (Suc n)
  then obtain v where v: "worker_run E n w = Some v" "after_burst k v" "bins_upto M (cs v)" "send_settings v = send_settings w" by blast
  from idle_round [OF v(2,3) w(3), of E] v(1,4) show ?case by auto
qed

text \<open>The next packet goes in the round that finds it, without a look at the channel.\<close>

lemma flushed_packet:
  assumes w: "after_burst k w" "bins_upto M (cs w)" "M + 2 * B \<le> 45000"
    and y: "\<And>v. host_inv k v \<Longrightarrow> send_settings v = send_settings w \<Longrightarrow> bins_upto M (cs v) \<Longrightarrow> may_send B v y"
  shows "\<exists>w1 w2. queue_push E y w = Some w1 \<and> queue_rep (qu w1) [y] \<and> medium_free_since (qu w1) = 0
    \<and> queue_worker_step E w1 = Some w2 \<and> on_air w1 y w2 \<and> queue_rep (qu w2) []"
proof -
  have h: "host_inv k w" "queue_rep (qu w) []" "tx_enable (qu w)" "flushing (qu w)" "medium_free_since (qu w) = 0" "radio_state (sx w) \<noteq> SX126X_TX"
    using w(1) by (simp_all add: after_burst_def sx126x_get_state_def)
  obtain w1 where w1: "queue_push E y w = Some w1" "host_inv k w1" "queue_rep (qu w1) [y]" "rn w1 = rn w" "cs w1 = cs w"
    "modem (sx w1) = modem (sx w)" "flushing (qu w1)" "tx_enable (qu w1)" "medium_free_since (qu w1) = 0"
    using host_push [OF h(1,2), of E y] h(3-5) by auto
  have st: "sx126x_get_state w1 \<noteq> SX126X_TX"
    using silent_push [OF hushed_refl [OF h(6)], of E y] w1(1) by (simp add: outcome_def hushed_def sx126x_get_state_def)
  let ?v = "next_read w1"
  have v: "host_inv k ?v" "queue_rep (qu ?v) (y # [])" "may_send B ?v y" "bins_upto M (cs ?v)"
    using w1 w(2) by (auto simp: send_settings_def intro!: y)
  obtain u where u: "send_packet E ?v = Some (True, u)" "on_air ?v y u" "queue_rep (qu u) []" "host_inv k u" "bins_upto (M + 2 * B) (cs u)"
    using send_packet_bins [OF v w(3), of E] by blast
  let ?u = "end_flush (True, u)"
  have a: "worker_access E (fst (get_time E w1)) ?v = Some ?u" using flushing_access [of ?v E] w1(7) u(1) by simp
  have u': "host_inv k ?u" "bins_upto (M + 2 * B) (cs ?u)" "on_air w1 y ?u" "queue_rep (qu ?u) []"
    using u by (auto simp: end_flush_def on_air_def upd_qu_def host_inv_upd_qu [unfolded upd_qu_def] intro: queue_rep_timers)
  have "q_head (qu w1) \<noteq> None" using pq.rep_empty [OF w1(3)] by simp
  from round_of_access [OF st w1(8) this a u'(1,2) w(3)] obtain w2 where w2: "queue_worker_step E w1 = Some w2" "rn w2 = rn ?u"
    "fifo_writes (trace w2) = fifo_writes (trace ?u)" "\<exists>d. qu w2 = (qu ?u)\<lparr>rssi_delay := d\<rparr>" by blast
  have "queue_rep (qu w2) []" using w2(4) u'(4) by (auto intro: queue_rep_timers)
  moreover have "on_air w1 y w2" using u'(3) w2(2,3) by (simp add: on_air_def)
  ultimately show ?thesis using w1 w2(1) by blast
qed

text \<open>
  All of it: a packet waits alone at the end of its contention and the burst mode is on; it goes, the radio reports its end, \<open>n\<close> idle rounds
  pass, the host sends the next packet, and the next round puts it on the air.
\<close>

lemma flush_goes_on:
  assumes w: "host_inv k w" "sx126x_get_state w \<noteq> SX126X_TX" "tx_enable (qu w)" "queue_rep (qu w) [x]" "\<not> flushing (qu w)"
      "talks (fst (get_time E w)) w" "csma_should_flush w" "may_send B w x"
    and len: "length x \<le> DATA_MTU" "length y \<le> 508"
    and free: "air_limits (rn w) = (Fin 0, Fin 0)" "bins_upto M (cs w)" "M + 4 * B \<le> 45000"
  shows "\<exists>w1 w2 w3 w4 w5. queue_worker_step E w = Some w1 \<and> on_air w x w1 \<and> queue_rep (qu w1) [] \<and> flushing (qu w1)
    \<and> rnode_tx_done E (queue_medium_state E CAUSE_TX_DONE w1) = Some w2 \<and> worker_run E n w2 = Some w3
    \<and> queue_push E y w3 = Some w4 \<and> queue_rep (qu w4) [y] \<and> medium_free_since (qu w4) = 0
    \<and> queue_worker_step E w4 = Some w5 \<and> on_air w4 y w5 \<and> queue_rep (qu w5) []"
proof -
  let ?v = "next_read w"
  have m: "M + 2 * B \<le> 45000" "M + 2 * B + 2 * B \<le> 45000" using free(3) by simp_all
  have "csma_medium_free ?v = csma_medium_free w" by (simp add: csma_medium_free_def)
  then have "talks (fst (get_time E w)) ?v" using w(6) by (simp add: talks_def csma_get_difs_ms_def)
  moreover have "may_send B ?v x" using w(8) by (simp add: may_send_def rnode_check_airtime_lock_def csma_get_channel_def)
  ultimately have v: "host_inv k ?v" "queue_rep (qu ?v) (x # [])" "may_send B ?v x" "\<not> flushing (qu ?v)"
    "talks (fst (get_time E w)) ?v" "csma_should_flush ?v" "bins_upto M (cs ?v)"
    using w free(2) by (simp_all add: csma_should_flush_def)
  obtain u where u: "worker_access E (fst (get_time E w)) ?v = Some u" "on_air ?v x u" "queue_rep (qu u) []" "host_inv k u" "flushing (qu u)"
    "medium_free_since (qu u) = 0" "bins_upto (M + 2 * B) (cs u)" "send_settings u = send_settings ?v"
    using burst_access [OF v m(1), of E] by blast
  have "q_head (qu w) \<noteq> None" using pq.rep_empty [OF w(4)] by simp
  from round_of_access [OF w(2,3) this u(1,4,7) m(1)] obtain w1 d where w1: "queue_worker_step E w = Some w1" "host_inv k w1" "rn w1 = rn u"
    "fifo_writes (trace w1) = fifo_writes (trace u)" "qu w1 = (qu u)\<lparr>rssi_delay := d\<rparr>" "modem (sx w1) = modem (sx u)"
    "bins_upto (M + 2 * B) (cs w1)" by blast
  have air: "on_air w x w1" using u(2) w1(3,4) by (simp add: on_air_def)
  have q1: "queue_rep (qu w1) []" "flushing (qu w1)" "medium_free_since (qu w1) = 0"
    using u(3,5,6) by (simp_all add: w1(5) queue_rep_timers [OF u(3)])
  have "len_tx (rn w1) = 0" using air len(1) by (auto simp: on_air_def)
  from burst_done [OF w1(2) q1 this w1(7), of E] obtain w2 where w2: "rnode_tx_done E (queue_medium_state E CAUSE_TX_DONE w1) = Some w2"
    "after_burst k w2" "bins_upto (M + 2 * B) (cs w2)" "send_settings w2 = send_settings w1" by blast
  obtain w3 where w3: "worker_run E n w2 = Some w3" "after_burst k w3" "bins_upto (M + 2 * B) (cs w3)" "send_settings w3 = send_settings w2"
    using idle_rounds [OF w2(2,3) m(1), of E n] by blast
  have s: "send_settings w3 = send_settings w" using w3(4) w2(4) u(8) w1(3,6) by (simp add: send_settings_def)
  have may: "may_send B z y" if "send_settings z = send_settings w3" "bins_upto (M + 2 * B) (cs z)" for z
  proof -
    have "rn_mode (rn z) = rn_mode (rn w)" "air_limits (rn z) = (Fin 0, Fin 0)" "modem (sx z) = modem (sx w)"
      using that(1) s free(1) by (simp_all add: send_settings_def)
    moreover have "bins_room B (cs z)" using that(2) m(2) by (auto simp: bins_room_upto bins_upto_def list_all_iff)
    ultimately show ?thesis using w(8) len(2)
      by (simp add: may_send_def rn_mode_def air_limits_def rnode_check_airtime_lock_def f_eq_def)
  qed
  from flushed_packet [OF w3(2,3) m(2), of y E] may obtain w4 w5 where w4: "queue_push E y w3 = Some w4" "queue_rep (qu w4) [y]"
    "medium_free_since (qu w4) = 0" "queue_worker_step E w4 = Some w5" "on_air w4 y w5" "queue_rep (qu w5) []" by blast
  show ?thesis using w1(1) air q1(1,2) w2(1) w3(1) w4 by blast
qed

end
