(* ===== verification/ChannelFacts.thy ===== *)
theory ChannelFacts
  imports HostInv
begin

section \<open>What channel access does not do\<close>

text \<open>
  Two consequences of the code of \<^verbatim>\<open>src/csma.c\<close> and of the readings it gets: the recalibration of the noise
  floor never happens, and the report of the physical parameters is undefined for slow settings.
\<close>

subsection \<open>Recalibration\<close>

text \<open>The parts of a reading after the interference check leave its outcome alone.\<close>

definition calib :: "csma_st \<Rightarrow> bool \<times> bool" where
  "calib c = (interference_persists c, noise_floor_sampled c)"

lemma time_cs [simp]: "cs (snd (get_time E w)) = cs w" "cs (snd (current_airtime_bin E w)) = cs w"
  by (simp_all add: current_airtime_bin_def case_prod_unfold)

lemma calib_update_airtime: "csma_update_airtime E w = Some w' \<Longrightarrow> calib (cs w') = calib (cs w)"
proof -
  assume u: "csma_update_airtime E w = Some w'"
  have "calib (cs v') = calib (cs v)" if "rnode_send_stat_channel E ch v = Some v'" for ch v v'
    using that by (auto simp: rnode_send_stat_channel_def Let_def dest: kiss_encode_cs split: bind_splits)
  moreover have "calib (cs v') = calib (cs v)" if "update_csma_parameters E v = Some v'" for v v'
    using that by (auto simp: update_csma_parameters_def rnode_send_stat_csma_def Let_def calib_def dest!: kiss_encode_cs
        split: bind_splits if_splits)
  ultimately show ?thesis
    using u by (auto simp: csma_update_airtime_def upd_channel_def case_prod_unfold Let_def calib_def split: bind_splits)
qed

lemma calib_sample_util: "sample_util E w = Some w' \<Longrightarrow> calib (cs w') = calib (cs w)"
  by (auto simp: sample_util_def upd_channel_def case_prod_unfold Let_def split: bind_splits if_splits
      dest!: calib_update_airtime) (auto simp: calib_def)

lemma calib_track:
  "track_noise_floor c = Some c' \<Longrightarrow> interference_persists c' = interference_persists c \<and> (noise_floor_sampled c \<longrightarrow> noise_floor_sampled c')"
  by (auto simp: track_noise_floor_def Let_def split: bind_splits if_splits)

lemma check_persistence_high:
  assumes "rssi_ok (current_rssi (channel (cs w)))"
  shows "check_persistence E w = w\<lparr>cs := (cs w)\<lparr>interference_persists := False\<rparr>\<rparr>"
  using assms by (auto simp: check_persistence_def rssi_ok_def)

text \<open>
  The limit of -83 dB is below every value \<^verbatim>\<open>sx126x_current_rssi\<close> can return (-63 to 64), so interference is never
  found to persist, and a noise floor once sampled is never sampled anew.
\<close>

lemma never_recalibrates:
  assumes w: "host_inv k w" and u: "csma_update_current_rssi E w = Some w'"
    and rx: "sx126x_get_state w = SX126X_RX_CONTINUOUS \<or> sx126x_get_state w = SX126X_RX_SINGLE"
  shows "\<not> interference_persists (cs w') \<and> (noise_floor_sampled (cs w) \<longrightarrow> noise_floor_sampled (cs w'))"
proof -
  obtain c q r m e xs where d: "drv_ok (k, c, q, r, m, e) w" "csma_wf c" using w by (auto simp: host_inv_def)
  obtain rssi w1 where r: "sx126x_current_rssi E w = Some (rssi, w1)" "drv_ok (k, c, q, r, m, e) w1"
    using drv_current_rssi [OF d(1), of E] by (auto simp: givesr_def)
  have c: "cs w1 = cs w" using drv_cs_eq [OF d(1)] drv_cs_eq [OF r(2)] by simp
  have ok: "rssi_ok rssi"
    using r(1) rssi_of_byte_ok by (auto simp: sx126x_current_rssi_def Let_def split: bind_splits prod.splits)
  define w2 where "w2 = upd_channel (\<lambda>ch. ch\<lparr>current_rssi := rssi\<rparr>) w1"
  define w3 where "w3 = w2\<lparr>cs := detect_interference (cs w2)\<rparr>"
  have w3: "rssi_ok (current_rssi (channel (cs w3)))" "noise_floor_sampled (cs w3) = noise_floor_sampled (cs w)"
    using ok c by (simp_all add: w3_def w2_def upd_channel_def detect_interference_def)
  obtain c4 where c4: "track_noise_floor (cs (check_persistence E w3)) = Some c4" "sample_util E ((check_persistence E w3)\<lparr>cs := c4\<rparr>) = Some w'"
    using u rx r(1) by (auto simp: csma_update_current_rssi_def w2_def w3_def Let_def split: bind_splits)
  have "calib (cs w') = calib c4" using calib_sample_util [OF c4(2)] by simp
  with calib_track [OF c4(1)] w3 show ?thesis by (auto simp: check_persistence_high [OF w3(1)] calib_def)
qed

subsection \<open>The report of the physical parameters\<close>

lemma phyprm_sf12: "f_to_u16 (f_mul f32 (params_time 12 62500) (Fin 1000)) = None"
  by (simp add: params_time_def params_rate_def fl_def fround_eval f_to_u16_def rtrunc_def)

text \<open>With spreading factor 12 and 62.5 kHz the symbol time of 65.5 ms overflows its sixteen bits.\<close>

lemma phyprm_undefined:
  assumes "csma_update_radio_params 12 62500 w = Some w'"
  shows "ans_stat_phyprm E p w' = None"
proof -
  have "lora_symbol_time_ms (cs w') = params_time 12 62500"
    using assms by (auto simp: csma_update_radio_params_def int_shift_def Let_def params_time_def params_rate_def
        split: bind_splits prod.splits)
  then show ?thesis by (simp add: ans_stat_phyprm_def csma_get_phy_params_def phyprm_sf12)
qed

end
