(* ===== verification/EndToEnd.thy ===== *)
theory EndToEnd
  imports Listening ChannelFacts
begin

section \<open>From the host to the air and back\<close>

text \<open>
  What the components promise together: a data frame of the host ends in the queue, a stream of
  frames that do not depend on the radio is processed to its end, the worker puts a packet into the radio as one or two
  frames, a receiver makes the packet of them, and the contention timers refine their specification from the idle state. The
  last part has the concrete environments and states at which the properties are instantiated.
\<close>

subsection \<open>From the socket to the queue\<close>

lemma data_handler: "map_of (handlers E param n) CMD_DATA = Some (\<lambda>w. if n \<le> length param then queue_push E (take n param) w else None)"
  by (simp add: handlers_def)

lemma from_channel_data:
  assumes "take (Suc (length p)) buf = CMD_DATA # p"
  shows "rnode_from_channel E buf (Suc (length p)) w = queue_push E p w"
proof -
  obtain param where b: "buf = CMD_DATA # param" using assms by (cases buf) auto
  then have "take (length p) param = p" using assms by simp
  moreover from this have "length p \<le> length param" by (metis length_take min.cobounded1)
  ultimately show ?thesis by (simp add: b rnode_from_channel_def data_handler)
qed

lemma data_frame_queued:
  assumes "sys_inv w" "kiss_ready (kiss_in w)" "queue_rep (qu w) xs" "length p \<le> 1022"
  shows "\<exists>w'. kiss_input E (kiss_frame (CMD_DATA # p)) w = Some w' \<and> sys_inv w' \<and> kiss_ready (kiss_in w')
    \<and> queue_rep (qu w') (xs @ [p])"
proof -
  let ?k = "kiss_in w"
  obtain buf k' where k': "kiss_ready k'" "take (length (CMD_DATA # p)) buf = CMD_DATA # p"
    "\<And>w rest. kiss_decode (rnode_from_channel E) (kiss_frame (CMD_DATA # p) @ rest) (?k, w) =
       Option.bind (rnode_from_channel E buf (length (CMD_DATA # p)) w) (\<lambda>w'. kiss_decode (rnode_from_channel E) rest (k', w'))"
    using kiss_decode_frame [OF assms(2), of "CMD_DATA # p" "rnode_from_channel E"] assms(4) by auto
  obtain w1 where w1: "queue_push E p w = Some w1" "host_inv ?k w1" "queue_rep (qu w1) (xs @ [p])"
    using host_push [OF sys_inv_host [OF assms(1)] assms(3), of E p] by blast
  have "rnode_from_channel E buf (length (CMD_DATA # p)) w = Some w1"
    using from_channel_data [of p buf E w] k'(2) w1(1) by simp
  then have "kiss_input E (kiss_frame (CMD_DATA # p)) w = Some (w1\<lparr>kiss_in := k'\<rparr>)"
    using k'(3) [of "[]" w] by (simp add: kiss_input_def)
  moreover have "sys_inv (w1\<lparr>kiss_in := k'\<rparr>)"
    using host_inv_kiss [OF w1(2)] k'(1) by (simp add: sys_inv_def kiss_ready_def)
  ultimately show ?thesis using w1(3) k'(1) by auto
qed

text \<open>
  A payload whose command needs nothing of the state: all commands but those that set or report
  the modulation, start the radio or report the channel, and a frequency with its first byte below 128.
\<close>

definition plain_payload :: "u8 list \<Rightarrow> bool" where
  "plain_payload p \<longleftrightarrow> kiss_fits p
     \<and> hd p \<notin> {CMD_BANDWIDTH, CMD_SF, CMD_RADIO_STATE, CMD_RESET, CMD_STAT_CHTM, CMD_STAT_PHYPRM}
     \<and> (hd p = CMD_FREQUENCY \<longrightarrow> 2 \<le> length p \<and> p ! 1 < 0x80)"

lemma plain_payload_defined:
  assumes "plain_payload p" "length buf = MTU" "take (length p) buf = p"
  shows "cmd_defined (hd buf) (tl buf) w"
proof -
  have p: "0 < length p" using assms(1) by (simp add: plain_payload_def kiss_fits_def)
  then have h: "hd buf = hd p" using assms(3) by (metis hd_take)
  moreover have "tl buf ! 0 = p ! 1" if "2 \<le> length p"
  proof -
    have "p ! 1 = buf ! 1" using that nth_take [of 1 "length p" buf] assms(3) by simp
    then show ?thesis using assms(2) by (simp add: nth_tl)
  qed
  ultimately show ?thesis using assms(1) by (auto simp: plain_payload_def cmd_defined_def)
qed

lemma plain_fits: "plain_payload p \<Longrightarrow> kiss_fits p"
  by (simp add: plain_payload_def)

lemma plain_served:
  "plain_payload p \<Longrightarrow> length buf = MTU \<Longrightarrow> take (length p) buf = p \<Longrightarrow> host_inv k w \<Longrightarrow>
     cmd_allowed rn_wf (\<lambda>buf. True) (hd buf) (tl buf) (length p - 1) w \<and> cmd_defined (hd buf) (tl buf) w"
  using plain_payload_defined host_allowed by blast

lemma plain_input_defined:
  assumes "sys_inv w" "kiss_ready (kiss_in w)" "list_all plain_payload ps"
  shows "\<exists>w'. kiss_input E (concat (map kiss_frame ps)) w = Some w' \<and> sys_inv w' \<and> kiss_ready (kiss_in w')"
proof -
  have "\<exists>k' w'. kiss_decode (rnode_from_channel E) (concat (map kiss_frame ps)) (kiss_in w, w) = Some (k', w') \<and> host_inv (kiss_in w) w'
    \<and> on_stream plain_payload k' [] \<and> ([] = ([] :: u8 list) \<longrightarrow> kiss_ready k')"
    by (rule hc.stream_pieces [OF plain_fits plain_served assms(2,3) _ sys_inv_host [OF assms(1)]]) simp_all
  then obtain k' w' where d: "kiss_decode (rnode_from_channel E) (concat (map kiss_frame ps)) (kiss_in w, w) = Some (k', w')"
      "kiss_ready k'" "host_inv (kiss_in w) w'" by blast
  then have "kiss_input E (concat (map kiss_frame ps)) w = Some (w'\<lparr>kiss_in := k'\<rparr>)" by (simp add: kiss_input_def)
  then show ?thesis using host_inv_kiss [OF d(3), of k'] d(2) by (auto simp: sys_inv_def kiss_ready_def)
qed

text \<open>A stream of such frames, in one piece, is processed completely, in every state of the process.\<close>

theorem plain_stream_is_processed:
  assumes "sys_inv w" "kiss_ready (kiss_in w)" "list_all plain_payload ps"
  shows "\<exists>w'. kiss_input E (concat (map kiss_frame ps)) w = Some w' \<and> sys_inv w' \<and> kiss_ready (kiss_in w')"
  using assms by (rule plain_input_defined)

text \<open>The contention timers on a free medium, for one access and a given window.\<close>

theorem free_channel_is_used:
  assumes "medium_free_since q = 0" "cw_wait_start q = 0" "cw_wait_passed q = 0" "0 < d"
    and "sorted (map (unat \<circ> fst) ss)" "list_all (\<lambda>(t, free). 0 < t) ss"
    and "list_all snd ss" "ss \<noteq> []" "unat (fst (hd ss)) + unat d \<le> unat (fst (last ss))"
    and "unat (cw_target q) \<le> contention (unat d) (map (unat \<circ> fst) ss)"
  shows "lbt_run d ss q \<noteq> None"
proof -
  have rep: "lbt_rep (unat d) (unat (cw_target q)) 0 [] 0 q" using assms(1-3) by (simp add: lbt_rep_def after_difs_def contention_def)
  have "lbt_spec (unat d) (unat (cw_target q)) 0 [] ss \<noteq> None"
    by (rule lbt_spec_lets_go) (use assms(4-10) in \<open>simp_all add: hd_map word_less_nat_alt\<close>)
  then show ?thesis using lbt_refines [OF rep assms(4)] assms(5,6) by simp
qed

subsection \<open>From one node to another\<close>

lemma sent_frames_of_packet:
  assumes "host_inv k w" "\<not> promisc (rn w)" "modem_ok (modem (sx w))" "length buf \<le> 508"
  shows "\<exists>w' s. send_and_finish E buf w = Some w' \<and> s AND 0x0F = 0
    \<and> fifo_writes (trace w') = fifo_writes (trace w) @ map (Pair 0) (split_frames s buf)"
proof -
  obtain c q r m e xs where d: "drv_ok (k, c, q, r, m, e) w" "csma_wf c" "rn_wf r" using assms(1) by (auto simp: host_inv_def)
  obtain p f where e: "e = (p, f)" by force
  have "f = fifo_writes (trace w)" using d(1) by (simp add: e drv_ok_def rest_def txfifo_def del: drv_rn_eq)
  with send_and_finish_frames [OF d(1) [unfolded e] d(2,3), of buf E] d(1) assms(2-) drv_modem [OF d(1)] show ?thesis
    by auto
qed

lemma packet_over_the_air:
  assumes "host_inv k w" "\<not> promisc (rn w)" "modem_ok (modem (sx w))" "length buf \<le> 508"
    and "rn_wf (rn v)" "\<not> promisc (rn v)" "length (kiss_out v) = MTU" "rn_seq (rn v) = SEQ_UNSET"
  shows "\<exists>w' frames v'. send_and_finish E buf w = Some w' \<and> fifo_writes (trace w') = fifo_writes (trace w) @ map (Pair 0) frames
    \<and> receive E' frames v = Some v' \<and> delivered E' buf v v'"
proof -
  obtain w' s where s: "send_and_finish E buf w = Some w'" "s AND 0x0F = 0"
    "fifo_writes (trace w') = fifo_writes (trace w) @ map (Pair 0) (split_frames s buf)"
    using sent_frames_of_packet [OF assms(1-4)] by blast
  have "rn_seq (rn v) \<noteq> drop_bit 4 s" using assms(8) nibble_not_unset [of s] by auto
  with receive_split_frames [OF assms(5-7) s(2) assms(4), of E'] s(1,3) show ?thesis by blast
qed

subsection \<open>The contention timers from their idle state\<close>

lemma lbt_fresh:
  assumes "medium_free_since q = 0" "cw_wait_start q = 0" "cw_wait_passed q = 0" "0 < d"
    and "sorted (map (unat \<circ> fst) ss)" "list_all (\<lambda>(t, free). 0 < t) ss"
  shows "lbt_run d ss q = lbt_spec (unat d) (unat (cw_target q)) 0 [] ss"
proof (rule lbt_refines)
  show "lbt_rep (unat d) (unat (cw_target q)) 0 [] 0 q" using assms(1-3) by (simp add: lbt_rep_def after_difs_def contention_def)
qed (use assms(4-6) in simp_all)

subsection \<open>A concrete environment and state\<close>

definition demo_env :: env where
  "demo_env = \<lparr>clock_sec = (\<lambda>n. 1000 + of_nat n), clock_nsec = (\<lambda>n. 0), random_src = (\<lambda>n. 0x1230), busy_line = (\<lambda>n. 0),
     spi_ret = (\<lambda>n. 0), spi_miso = (\<lambda>n i. 0x22), stack_junk = (\<lambda>n i. 0), malloc_junk = (\<lambda>n. None),
     send_ret = (\<lambda>n. Sent 0), getrandom_ret = (\<lambda>n i. 0), machine_id_file = Some (concat (map hex2 (replicate 16 0xAB)))\<rparr>"

text \<open>A radio that answers the commands of a start; one that reports a received packet of no bytes.\<close>

definition demo_answering :: env where
  "demo_answering = demo_env\<lparr>spi_ret := (\<lambda>n. 2)\<rparr>"

definition demo_empty :: env where
  "demo_empty = demo_env\<lparr>spi_miso := (\<lambda>n i. if i = 2 then 0x02 else 0)\<rparr>"

lemma rx_buffer_length: "0 \<le> spi_ret E (reads w) \<Longrightarrow> fst (get_rx_buffer_status E w) = spi_miso E (reads w) 1"
  by (simp add: get_rx_buffer_status_def write_read_bytes_def Let_def)

lemma packet_length_reported:
  assumes "\<And>i. 0 \<le> spi_ret E i \<and> spi_miso E i 1 \<noteq> 0"
  shows "packet_length E b ok w \<noteq> Some 0"
proof -
  have "fst (get_rx_buffer_status E v) \<noteq> 0" for v using rx_buffer_length [of E v] assms [of "reads v"] by simp
  then have "n \<noteq> Some 0" if "irq_read m E ok w = Some ((st, k, n), v)" for m st k n v
    using that by (auto simp: irq_read_def Let_def case_prod_unfold split: bind_splits if_splits)
  then show ?thesis by (auto simp: packet_length_def split: bind_splits)
qed

lemma demo_lengths:
  "packet_length demo_env b ok w \<noteq> Some 0" "packet_length demo_answering b ok w \<noteq> Some 0"
  by (rule packet_length_reported, simp add: demo_answering_def demo_env_def)+

lemma demo_empty_length: "b = register_callbacks demo_empty b \<Longrightarrow> packet_length demo_empty b True w = Some 0"
proof -
  assume b: "b = register_callbacks demo_empty b"
  have "fst (get_irq_status demo_empty w) = 0x0002"
    by (simp add: get_irq_status_def write_read_bytes_def demo_empty_def demo_env_def of_be16_def Let_def)
  moreover have "fst (get_rx_buffer_status demo_empty v) = 0" for v
    using rx_buffer_length [of demo_empty v] by (simp add: demo_empty_def demo_env_def)
  ultimately show ?thesis
    by (auto simp: packet_length_def irq_read_def registered_callbacks [OF b] medium_call_def Let_def case_prod_unfold split: bind_splits if_splits)
qed

definition demo_world :: world where
  "demo_world = world_init\<lparr>sx := sx_init\<lparr>tx_en_line := True, rx_en_line := True, save_sf := 7, save_cr := 5, save_bw := 125000\<rparr>\<rparr>"

lemma demo_drv: "drv_ok (kiss_init, csma_init, queue_init_st, rnode_init, (7, 5, 125000, 12), 0, []) demo_world"
  by (simp add: demo_world_def drv_ok_def lines_ok_def rest_def txfifo_def world_init_def levels_def levels0_def modem_def
      sx_init_def del: drv_rn_eq)

lemma demo_inv: "host_inv kiss_init demo_world"
  by (rule host_invI [OF demo_drv, of "[]"]) simp_all

lemma demo_fields [simp]:
  "kiss_in demo_world = kiss_init" "cs demo_world = csma_init" "qu demo_world = queue_init_st" "rn demo_world = rnode_init"
  "modem (sx demo_world) = (7, 5, 125000, 12)" "trace demo_world = []" "length (kiss_out demo_world) = MTU"
  by (simp_all add: demo_world_def world_init_def modem_def sx_init_def)

lemma demo_sys_inv: "sys_inv demo_world"
  using demo_inv by (simp add: sys_inv_def)

lemma demo_modem_ok: "modem_ok (7, 5, 125000, p)"
  by (simp add: modem_ok_def) (rule image_eqI [of _ _ BW_125000], simp_all)

definition demo_config :: config_t where
  "demo_config = \<lparr>cfg_spi = ''/dev/spidev0.0'', cfg_cs = \<lparr>port = 0, pin = 21\<rparr>, cfg_rst = \<lparr>port = 0, pin = 18\<rparr>,
     cfg_busy = \<lparr>port = 0, pin = 20\<rparr>, cfg_dio1 = \<lparr>port = 0, pin = 16\<rparr>, cfg_rx_en = \<lparr>port = 0, pin = 12\<rparr>,
     cfg_tx_en = \<lparr>port = 0, pin = 13\<rparr>, cfg_tcp_port = 7633\<rparr>"

definition demo_boot :: boot_env where
  "demo_boot = \<lparr>argv1 = ''rnode.yaml'', cyaml_load_file = (\<lambda>f l s. Inr demo_config), spi_result = \<lparr>open_ok = True, mode_ok = True, bits_ok = True, speed_ok = True\<rparr>,
     gpio_result = (\<lambda>l. \<lparr>chip_ok = True, settings_ok = True, config_ok = True, request_ok = True, line_ok = True\<rparr>),
     socket_ret = 3, bind_ret = (\<lambda>p. 0), listen_ret = 0\<rparr>"

lemma demo_start: "\<exists>b w. main_start E demo_boot 2 = Inr (b, w)"
proof -
  have g: "gpio_ok \<lparr>chip_ok = True, settings_ok = True, config_ok = True, request_ok = True, line_ok = True\<rparr>" by (simp add: gpio_ok_def)
  have "\<exists>b. init_all (main_lines demo_boot demo_config) boot_init = (True, b)"
    by (simp add: main_lines_def demo_boot_def init_all_Cons line_defs sx126x_init_spi_def request_line_calls [OF g] Let_def)
  then show ?thesis
    by (auto simp: main_start_def config_load_def demo_boot_def tcp_init_def Let_def)
qed


lemma demo_begin: "\<exists>w1. sx126x_begin demo_env demo_world = Some (False, w1)"
  by (simp add: sx126x_begin_def sx126x_begin_by_def Let_def get_busy_def demo_env_def set_standby_def write_bytes_def)

text \<open>The radio in continuous reception.\<close>

definition demo_receiving :: world where
  "demo_receiving = set_radio_state SX126X_RX_CONTINUOUS demo_world"

lemma demo_receiving_inv: "host_inv kiss_init demo_receiving"
  by (rule host_invI [OF _ csma_wf_init queue_rep_init rn_wf_init, of kiss_init "(7, 5, 125000, 12)" "(0, [])"])
    (simp add: demo_receiving_def set_radio_state_def demo_world_def drv_ok_def lines_ok_def rest_def txfifo_def world_init_def
      levels_def levels0_def modem_def sx_init_def del: drv_rn_eq)

lemma demo_bins_low: "cs w = csma_init \<Longrightarrow> bins_low (cs w)"
  by (simp add: bins_low_def csma_init_def list_all_iff)

lemma demo_rssi_update: "host_inv k w \<Longrightarrow> cs w = csma_init \<Longrightarrow> \<exists>w'. csma_update_current_rssi E w = Some w'"
  using csma_update_current_rssi_ok [OF host_inv_chan_ok, of k w E] demo_bins_low [of w] by (auto simp: outcome_def)

text \<open>The start with a radio that answers its commands, and a client that comes while a frame is unfinished.\<close>

lemma demo_answering_idle: "radio_idle demo_answering"
  by (simp add: radio_idle_def demo_answering_def demo_env_def)

lemma demo_answering_begin: "\<exists>w1. sx126x_begin demo_answering w = Some (True, w1)"
  by (simp add: sx126x_begin_def sx126x_begin_by_def Let_def get_busy_def set_standby_def write_bytes_def sx126x_get_status_mode_def
    read_bytes_def set_dio3_txco_ctrl_by_def calibrate_def begin_tail_by_def set_packet_type_def set_irq_mask_by_def
    wait_idle [OF demo_answering_idle]) (simp add: demo_answering_def demo_env_def)

definition demo_client :: net where
  "demo_client = \<lparr>select_ret = 1, select_eintr = False, ready = [0], accept_ret = 5, read_ret = Read_again\<rparr>"

definition demo_stale :: world where
  "demo_stale = demo_world\<lparr>kiss_in := kiss_init\<lparr>kiss_sync := True, kiss_len_in := 1\<rparr>\<rparr>"

lemma demo_stale_inv: "host_inv (kiss_init\<lparr>kiss_sync := True, kiss_len_in := 1\<rparr>) demo_stale"
  unfolding demo_stale_def by (rule host_inv_kiss [OF demo_inv])

text \<open>A packet waits on a free channel; the clock jumps ten seconds between two readings, and the window drawn is four slots.\<close>

definition demo_slow :: env where
  "demo_slow = demo_env\<lparr>clock_sec := (\<lambda>n. 1000 + 10 * of_nat n), random_src := (\<lambda>n. 0x1234)\<rparr>"

definition demo_waiting :: world where
  "demo_waiting = demo_world\<lparr>rn := rnode_init\<lparr>current_sf := 7\<rparr>, qu := queue_init_st\<lparr>q_heap := [0 \<mapsto> \<lparr>item_data = [1, 2, 3], item_next = None\<rparr>],
     q_brk := 1, q_head := Some 0, q_tail := Some 0, queue_depth := 1, tx_enable := True\<rparr>\<rparr>"

text \<open>After one round, in which the window is drawn, and after two, the second of which finds the guard time over.\<close>

definition demo_waited :: world where
  "demo_waited = demo_waiting\<lparr>reads := 2, qu := (qu demo_waiting)\<lparr>cw_target := 96, cw_picked := True, medium_free_since := 1000000,
     rssi_delay := 1000025\<rparr>\<rparr>"

definition demo_counting :: world where
  "demo_counting = demo_waited\<lparr>reads := 3, qu := (qu demo_waited)\<lparr>cw_wait_start := 1020000, rssi_delay := 1020025\<rparr>\<rparr>"

lemma demo_calm_of:
  assumes "host_inv kiss_init w" "rn w = rnode_init\<lparr>current_sf := 7\<rparr>" "cs w = csma_init" "modem (sx w) = (7, 5, 125000, 12)"
    "queue_rep (qu w) [[1, 2, 3]]"
  shows "calm True kiss_init w"
proof -
  have "channel_reportable (channel csma_init)" by (simp add: channel_reportable_def csma_init_def stat_percent_defined)
  moreover have "rn_wf (rnode_init\<lparr>current_sf := 7\<rparr>)" by simp
  ultimately show ?thesis
    using assms demo_modem_ok by (auto simp: calm_def rn_calm_def sendable_def rnode_init_def intro!: exI [of _ "[[1, 2, 3]]"])
qed

lemma demo_waiting_queue: "queue_rep (qu demo_waiting) [[1, 2, 3]]"
  by (auto simp: demo_waiting_def queue_rep_def queue_at_def intro!: exI [of _ "[0]"])

lemma demo_waiting_inv: "host_inv kiss_init demo_waiting"
proof -
  have "host_inv kiss_init (upd_rn (\<lambda>r. r\<lparr>current_sf := 7\<rparr>) demo_world)" by (rule host_inv_upd_rn [OF demo_inv]) simp
  then have "host_inv kiss_init ((upd_rn (\<lambda>r. r\<lparr>current_sf := 7\<rparr>) demo_world)\<lparr>qu := qu demo_waiting\<rparr>)"
    by (rule host_inv_qu) (use demo_waiting_queue in blast)
  moreover have "(upd_rn (\<lambda>r. r\<lparr>current_sf := 7\<rparr>) demo_world)\<lparr>qu := qu demo_waiting\<rparr> = demo_waiting"
    by (simp add: demo_waiting_def upd_rn_def)
  ultimately show ?thesis by simp
qed

lemma demo_waited_queue: "queue_rep (qu demo_waited) [[1, 2, 3]]" "queue_rep (qu demo_counting) [[1, 2, 3]]"
proof -
  show q: "queue_rep (qu demo_waited) [[1, 2, 3]]"
    unfolding demo_waited_def by (rule queue_rep_timers [OF demo_waiting_queue]) simp_all
  show "queue_rep (qu demo_counting) [[1, 2, 3]]"
    unfolding demo_counting_def by (rule queue_rep_timers [OF q]) simp_all
qed

lemma demo_waited_inv: "host_inv kiss_init demo_waited" "host_inv kiss_init demo_counting"
proof -
  have "host_inv kiss_init ((next_read (next_read demo_waiting))\<lparr>qu := qu demo_waited\<rparr>)"
    by (rule host_inv_qu) (use demo_waiting_inv demo_waited_queue in \<open>simp, blast\<close>)
  moreover have "(next_read (next_read demo_waiting))\<lparr>qu := qu demo_waited\<rparr> = demo_waited"
    by (simp add: demo_waited_def next_read_def demo_waiting_def demo_world_def world_init_def)
  ultimately show w: "host_inv kiss_init demo_waited" by simp
  have "host_inv kiss_init ((next_read demo_waited)\<lparr>qu := qu demo_counting\<rparr>)"
    by (rule host_inv_qu) (use w demo_waited_queue in \<open>simp, blast\<close>)
  moreover have "(next_read demo_waited)\<lparr>qu := qu demo_counting\<rparr> = demo_counting"
    by (simp add: demo_counting_def demo_waited_def next_read_def)
  ultimately show "host_inv kiss_init demo_counting" by simp
qed

lemma demo_calms: "calm True kiss_init demo_waiting" "calm True kiss_init demo_waited"
  by (rule demo_calm_of, use demo_waiting_inv demo_waited_inv demo_waiting_queue demo_waited_queue in
      \<open>simp_all add: demo_waiting_def demo_waited_def\<close>)+

lemmas demo_states = demo_counting_def demo_waited_def demo_waiting_def demo_world_def world_init_def sx_init_def queue_init_st_def
  csma_init_def

lemmas demo_worker = queue_worker_step_def worker_access_def pick_cw_def csma_get_cw_def random_long_def get_time_def demo_slow_def
  demo_env_def sx126x_get_state_def difs_cw_step_def csma_medium_free_def csma_get_difs_ms_def csma_update_current_rssi_def upd_qu_def
  next_read_def cdiv_def

lemma demo_round: "queue_worker_step demo_slow demo_waiting = Some demo_waited" "queue_worker_step demo_slow demo_waited = Some demo_counting"
  by (simp_all add: demo_worker demo_states Let_def)

lemma demo_window: "window demo_slow demo_waiting = 96"
  by (simp add: window_def demo_worker demo_states)

lemma demo_quiet: "cs w = csma_init \<Longrightarrow> modem (sx w) = (7, 5, 125000, 12) \<Longrightarrow> rn w = rnode_init\<lparr>current_sf := 7\<rparr> \<Longrightarrow>
    radio_state (sx w) = SX126X_IDLE \<Longrightarrow> quiet_round 1276 w"
  using airtime_sf7 by (simp add: quiet_round_def csma_medium_free_def sx126x_get_state_def rnode_check_airtime_lock_def paced_def
      bins_room_def) (simp add: csma_init_def rnode_init_def list_all_iff f_eq_def)

lemma demo_quiets: "quiet_round 1276 demo_waiting" "quiet_round 1276 demo_waited" "quiet_round 1276 demo_counting"
  by (rule demo_quiet, simp_all add: demo_counting_def demo_waiting_def demo_waited_def demo_world_def sx_init_def modem_def world_init_def)+

lemma demo_times: "worker_time demo_slow demo_waiting = 1000000" "worker_time demo_slow demo_waited = 1020000"
    "worker_time demo_slow demo_counting = 1030000"
  by (simp_all add: worker_time_def get_time_def demo_slow_def demo_env_def demo_states)

lemma demo_rounds:
  "worker_run demo_slow 0 demo_waiting = Some demo_waiting" "worker_run demo_slow (Suc 0) demo_waiting = Some demo_waited"
  "worker_run demo_slow (Suc (Suc 0)) demo_waiting = Some demo_counting"
  by (simp_all add: demo_round)

text \<open>The third round lets the packet go; with the modulation slow enough, it begins a burst.\<close>

definition demo_bursting :: world where
  "demo_bursting = demo_counting\<lparr>cs := csma_init\<lparr>lora_should_flush := True\<rparr>\<rparr>"

lemma demo_bursting_facts:
  "host_inv kiss_init demo_bursting" "sx126x_get_state demo_bursting \<noteq> SX126X_TX" "tx_enable (qu demo_bursting)"
  "queue_rep (qu demo_bursting) [[1, 2, 3]]" "\<not> flushing (qu demo_bursting)" "talks (fst (get_time demo_slow demo_bursting)) demo_bursting"
  "csma_should_flush demo_bursting" "may_send 1276 demo_bursting [1, 2, 3]" "air_limits (rn demo_bursting) = (Fin 0, Fin 0)"
  "bins_upto 0 (cs demo_bursting)"
proof -
  have "csma_wf (csma_init\<lparr>lora_should_flush := True\<rparr>)" using csma_wf_init by (simp add: csma_wf_def)
  then show "host_inv kiss_init demo_bursting" unfolding demo_bursting_def by (rule host_inv_cs [OF demo_waited_inv(2)])
  show "queue_rep (qu demo_bursting) [[1, 2, 3]]" using demo_waited_queue by (simp add: demo_bursting_def)
  show "talks (fst (get_time demo_slow demo_bursting)) demo_bursting"
    by (simp add: talks_def demo_bursting_def demo_worker demo_states Let_def)
  have c: "rn demo_bursting = rnode_init\<lparr>current_sf := 7\<rparr>" "modem (sx demo_bursting) = (7, 5, 125000, 12)"
    by (simp_all add: demo_bursting_def demo_counting_def demo_waited_def demo_waiting_def)
  have "airtime_bins (cs demo_bursting) = replicate 480 0" by (simp add: demo_bursting_def csma_init_def)
  then have "bins_room 1276 (cs demo_bursting)" by (simp add: bins_room_def list_all_iff)
  then show "may_send 1276 demo_bursting [1, 2, 3]"
    using airtime_sf7 demo_modem_ok by (simp add: may_send_def c rnode_check_airtime_lock_def) (simp add: rnode_init_def f_eq_def)
qed (simp_all add: demo_bursting_def demo_states sx126x_get_state_def csma_should_flush_def air_limits_def rnode_init_def
    bins_upto_def list_all_iff)

text \<open>A daemon that a polite host has configured, on a radio that answers.\<close>

lemma demo_configured:
  "\<exists>b w0 w. main_start demo_answering demo_boot 2 = Inr (b, w0) \<and> calm True (kiss_in w) w \<and> kiss_ready (kiss_in w)"
proof -
  obtain b w0 where m: "main_start demo_answering demo_boot 2 = Inr (b, w0)" using demo_start by blast
  obtain w1 where w1: "\<forall>v. sx126x_begin demo_answering w1 = Some (True, v) \<longrightarrow>
      (\<exists>w2. kiss_input demo_answering (kiss_frame [CMD_RADIO_STATE, 0x01]) w1 = Some w2 \<and> calm True (kiss_in w2) w2
        \<and> kiss_ready (kiss_in w2) \<and> radio_online (rn w2))"
    using configured [OF m, of "[]" 7] by auto
  obtain v where "sx126x_begin demo_answering w1 = Some (True, v)" using demo_answering_begin by blast
  with w1 m show ?thesis by blast
qed

subsection \<open>Single operations at these states\<close>

text \<open>The radio's reports steer the queue: a preamble or a valid header sets carrier detect and stops
  transmission, every other cause clears both; the packets queued and everything else of the process stay as they are.\<close>

lemma medium_reports_gate_transmission:
  assumes "host_inv k w"
  shows "host_inv k (queue_medium_state E c w)
    \<and> dcd (cs (queue_medium_state E c w)) = (c = CAUSE_PREAMBLE_DETECTED \<or> c = CAUSE_HEADER_VALID)
    \<and> tx_enable (qu (queue_medium_state E c w)) = (c \<noteq> CAUSE_PREAMBLE_DETECTED \<and> c \<noteq> CAUSE_HEADER_VALID)
    \<and> q_head (qu (queue_medium_state E c w)) = q_head (qu w) \<and> q_heap (qu (queue_medium_state E c w)) = q_heap (qu w)"
  by (intro conjI host_inv_medium_state assms) (cases c; simp add: queue_medium_state_def get_time_def csma_set_dcd_def Let_def)+

lemma medium_reports_gate_transmission_instance:
  "dcd (cs (queue_medium_state demo_env CAUSE_PREAMBLE_DETECTED demo_world))
     \<and> \<not> tx_enable (qu (queue_medium_state demo_env CAUSE_PREAMBLE_DETECTED demo_world))"
  using medium_reports_gate_transmission [OF demo_inv, of demo_env CAUSE_PREAMBLE_DETECTED] by simp

text \<open>An escape byte before a delimiter stays pending: the first byte of the next frame is then decoded as
  if it were escaped.\<close>

lemma kiss_escape_survives_delimiter:
  assumes "kiss_wf k" "kiss_sync k" "kiss_len_in k = 0"
  shows "kiss_decode cb ([FESC, FEND, TFEND] @ bytes) (k, w) =
      kiss_decode cb bytes (k\<lparr>kiss_buf_in := (kiss_buf_in k)[0 := FEND], kiss_len_in := 1, kiss_escape := False\<rparr>, w)"
  using assms by (cases k) (auto simp: store_at_def kiss_wf_def kiss_unescape_def)

lemma kiss_escape_survives_delimiter_instance:
  "kiss_decode kiss_collect [FESC, FEND, TFEND] (kiss_init\<lparr>kiss_sync := True\<rparr>, []) =
     Some (kiss_init\<lparr>kiss_sync := True, kiss_buf_in := (kiss_buf_in kiss_init)[0 := FEND], kiss_len_in := 1\<rparr>, [])"
  using kiss_escape_survives_delimiter [of "kiss_init\<lparr>kiss_sync := True\<rparr>" kiss_collect "[]" "[]"]
  by (simp add: kiss_init_def kiss_wf_def)

text \<open>The parameters that depend on the modulation: nothing changes for spreading factor 0; from 31 on the shift is undefined;
  in between the update succeeds, keeps the invariant, and gives slots of 6 to 100 ms, a guard time of two slots
  and at least 18 preamble symbols.\<close>

lemma radio_params_update:
  assumes "csma_wf (cs w)"
  shows "(case unat sf of 0 \<Rightarrow> csma_update_radio_params sf (bw_value b) w = Some w
    | Suc n \<Rightarrow> if 30 < unat sf then csma_update_radio_params sf (bw_value b) w = None
      else \<exists>c. csma_update_radio_params sf (bw_value b) w = Some (w\<lparr>cs := c\<rparr>) \<and> csma_wf c \<and> 6 \<le> csma_slot_ms c
        \<and> csma_slot_ms c \<le> 100 \<and> difs_ms c = 2 * csma_slot_ms c \<and> 18 \<le> lora_preamble_symbols c)"
proof (cases "sf = 0")
  case True
  then show ?thesis by (simp add: csma_update_radio_params_cases(1))
next
  case False
  then obtain n where "unat sf = Suc n" by (metis not0_implies_Suc unat_eq_zero)
  then show ?thesis
    using False assms csma_update_radio_params_cases(2) [of sf b w] csma_update_radio_params_cases(3) [of sf b w]
    by (cases "30 < unat sf") auto
qed

lemma radio_params_update_instance:
  "\<exists>c. csma_update_radio_params 7 125000 demo_world = Some (demo_world\<lparr>cs := c\<rparr>) \<and> difs_ms c = 2 * csma_slot_ms c"
  using radio_params_update [of demo_world 7 BW_125000] by auto

end
