(* ===== verification/Schedules.thy ===== *)
theory Schedules
  imports Prelude
begin

section \<open>Threads under a schedule\<close>

text \<open>
  The threads of the daemon interleaved by a schedule: a list of turns, each of which may be undefined. Two interfaces: \<open>turns\<close>,
  an invariant that every turn keeps, so that every schedule is defined and keeps it; and \<open>alone\<close>, one thread
  whose turns bring it nearer to a goal, so that it gets there when it is left alone. A thread of a schedule that makes progress is
  both (\<open>progressing\<close>).
\<close>

fun run_turns :: "('t \<Rightarrow> 's \<Rightarrow> 's option) \<Rightarrow> 't list \<Rightarrow> 's \<Rightarrow> 's option" where
  "run_turns turn [] s = Some s"
| "run_turns turn (t # ts) s = do { s \<leftarrow> turn t s; run_turns turn ts s }"

lemma run_turns_app: "run_turns turn (ts @ us) s = Option.bind (run_turns turn ts s) (run_turns turn us)"
  by (induction ts arbitrary: s) (auto split: bind_splits)

locale turns =
  fixes turn :: "'t \<Rightarrow> 's \<Rightarrow> 's option"
    and ok :: "'s \<Rightarrow> bool"
  assumes turn_ok: "ok s \<Longrightarrow> \<exists>s'. turn t s = Some s' \<and> ok s'"
begin

lemma run_ok: "ok s \<Longrightarrow> \<exists>s'. run_turns turn ts s = Some s' \<and> ok s'"
proof (induction ts arbitrary: s)
  case (Cons t ts)
  obtain s' where "turn t s = Some s'" "ok s'" using turn_ok [OF Cons.prems] by blast
  with Cons.IH show ?case by simp
qed simp

lemma run_keeps: "ok s \<Longrightarrow> run_turns turn ts s = Some s' \<Longrightarrow> ok s'"
  using run_ok [of s ts] by simp

end

locale alone =
  fixes step :: "'s \<Rightarrow> 's option"
    and ok :: "'s \<Rightarrow> bool"
    and goal :: "'s \<Rightarrow> bool"
    and rank :: "'s \<Rightarrow> nat"
  assumes step_nearer: "ok s \<Longrightarrow> \<not> goal s \<Longrightarrow> \<exists>s'. step s = Some s' \<and> ok s' \<and> rank s' < rank s"
begin

lemma gets_there:
  "ok s \<Longrightarrow> \<exists>n\<le>rank s. \<exists>s'. run_turns (\<lambda>u. step) (replicate n ()) s = Some s' \<and> ok s' \<and> goal s'"
proof (induction "rank s" arbitrary: s rule: less_induct)
  case less
  show ?case
  proof (cases "goal s")
    case True
    then show ?thesis using less.prems by (intro exI [of _ 0]) simp
  next
    case False
    then obtain s1 where s1: "step s = Some s1" "ok s1" "rank s1 < rank s" using step_nearer [OF less.prems] by blast
    obtain n s' where "n \<le> rank s1" "run_turns (\<lambda>u. step) (replicate n ()) s1 = Some s'" "ok s'" "goal s'"
      using less.hyps [OF s1(3,2)] by blast
    with s1 show ?thesis by (intro exI [of _ "Suc n"]) auto
  qed
qed

end

lemma run_turns_one: "run_turns (\<lambda>u. turn t) (replicate n ()) s = run_turns turn (replicate n t) s"
  by (induction n arbitrary: s) (auto split: bind_split)

locale progressing = turns +
  fixes t0 :: 't and goal :: "'s \<Rightarrow> bool" and rank :: "'s \<Rightarrow> nat"
  assumes nearer: "ok s \<Longrightarrow> \<not> goal s \<Longrightarrow> turn t0 s = Some s' \<Longrightarrow> rank s' < rank s"

sublocale progressing \<subseteq> alone "turn t0" ok goal rank
proof
  fix s
  assume "ok s" "\<not> goal s"
  then show "\<exists>s'. turn t0 s = Some s' \<and> ok s' \<and> rank s' < rank s" using turn_ok [of s t0] nearer [of s] by blast
qed

context progressing
begin

lemma left_alone: "ok s \<Longrightarrow> \<exists>n\<le>rank s. \<exists>s'. run_turns turn (replicate n t0) s = Some s' \<and> ok s' \<and> goal s'"
  using gets_there [of s] by (simp add: run_turns_one)

end

end
