(* ===== verification/QueueThreads.thy ===== *)
theory QueueThreads
  imports QueueWorker Schedules
begin

section \<open>The transmit queue under two threads\<close>

text \<open>
  \<^verbatim>\<open>queue_push\<close> runs in the socket thread and \<^verbatim>\<open>send_packet\<close> in the worker of \<^verbatim>\<open>src/queue.c\<close>. Here they are not
  taken as atomic: a turn of a thread is one access to the shared list, one operation of the mutex, or one call, and a
  schedule says in which order the two threads take their turns. \<^verbatim>\<open>send_packet\<close> looks at \<^verbatim>\<open>head\<close> without the
  lock, and gives the lock back while it transmits, with a pointer to the oldest item in its hand. For every schedule no null, freed or
  uninitialised pointer is followed, and the packets that go out are the packets that came in, in order.
  The memory is taken as sequentially consistent.
\<close>

subsection \<open>The code\<close>

datatype thread = Worker | Pusher

text \<open>Where \<^verbatim>\<open>send_packet\<close> stands: before the operation the constructor names, with its local variables.\<close>

datatype worker_pc = W_idle | W_lock1 | W_read | W_unlock1 "nat option" | W_check "nat option" | W_air "nat option"
  | W_lock2 "nat option" | W_unlink "nat option" | W_unlink_last "nat option" | W_free "nat option" | W_count
  | W_unlock2 u16 | W_report u16

text \<open>Where \<^verbatim>\<open>queue_push\<close> stands, with its item and the packet it was called with.\<close>

datatype push_pc = P_idle | P_lock nat "u8 list" | P_link nat "u8 list" | P_head nat "u8 list"
  | P_next nat "u8 list" | P_tail nat "u8 list" | P_count | P_unlock u16 | P_report u16

text \<open>
  The static variables of \<^verbatim>\<open>src/queue.c\<close>, the owner of \<^verbatim>\<open>mux\<close>, the positions of the two threads, and three records of what
  has happened: the packets linked into the list, those handed to \<^verbatim>\<open>rnode_to_air\<close>, and the depths reported to the host.
\<close>

record queue_threads =
  shared :: queue_st
  mux :: "thread option"
  worker :: worker_pc
  pusher :: push_pc
  linked :: "u8 list list"
  aired :: "u8 list list"
  depths :: "u16 list"

definition threads_init :: queue_threads where
  "threads_init = \<lparr>shared = queue_init_st, mux = None, worker = W_idle, pusher = P_idle, linked = [], aired = [],
     depths = []\<rparr>"

text \<open>\<^verbatim>\<open>send_packet\<close>; \<open>locked\<close> is the answer of \<^verbatim>\<open>rnode_check_airtime_lock\<close>. A thread that waits for the mutex
  stays where it is.\<close>

definition worker_turn :: "bool \<Rightarrow> queue_threads \<Rightarrow> queue_threads option" where
  "worker_turn locked s = (let q = shared s in case worker s of
     W_idle \<Rightarrow> Some (if q_head q \<noteq> None then s\<lparr>worker := W_lock1\<rparr> else s)
   | W_lock1 \<Rightarrow> Some (if mux s = None then s\<lparr>mux := Some Worker, worker := W_read\<rparr> else s)
   | W_read \<Rightarrow> Some (s\<lparr>worker := W_unlock1 (q_head q)\<rparr>)
   | W_unlock1 item \<Rightarrow> Some (s\<lparr>mux := None, worker := W_check item\<rparr>)
   | W_check item \<Rightarrow> Some (s\<lparr>worker := if locked then W_idle else W_air item\<rparr>)
   | W_air item \<Rightarrow> do {
       it \<leftarrow> deref q item;
       Some (s\<lparr>aired := aired s @ [item_data it], worker := W_lock2 item\<rparr>) }
   | W_lock2 item \<Rightarrow> Some (if mux s = None then s\<lparr>mux := Some Worker, worker := W_unlink item\<rparr> else s)
   | W_unlink item \<Rightarrow>
       if q_head q = q_tail q then Some (s\<lparr>shared := q\<lparr>q_tail := None\<rparr>, worker := W_unlink_last item\<rparr>)
       else do {
         it \<leftarrow> deref q (q_head q);
         Some (s\<lparr>shared := q\<lparr>q_head := item_next it\<rparr>, worker := W_free item\<rparr>) }
   | W_unlink_last item \<Rightarrow> Some (s\<lparr>shared := q\<lparr>q_head := None\<rparr>, worker := W_free item\<rparr>)
   | W_free item \<Rightarrow> do {
       p \<leftarrow> item;
       it \<leftarrow> deref q item;
       Some (s\<lparr>shared := q\<lparr>q_heap := (q_heap q)(p := None)\<rparr>, worker := W_count\<rparr>) }
   | W_count \<Rightarrow> Some (s\<lparr>shared := q\<lparr>queue_depth := queue_depth q - 1\<rparr>, worker := W_unlock2 (queue_depth q - 1)\<rparr>)
   | W_unlock2 depth \<Rightarrow> Some (s\<lparr>mux := None, worker := W_report depth\<rparr>)
   | W_report depth \<Rightarrow> Some (s\<lparr>depths := depths s @ [depth], worker := W_idle\<rparr>))"

text \<open>\<^verbatim>\<open>queue_push\<close>; \<open>buf\<close> is the packet of the next call, \<open>junk\<close> what \<^verbatim>\<open>malloc\<close> leaves in \<^verbatim>\<open>next\<close>.\<close>

definition pusher_turn :: "nat option \<Rightarrow> u8 list \<Rightarrow> queue_threads \<Rightarrow> queue_threads option" where
  "pusher_turn junk buf s = (let q = shared s in case pusher s of
     P_idle \<Rightarrow> (let item = q_brk q in
       Some (s\<lparr>shared := q\<lparr>q_heap := (q_heap q)(item \<mapsto> \<lparr>item_data = buf, item_next = junk\<rparr>), q_brk := item + 1\<rparr>,
               pusher := P_lock item buf\<rparr>))
   | P_lock item b \<Rightarrow> Some (if mux s = None then s\<lparr>mux := Some Pusher, pusher := P_link item b\<rparr> else s)
   | P_link item b \<Rightarrow>
       Some (if q_head q = None \<and> q_tail q = None
             then s\<lparr>shared := q\<lparr>q_tail := Some item\<rparr>, pusher := P_head item b\<rparr> else s\<lparr>pusher := P_next item b\<rparr>)
   | P_head item b \<Rightarrow> Some (s\<lparr>shared := q\<lparr>q_head := Some item\<rparr>, linked := linked s @ [b], pusher := P_count\<rparr>)
   | P_next item b \<Rightarrow> do {
       t \<leftarrow> q_tail q;
       it \<leftarrow> deref q (q_tail q);
       Some (s\<lparr>shared := q\<lparr>q_heap := (q_heap q)(t \<mapsto> it\<lparr>item_next := Some item\<rparr>)\<rparr>, pusher := P_tail item b\<rparr>) }
   | P_tail item b \<Rightarrow> Some (s\<lparr>shared := q\<lparr>q_tail := Some item\<rparr>, linked := linked s @ [b], pusher := P_count\<rparr>)
   | P_count \<Rightarrow> Some (s\<lparr>shared := q\<lparr>queue_depth := queue_depth q + 1\<rparr>, pusher := P_unlock (queue_depth q + 1)\<rparr>)
   | P_unlock depth \<Rightarrow> Some (s\<lparr>mux := None, pusher := P_report depth\<rparr>)
   | P_report depth \<Rightarrow> Some (s\<lparr>depths := depths s @ [depth], pusher := P_idle\<rparr>))"

datatype turn = Worker_turn bool | Pusher_turn "nat option" "u8 list"

primrec take_turn :: "turn \<Rightarrow> queue_threads \<Rightarrow> queue_threads option" where
  "take_turn (Worker_turn locked) = worker_turn locked"
| "take_turn (Pusher_turn junk buf) = pusher_turn junk buf"

abbreviation schedule :: "turn list \<Rightarrow> queue_threads \<Rightarrow> queue_threads option" where
  "schedule \<equiv> run_turns take_turn"

subsection \<open>The invariant\<close>

text \<open>The nodes outside the list: the new item before it is linked, and the old one after it was unlinked.\<close>

primrec fresh_node :: "push_pc \<Rightarrow> (nat \<times> u8 list) list" where
  "fresh_node P_idle = []"
| "fresh_node (P_lock i b) = [(i, b)]"
| "fresh_node (P_link i b) = [(i, b)]"
| "fresh_node (P_head i b) = [(i, b)]"
| "fresh_node (P_next i b) = [(i, b)]"
| "fresh_node (P_tail i b) = [(i, b)]"
| "fresh_node P_count = []"
| "fresh_node (P_unlock d) = []"
| "fresh_node (P_report d) = []"

definition old_node :: "worker_pc \<Rightarrow> nat list" where
  "old_node pc = (case pc of W_free (Some p) \<Rightarrow> [p] | _ \<Rightarrow> [])"

primrec w_owns :: "worker_pc \<Rightarrow> bool" where
  "w_owns W_idle = False" | "w_owns W_lock1 = False" | "w_owns W_read = True" | "w_owns (W_unlock1 i) = True"
| "w_owns (W_check i) = False" | "w_owns (W_air i) = False" | "w_owns (W_lock2 i) = False" | "w_owns (W_unlink i) = True"
| "w_owns (W_unlink_last i) = True" | "w_owns (W_free i) = True" | "w_owns W_count = True"
| "w_owns (W_unlock2 d) = True" | "w_owns (W_report d) = False"

primrec p_owns :: "push_pc \<Rightarrow> bool" where
  "p_owns P_idle = False" | "p_owns (P_lock i b) = False" | "p_owns (P_link i b) = True" | "p_owns (P_head i b) = True"
| "p_owns (P_next i b) = True" | "p_owns (P_tail i b) = True" | "p_owns P_count = True" | "p_owns (P_unlock d) = True"
| "p_owns (P_report d) = False"

text \<open>What the worker knows of the list where it stands: from its look at \<^verbatim>\<open>head\<close> on there is an oldest item, and
  once it has read the pointer this is that item, linked and allocated, with or without the lock.\<close>

primrec w_knows :: "worker_pc \<Rightarrow> nat list \<Rightarrow> bool" where
  "w_knows W_idle ps = True" | "w_knows W_lock1 ps = (ps \<noteq> [])" | "w_knows W_read ps = (ps \<noteq> [])"
| "w_knows (W_unlock1 i) ps = (ps \<noteq> [] \<and> i = Some (hd ps))" | "w_knows (W_check i) ps = (ps \<noteq> [] \<and> i = Some (hd ps))"
| "w_knows (W_air i) ps = (ps \<noteq> [] \<and> i = Some (hd ps))" | "w_knows (W_lock2 i) ps = (ps \<noteq> [] \<and> i = Some (hd ps))"
| "w_knows (W_unlink i) ps = (ps \<noteq> [] \<and> i = Some (hd ps))"
| "w_knows (W_unlink_last i) ps = (\<exists>p. ps = [p] \<and> i = Some p)"
| "w_knows (W_free i) ps = (i \<noteq> None)" | "w_knows W_count ps = True" | "w_knows (W_unlock2 d) ps = True"
| "w_knows (W_report d) ps = True"

primrec p_knows :: "push_pc \<Rightarrow> nat list \<Rightarrow> bool" where
  "p_knows P_idle ps = True" | "p_knows (P_lock i b) ps = True" | "p_knows (P_link i b) ps = True"
| "p_knows (P_head i b) ps = (ps = [])" | "p_knows (P_next i b) ps = (ps \<noteq> [])" | "p_knows (P_tail i b) ps = (ps \<noteq> [])"
| "p_knows P_count ps = True" | "p_knows (P_unlock d) ps = True" | "p_knows (P_report d) ps = True"

text \<open>The tail pointer, and the packet in the air that is still in the list.\<close>

definition listed :: "worker_pc \<Rightarrow> nat list \<Rightarrow> nat list" where
  "listed pc ps = (case pc of W_unlink_last i \<Rightarrow> [] | _ \<Rightarrow> ps)"

definition tail_of :: "push_pc \<Rightarrow> nat list \<Rightarrow> nat option" where
  "tail_of pc ps = (case pc of P_head i b \<Rightarrow> Some i | _ \<Rightarrow> if ps = [] then None else Some (last ps))"

definition half_sent :: "worker_pc \<Rightarrow> nat" where
  "half_sent pc = (case pc of W_lock2 i \<Rightarrow> 1 | W_unlink i \<Rightarrow> 1 | W_unlink_last i \<Rightarrow> 1 | _ \<Rightarrow> 0)"

definition uncounted :: "push_pc \<Rightarrow> u16" where
  "uncounted pc = (case pc of P_count \<Rightarrow> 1 | _ \<Rightarrow> 0)"

definition overcounted :: "worker_pc \<Rightarrow> u16" where
  "overcounted pc = (case pc of W_free i \<Rightarrow> 1 | W_count \<Rightarrow> 1 | _ \<Rightarrow> 0)"

definition threads_at :: "nat list \<Rightarrow> u8 list list \<Rightarrow> queue_threads \<Rightarrow> bool" where
  "threads_at ps xs s \<longleftrightarrow>
     distinct (ps @ map fst (fresh_node (pusher s)) @ old_node (worker s))
   \<and> dom (q_heap (shared s)) = set (ps @ map fst (fresh_node (pusher s)) @ old_node (worker s))
   \<and> (\<forall>p\<in>set (ps @ map fst (fresh_node (pusher s)) @ old_node (worker s)). p < q_brk (shared s))
   \<and> q_seg (q_heap (shared s)) ps xs
   \<and> (\<forall>(i, b)\<in>set (fresh_node (pusher s)). map_option item_data (q_heap (shared s) i) = Some b)
   \<and> q_head (shared s) = (if ps = [] then None else Some (hd ps))
   \<and> q_tail (shared s) = tail_of (pusher s) (listed (worker s) ps)
   \<and> queue_depth (shared s) + uncounted (pusher s) = of_nat (length xs) + overcounted (worker s)
   \<and> (w_owns (worker s) \<longleftrightarrow> mux s = Some Worker) \<and> (p_owns (pusher s) \<longleftrightarrow> mux s = Some Pusher)
   \<and> w_knows (worker s) ps \<and> p_knows (pusher s) ps
   \<and> (\<forall>i b. pusher s = P_tail i b \<longrightarrow> Option.bind (q_heap (shared s) (last ps)) item_next = Some i)
   \<and> linked s = aired s @ drop (half_sent (worker s)) xs"

definition threads_ok :: "queue_threads \<Rightarrow> bool" where
  "threads_ok s \<longleftrightarrow> (\<exists>ps xs. threads_at ps xs s)"

lemmas thread_views = listed_def old_node_def half_sent_def uncounted_def overcounted_def

lemma q_seg_hd: "q_seg h (p # ps) xs \<Longrightarrow> \<exists>it ys. h p = Some it \<and> xs = item_data it # ys \<and> q_seg h ps ys
    \<and> (ps = [] \<or> item_next it = Some (hd ps))"
  by (cases xs) (auto split: option.splits)

lemma threads_init_at: "threads_at [] [] threads_init"
  by (simp add: threads_at_def threads_init_def queue_init_st_def thread_views tail_of_def)

lemma threads_okI: "threads_at ps xs s \<Longrightarrow> threads_ok s"
  by (auto simp: threads_ok_def)

definition keeps :: "queue_threads option \<Rightarrow> bool" where
  "keeps m \<longleftrightarrow> (\<exists>s. m = Some s \<and> threads_ok s)"

lemma keeps_Some [simp]: "keeps (Some s) = threads_ok s"
  by (simp add: keeps_def)

lemma tail_of_free: "\<not> p_owns pc \<Longrightarrow> tail_of pc ps = (if ps = [] then None else Some (last ps))"
  by (cases pc) (simp_all add: tail_of_def)

lemma uncounted_free: "\<not> p_owns pc \<Longrightarrow> uncounted pc = 0" "\<not> p_owns pc \<Longrightarrow> pc \<noteq> P_tail i b" "\<not> p_owns pc \<Longrightarrow> p_knows pc ps"
  by (cases pc; simp add: uncounted_def)+

lemma worker_turn_ok:
  assumes s: "threads_at ps xs s"
  shows "keeps (worker_turn locked s)"
proof (cases "worker s")
  case W_idle
  have "threads_at ps xs (s\<lparr>worker := W_lock1\<rparr>)" if "q_head (shared s) \<noteq> None"
    using s that W_idle by (simp add: threads_at_def thread_views split: if_splits)
  then show ?thesis using s W_idle by (auto simp: worker_turn_def Let_def intro: threads_okI)
next
  case W_lock1
  have "threads_at ps xs (s\<lparr>mux := Some Worker, worker := W_read\<rparr>)" if "mux s = None"
    using s that W_lock1 by (simp add: threads_at_def thread_views)
  then show ?thesis using s W_lock1 by (auto simp: worker_turn_def Let_def intro: threads_okI)
next
  case W_read
  have "threads_at ps xs (s\<lparr>worker := W_unlock1 (q_head (shared s))\<rparr>)"
    using s W_read by (simp add: threads_at_def thread_views)
  then show ?thesis using W_read by (auto simp: worker_turn_def Let_def intro: threads_okI)
next
  case (W_unlock1 i)
  have "threads_at ps xs (s\<lparr>mux := None, worker := W_check i\<rparr>)"
    using s W_unlock1 by (simp add: threads_at_def thread_views)
  then show ?thesis using W_unlock1 by (auto simp: worker_turn_def Let_def intro: threads_okI)
next
  case (W_check i)
  have "threads_at ps xs (s\<lparr>worker := W_idle\<rparr>)" "threads_at ps xs (s\<lparr>worker := W_air i\<rparr>)"
    using s W_check by (simp_all add: threads_at_def thread_views)
  then show ?thesis using W_check by (auto simp: worker_turn_def Let_def intro: threads_okI)
next
  case (W_air i)
  then obtain p ps' where p: "ps = p # ps'" "i = Some p" using s by (cases ps) (auto simp: threads_at_def)
  obtain it ys where it: "q_heap (shared s) p = Some it" "xs = item_data it # ys"
    using s p q_seg_hd [of "q_heap (shared s)" p ps' xs] by (auto simp: threads_at_def)
  have "threads_at ps xs (s\<lparr>aired := aired s @ [item_data it], worker := W_lock2 i\<rparr>)"
    using s W_air it p by (simp add: threads_at_def thread_views)
  then show ?thesis using W_air p it by (auto simp: worker_turn_def deref_def Let_def intro: threads_okI)
next
  case (W_lock2 i)
  have "threads_at ps xs (s\<lparr>mux := Some Worker, worker := W_unlink i\<rparr>)" if "mux s = None"
    using s that W_lock2 by (simp add: threads_at_def thread_views)
  then show ?thesis using s W_lock2 by (auto simp: worker_turn_def Let_def intro: threads_okI)
next
  case (W_unlink i)
  then obtain p ps' where p: "ps = p # ps'" "i = Some p" using s by (cases ps) (auto simp: threads_at_def)
  obtain it ys where it: "q_heap (shared s) p = Some it" "xs = item_data it # ys" "q_seg (q_heap (shared s)) ps' ys"
      "ps' = [] \<or> item_next it = Some (hd ps')"
    using s p q_seg_hd [of "q_heap (shared s)" p ps' xs] by (auto simp: threads_at_def)
  have m: "mux s = Some Worker" "\<not> p_owns (pusher s)" using s W_unlink by (auto simp: threads_at_def)
  have ht: "q_head (shared s) = Some p" "q_tail (shared s) = Some (last ps)"
    using s m W_unlink p by (simp_all add: threads_at_def listed_def tail_of_free)
  show ?thesis
  proof (cases "ps' = []")
    case True
    have "threads_at ps xs (s\<lparr>shared := (shared s)\<lparr>q_tail := None\<rparr>, worker := W_unlink_last i\<rparr>)"
      using s m W_unlink p True by (simp add: threads_at_def thread_views tail_of_free)
    then show ?thesis using W_unlink ht p True by (auto simp: worker_turn_def Let_def intro: threads_okI)
  next
    case False
    then have "last ps \<noteq> p" using s p by (auto simp: threads_at_def)
    moreover have "threads_at ps' ys (s\<lparr>shared := (shared s)\<lparr>q_head := item_next it\<rparr>, worker := W_free i\<rparr>)"
      using s m W_unlink p it False by (auto simp: threads_at_def thread_views tail_of_free uncounted_free)
    ultimately show ?thesis using W_unlink ht it p by (auto simp: worker_turn_def deref_def Let_def intro: threads_okI)
  qed
next
  case (W_unlink_last i)
  then obtain p where p: "ps = [p]" "i = Some p" using s by (auto simp: threads_at_def)
  have "length xs = 1" using s p q_seg_length [of "q_heap (shared s)" ps xs] by (simp add: threads_at_def)
  then obtain x where it: "xs = [x]" by (cases xs) auto
  have m: "\<not> p_owns (pusher s)" using s W_unlink_last by (auto simp: threads_at_def)
  have "threads_at [] [] (s\<lparr>shared := (shared s)\<lparr>q_head := None\<rparr>, worker := W_free i\<rparr>)"
    using s m W_unlink_last p it by (auto simp: threads_at_def thread_views tail_of_free uncounted_free)
  then show ?thesis using W_unlink_last by (auto simp: worker_turn_def Let_def intro: threads_okI)
next
  case (W_free i)
  then obtain p where p: "i = Some p" using s by (auto simp: threads_at_def)
  let ?h = "(q_heap (shared s))(p := None)"
  have out: "p \<in> dom (q_heap (shared s))" "p \<notin> set ps" "p \<notin> fst ` set (fresh_node (pusher s))"
    using s W_free p by (auto simp: threads_at_def old_node_def)
  then obtain it where it: "q_heap (shared s) p = Some it" by auto
  have m: "\<not> p_owns (pusher s)" using s W_free by (auto simp: threads_at_def)
  have "dom ?h = set ps \<union> fst ` set (fresh_node (pusher s))"
    using s W_free p out by (auto simp: threads_at_def old_node_def)
  moreover have "q_seg ?h ps xs" using s out by (simp add: threads_at_def q_seg_other)
  moreover have "\<forall>(i, b)\<in>set (fresh_node (pusher s)). map_option item_data (?h i) = Some b"
  proof -
    have "\<forall>(i, b)\<in>set (fresh_node (pusher s)). map_option item_data (q_heap (shared s) i) = Some b"
      using s unfolding threads_at_def by (elim conjE) assumption
    then show ?thesis using out(3) by (fastforce simp: image_iff)
  qed
  ultimately have "threads_at ps xs (s\<lparr>shared := (shared s)\<lparr>q_heap := ?h\<rparr>, worker := W_count\<rparr>)"
    using s m W_free p by (simp add: threads_at_def thread_views tail_of_free uncounted_free del: fun_upd_apply)
  then show ?thesis using W_free p it by (auto simp: worker_turn_def deref_def Let_def intro: threads_okI)
next
  case W_count
  have "threads_at ps xs (s\<lparr>shared := (shared s)\<lparr>queue_depth := queue_depth (shared s) - 1\<rparr>,
      worker := W_unlock2 (queue_depth (shared s) - 1)\<rparr>)"
    using s W_count uncounted_free(1) [of "pusher s"] by (simp add: threads_at_def listed_def old_node_def half_sent_def overcounted_def)
  then show ?thesis using W_count by (auto simp: worker_turn_def Let_def intro: threads_okI)
next
  case (W_unlock2 d)
  have "threads_at ps xs (s\<lparr>mux := None, worker := W_report d\<rparr>)"
    using s W_unlock2 by (simp add: threads_at_def thread_views)
  then show ?thesis using W_unlock2 by (auto simp: worker_turn_def Let_def intro: threads_okI)
next
  case (W_report d)
  have "threads_at ps xs (s\<lparr>depths := depths s @ [d], worker := W_idle\<rparr>)"
    using s W_report by (simp add: threads_at_def thread_views)
  then show ?thesis using W_report by (auto simp: worker_turn_def Let_def intro: threads_okI)
qed

lemma worker_free:
  assumes "\<not> w_owns pc"
  shows "listed pc ps = ps" "old_node pc = []" "overcounted pc = 0" "w_knows pc [] \<Longrightarrow> w_knows pc ps \<and> half_sent pc = 0"
    "w_knows pc ps \<Longrightarrow> ps \<noteq> [] \<Longrightarrow> w_knows pc (ps @ [i])" "half_sent pc \<le> 1"
  using assms by (cases pc; simp add: thread_views)+

lemma q_seg_last_next:
  "q_seg h ps xs \<Longrightarrow> distinct ps \<Longrightarrow> ps \<noteq> [] \<Longrightarrow> h (last ps) = Some it \<Longrightarrow>
     q_seg (h(last ps \<mapsto> it\<lparr>item_next := v\<rparr>)) ps xs"
proof (induction h ps xs rule: q_seg.induct)
  case (2 h p ps x xs)
  then show ?case by (cases "ps = []"; cases xs) (auto split: option.splits)
qed auto

lemma q_seg_link:
  "q_seg h ps xs \<Longrightarrow> ps \<noteq> [] \<Longrightarrow> Option.bind (h (last ps)) item_next = Some i \<Longrightarrow> map_option item_data (h i) = Some b \<Longrightarrow>
     q_seg h (ps @ [i]) (xs @ [b])"
proof (induction h ps xs rule: q_seg.induct)
  case (2 h p ps x xs)
  then show ?case by (cases "ps = []"; cases xs) (auto split: option.splits)
qed auto

lemma pusher_turn_ok:
  assumes s: "threads_at ps xs s"
  shows "keeps (pusher_turn junk buf s)"
proof (cases "pusher s")
  case P_idle
  let ?q = "shared s" and ?i = "q_brk (shared s)"
  let ?h = "(q_heap ?q)(?i \<mapsto> \<lparr>item_data = buf, item_next = junk\<rparr>)"
  have n: "?i \<notin> set ps" "?i \<notin> set (old_node (worker s))" using s P_idle by (auto simp: threads_at_def)
  have "dom ?h = insert ?i (set ps \<union> set (old_node (worker s)))" using s P_idle by (simp add: threads_at_def)
  moreover have "q_seg ?h ps xs" using s n by (simp add: threads_at_def q_seg_other)
  moreover have "map_option item_data (?h ?i) = Some buf" by simp
  ultimately have "threads_at ps xs (s\<lparr>shared := ?q\<lparr>q_heap := ?h, q_brk := ?i + 1\<rparr>, pusher := P_lock ?i buf\<rparr>)"
    using s P_idle n by (auto simp add: threads_at_def tail_of_def uncounted_def less_SucI simp del: fun_upd_apply)
  then show ?thesis using P_idle by (auto simp: pusher_turn_def Let_def intro: threads_okI)
next
  case (P_lock i b)
  have "threads_at ps xs (s\<lparr>mux := Some Pusher, pusher := P_link i b\<rparr>)" if "mux s = None"
    using s that P_lock by (simp add: threads_at_def tail_of_def uncounted_def)
  then show ?thesis using s P_lock by (auto simp: pusher_turn_def Let_def intro: threads_okI)
next
  case (P_link i b)
  have w: "\<not> w_owns (worker s)" using s P_link by (auto simp: threads_at_def)
  have "q_head (shared s) = None \<and> q_tail (shared s) = None \<longleftrightarrow> ps = []"
    using s P_link w by (auto simp: threads_at_def tail_of_def worker_free)
  moreover have "threads_at ps xs (s\<lparr>shared := (shared s)\<lparr>q_tail := Some i\<rparr>, pusher := P_head i b\<rparr>)" if "ps = []"
    using s P_link w that by (simp add: threads_at_def tail_of_def uncounted_def)
  moreover have "threads_at ps xs (s\<lparr>pusher := P_next i b\<rparr>)" if "ps \<noteq> []"
    using s P_link w that by (simp add: threads_at_def tail_of_def uncounted_def)
  ultimately show ?thesis using P_link by (auto simp: pusher_turn_def Let_def intro: threads_okI)
next
  case (P_head i b)
  have w: "\<not> w_owns (worker s)" using s P_head by (auto simp: threads_at_def)
  have p: "ps = []" "xs = []" using s P_head by (cases xs; auto simp: threads_at_def)+
  have "w_knows (worker s) []" using s p by (simp add: threads_at_def)
  note wf = worker_free [OF w] worker_free(4) [OF w this]
  have "threads_at [i] [b] (s\<lparr>shared := (shared s)\<lparr>q_head := Some i\<rparr>, linked := linked s @ [b], pusher := P_count\<rparr>)"
    using s P_head p wf by (auto simp add: threads_at_def tail_of_def uncounted_def)
  then show ?thesis using P_head by (auto simp: pusher_turn_def Let_def intro: threads_okI)
next
  case (P_next i b)
  have w: "\<not> w_owns (worker s)" using s P_next by (auto simp: threads_at_def)
  note wf = worker_free [OF w]
  have p: "ps \<noteq> []" "distinct ps" "q_seg (q_heap (shared s)) ps xs" "q_tail (shared s) = Some (last ps)" "i \<notin> set ps"
    using s P_next wf by (auto simp: threads_at_def tail_of_def)
  obtain it where it: "q_heap (shared s) (last ps) = Some it" using q_seg_last [OF p(3,1)] by blast
  let ?h = "(q_heap (shared s))(last ps \<mapsto> it\<lparr>item_next := Some i\<rparr>)"
  have "last ps \<in> set ps" using p(1) by simp
  then have d: "dom ?h = dom (q_heap (shared s))" "last ps \<noteq> i" using it p(5) by auto
  have "q_seg ?h ps xs" by (rule q_seg_last_next [OF p(3,2,1) it])
  moreover have "?h i = q_heap (shared s) i" using d(2) by simp
  moreover have "Option.bind (?h (last ps)) item_next = Some i" by simp
  ultimately have "threads_at ps xs (s\<lparr>shared := (shared s)\<lparr>q_heap := ?h\<rparr>, pusher := P_tail i b\<rparr>)"
    using s P_next wf d(1) by (simp add: threads_at_def tail_of_def uncounted_def del: fun_upd_apply)
  then show ?thesis using P_next p it by (auto simp: pusher_turn_def deref_def Let_def intro: threads_okI)
next
  case (P_tail i b)
  have w: "\<not> w_owns (worker s)" using s P_tail by (auto simp: threads_at_def)
  note wf = worker_free [OF w]
  have p: "ps \<noteq> []" "q_seg (q_heap (shared s)) ps xs" "Option.bind (q_heap (shared s) (last ps)) item_next = Some i"
      "map_option item_data (q_heap (shared s) i) = Some b" "w_knows (worker s) ps"
    using s P_tail by (auto simp: threads_at_def)
  have seg: "q_seg (q_heap (shared s)) (ps @ [i]) (xs @ [b])" by (rule q_seg_link [OF p(2,1,3,4)])
  have k: "w_knows (worker s) (ps @ [i])" using wf(5) [OF p(5,1)] .
  have "xs \<noteq> []" using p(1,2) by (cases ps) auto
  then have "half_sent (worker s) \<le> length xs" using wf(6) by (cases xs) auto
  then have "threads_at (ps @ [i]) (xs @ [b])
      (s\<lparr>shared := (shared s)\<lparr>q_tail := Some i\<rparr>, linked := linked s @ [b], pusher := P_count\<rparr>)"
    using s P_tail wf(1-3) seg k p(1) by (simp add: threads_at_def tail_of_def uncounted_def)
  then show ?thesis using P_tail by (auto simp: pusher_turn_def Let_def intro: threads_okI)
next
  case P_count
  have "threads_at ps xs (s\<lparr>shared := (shared s)\<lparr>queue_depth := queue_depth (shared s) + 1\<rparr>,
      pusher := P_unlock (queue_depth (shared s) + 1)\<rparr>)"
    using s P_count by (simp add: threads_at_def tail_of_def uncounted_def)
  then show ?thesis using P_count by (auto simp: pusher_turn_def Let_def intro: threads_okI)
next
  case (P_unlock d)
  have "threads_at ps xs (s\<lparr>mux := None, pusher := P_report d\<rparr>)"
    using s P_unlock by (simp add: threads_at_def tail_of_def uncounted_def)
  then show ?thesis using P_unlock by (auto simp: pusher_turn_def Let_def intro: threads_okI)
next
  case (P_report d)
  have "threads_at ps xs (s\<lparr>depths := depths s @ [d], pusher := P_idle\<rparr>)"
    using s P_report by (simp add: threads_at_def tail_of_def uncounted_def)
  then show ?thesis using P_report by (auto simp: pusher_turn_def Let_def intro: threads_okI)
qed

lemma take_turn_ok: "threads_ok s \<Longrightarrow> keeps (take_turn t s)"
  using worker_turn_ok pusher_turn_ok by (cases t) (auto simp: threads_ok_def)

interpretation qt: turns take_turn threads_ok
  using take_turn_ok by unfold_locales (auto simp: keeps_def)

lemma schedule_init: "schedule ts threads_init = Some s \<Longrightarrow> threads_ok s"
  by (rule qt.run_keeps [OF threads_okI [OF threads_init_at]])

text \<open>At rest the list is a well-formed queue of the packets that were linked and not yet sent.\<close>

lemma threads_ok_sent: "threads_ok s \<Longrightarrow> \<exists>xs. linked s = aired s @ xs"
  by (auto simp: threads_ok_def threads_at_def)

lemma threads_ok_rest:
  assumes "threads_ok s" "worker s = W_idle" "pusher s = P_idle"
  shows "\<exists>xs. linked s = aired s @ xs \<and> queue_rep (shared s) xs"
proof -
  obtain ps xs where s: "threads_at ps xs s" using assms(1) by (auto simp: threads_ok_def)
  have "queue_at (shared s) ps xs" "linked s = aired s @ xs"
    using s assms(2,3) by (simp_all add: threads_at_def queue_at_def tail_of_def thread_views)
  then show ?thesis by (auto simp: queue_rep_def)
qed

text \<open>The item the worker has in its hand without the lock is the oldest one: allocated, and with the packet that is due.\<close>

lemma threads_ok_held:
  assumes "threads_ok s" "worker s \<in> {W_check i, W_air i}"
  shows "i = q_head (shared s)" "map_option item_data (deref (shared s) i) = Some (linked s ! length (aired s))"
    "length (aired s) < length (linked s)"
proof -
  obtain ps xs where s: "threads_at ps xs s" using assms(1) by (auto simp: threads_ok_def)
  then have p: "ps \<noteq> []" "i = Some (hd ps)" "q_head (shared s) = Some (hd ps)" "linked s = aired s @ xs"
    and g: "q_seg (q_heap (shared s)) ps xs" using assms(2) by (auto simp: threads_at_def half_sent_def)
  obtain it ys where "q_heap (shared s) (hd ps) = Some it" "xs = item_data it # ys"
    using q_seg_hd [of "q_heap (shared s)" "hd ps" "tl ps" xs] g p(1) by auto
  with p show "i = q_head (shared s)" "map_option item_data (deref (shared s) i) = Some (linked s ! length (aired s))"
    "length (aired s) < length (linked s)" by (simp_all add: deref_def)
qed

subsection \<open>One thread alone\<close>

text \<open>When one thread takes its turns without the other, they add up to the operations of \<^verbatim>\<open>PacketQueue\<close>.\<close>

lemma pusher_alone:
  assumes "pusher s = P_idle" "mux s = None" and q: "q = shared s"
  shows "schedule (replicate (if q_head q = None \<and> q_tail q = None then 7 else 8) (Pusher_turn junk buf)) s =
     map_option (\<lambda>q'. s\<lparr>shared := q', linked := linked s @ [buf], depths := depths s @ [queue_depth q']\<rparr>) (q_append junk buf q)"
  using assms
  by (simp add: q_append_def pusher_turn_def Let_def deref_def numeral_nat split: bind_splits)

lemma worker_alone:
  assumes "worker s = W_idle" "mux s = None" "q = shared s" "q_head q \<noteq> None"
  shows "schedule (replicate (if q_head q = q_tail q then 13 else 12) (Worker_turn False)) s = do {
     x \<leftarrow> q_peek q; q' \<leftarrow> q_remove (q_head q) q;
     Some (s\<lparr>shared := q', aired := aired s @ [x], depths := depths s @ [queue_depth q']\<rparr>) }"
  using assms
  by (simp add: q_remove_def q_peek_def worker_turn_def Let_def deref_def numeral_nat split: bind_splits)

subsection \<open>No deadlock\<close>

text \<open>How far the worker is from an empty queue, when nobody interferes.\<close>

primrec worker_rank :: "worker_pc \<Rightarrow> nat" where
  "worker_rank W_idle = 6" | "worker_rank W_lock1 = 5" | "worker_rank W_read = 4" | "worker_rank (W_unlock1 i) = 3"
| "worker_rank (W_check i) = 2" | "worker_rank (W_air i) = 1" | "worker_rank (W_lock2 i) = 13"
| "worker_rank (W_unlink i) = 12" | "worker_rank (W_unlink_last i) = 11" | "worker_rank (W_free i) = 10"
| "worker_rank W_count = 9" | "worker_rank (W_unlock2 d) = 8" | "worker_rank (W_report d) = 7"

definition to_send :: "queue_threads \<Rightarrow> nat" where
  "to_send s = 13 * (length (linked s) - length (aired s)) + worker_rank (worker s)"

lemma worker_progress:
  assumes "threads_ok s" "\<not> p_owns (pusher s)" "worker s \<noteq> W_idle \<or> linked s \<noteq> aired s"
  shows "\<exists>s'. worker_turn False s = Some s' \<and> threads_ok s' \<and> to_send s' < to_send s
    \<and> pusher s' = pusher s \<and> linked s' = linked s"
proof -
  obtain s' where s': "worker_turn False s = Some s'" "threads_ok s'"
    using take_turn_ok [OF assms(1), of "Worker_turn False"] by (auto simp: keeps_def)
  have m: "mux s = None" if "\<not> w_owns (worker s)"
    using assms(1,2) that by (cases "mux s"; cases "the (mux s)") (auto simp: threads_ok_def threads_at_def)
  have i: "q_head (shared s) \<noteq> None" if "worker s = W_idle"
  proof -
    obtain ps xs where s: "threads_at ps xs s" using assms(1) by (auto simp: threads_ok_def)
    then have "linked s = aired s @ xs" "q_seg (q_heap (shared s)) ps xs" using that by (simp_all add: threads_at_def half_sent_def)
    with assms(3) that have "ps \<noteq> []" by (cases ps; cases xs) auto
    with s show ?thesis by (simp add: threads_at_def)
  qed
  have a: "length (aired s) < length (linked s)" if "worker s = W_air j" for j
    using threads_ok_held(3) [OF assms(1), of j] that by simp
  have "to_send s' < to_send s \<and> pusher s' = pusher s \<and> linked s' = linked s"
    using s'(1) m i a by (cases "worker s") (auto simp: worker_turn_def Let_def to_send_def split: bind_splits if_splits)
  with s' show ?thesis by blast
qed

interpretation drains: alone "take_turn (Worker_turn False)" "\<lambda>s. threads_ok s \<and> \<not> p_owns (pusher s) \<and> linked s = l"
    "\<lambda>s. worker s = W_idle \<and> linked s = aired s" to_send for l
  using worker_progress by unfold_locales fastforce

lemma worker_drains:
  assumes "threads_ok s" "\<not> p_owns (pusher s)"
  shows "\<exists>n\<le>to_send s. \<exists>s'. schedule (replicate n (Worker_turn False)) s = Some s' \<and> worker s' = W_idle
    \<and> aired s' = linked s' \<and> linked s' = linked s"
  using drains.gets_there [of s "linked s"] assms unfolding run_turns_one by force

text \<open>The pusher gives the lock back within five of its own turns.\<close>

primrec pusher_rank :: "push_pc \<Rightarrow> nat" where
  "pusher_rank P_idle = 0" | "pusher_rank (P_lock i b) = 0" | "pusher_rank (P_link i b) = 5" | "pusher_rank (P_head i b) = 4"
| "pusher_rank (P_next i b) = 4" | "pusher_rank (P_tail i b) = 3" | "pusher_rank P_count = 2" | "pusher_rank (P_unlock d) = 1"
| "pusher_rank (P_report d) = 0"

interpretation unlocks: progressing take_turn threads_ok "Pusher_turn None []" "\<lambda>s. \<not> p_owns (pusher s)" "\<lambda>s. pusher_rank (pusher s)"
proof
  fix s s'
  assume "threads_ok s" "\<not> \<not> p_owns (pusher s)" "take_turn (Pusher_turn None []) s = Some s'"
  then show "pusher_rank (pusher s') < pusher_rank (pusher s)"
    by (cases "pusher s") (auto simp: pusher_turn_def Let_def split: bind_splits if_splits)
qed

text \<open>What was linked stays so.\<close>

lemma linked_grows: "schedule ts s = Some s' \<Longrightarrow> \<exists>ys. linked s' = linked s @ ys"
proof (induction ts arbitrary: s)
  case (Cons t ts)
  then obtain s1 where s1: "take_turn t s = Some s1" "schedule ts s1 = Some s'" by (auto split: bind_splits)
  have "\<exists>ys. linked s1 = linked s @ ys"
  proof (cases t)
    case (Worker_turn l)
    then show ?thesis using s1(1) by (cases "worker s") (auto simp: worker_turn_def Let_def split: bind_splits if_splits)
  next
    case (Pusher_turn j b)
    then show ?thesis using s1(1) by (cases "pusher s") (auto simp: pusher_turn_def Let_def split: bind_splits if_splits)
  qed
  with Cons.IH [OF s1(2)] show ?case by auto
qed simp

text \<open>From every state the threads can reach, a few turns of the pusher and then the worker alone send every packet.\<close>

lemma threads_drain:
  assumes "threads_ok s"
  shows "\<exists>m n s' ys. schedule (replicate m (Pusher_turn None []) @ replicate n (Worker_turn False)) s = Some s'
    \<and> m \<le> 5 \<and> worker s' = W_idle \<and> linked s' = linked s @ ys \<and> aired s' = linked s'"
proof -
  obtain m s1 where m: "m \<le> pusher_rank (pusher s)" "schedule (replicate m (Pusher_turn None [])) s = Some s1" "threads_ok s1"
      "\<not> p_owns (pusher s1)"
    using unlocks.left_alone [OF assms] by blast
  obtain ys where ys: "linked s1 = linked s @ ys" using linked_grows [OF m(2)] by blast
  have "pusher_rank (pusher s) \<le> 5" by (cases "pusher s") auto
  moreover obtain n s' where "schedule (replicate n (Worker_turn False)) s1 = Some s'"
      "worker s' = W_idle" "aired s' = linked s'" "linked s' = linked s1"
    using worker_drains [OF m(3,4)] by blast
  ultimately show ?thesis using m ys
    by (intro exI [of _ m] exI [of _ n] exI [of _ s'] exI [of _ ys]) (simp add: run_turns_app)
qed

subsection \<open>The depth that the host sees\<close>

text \<open>
  Both threads take their depth under the lock but report it after they gave the lock back, so the reports can overtake each
  other.
\<close>

lemma depth_reports_overtake:
  "\<exists>ts s. schedule ts threads_init = Some s \<and> worker s = W_idle \<and> pusher s = P_idle \<and> linked s = [x]
     \<and> aired s = [x] \<and> queue_depth (shared s) = 0 \<and> depths s = [0, 1]"
  by (intro exI [of _ "replicate 6 (Pusher_turn None x) @ replicate 13 (Worker_turn False) @ [Pusher_turn None x]"])
     (simp add: numeral_nat threads_init_def queue_init_st_def pusher_turn_def worker_turn_def Let_def deref_def)

text \<open>All of it for the start of the process: every schedule of the two threads.\<close>

lemma queue_threads_sound:
  "\<exists>s xs. schedule ts threads_init = Some s \<and> linked s = aired s @ xs
     \<and> (worker s = W_idle \<longrightarrow> pusher s = P_idle \<longrightarrow> queue_rep (shared s) xs)"
proof -
  obtain s where s: "schedule ts threads_init = Some s" "threads_ok s"
    using qt.run_ok [OF threads_okI [OF threads_init_at], of ts] by blast
  show ?thesis
  proof (cases "worker s = W_idle \<and> pusher s = P_idle")
    case True
    with s threads_ok_rest [OF s(2)] show ?thesis by blast
  next
    case False
    with s threads_ok_sent [OF s(2)] show ?thesis by blast
  qed
qed

end
