(* ===== verification/Races.thy ===== *)
theory Races
  imports QueueThreads
begin

section \<open>What the three threads share without a lock, and with one\<close>

text \<open>
  The theories of the components take a whole turn of a loop as one step. Here the threads are interleaved below that, at the
  three places where they meet outside the queue: the output buffer of \<^verbatim>\<open>src/kiss.c\<close> and the antenna lines of
  \<^verbatim>\<open>sx126x/sx126x.c\<close>, which have no lock, and the SPI bus, which has one. Answers to the host can be mixed and both antenna lines
  can end up high; transfers on the bus stay whole.
\<close>

subsection \<open>The output buffer\<close>

text \<open>One store of \<^verbatim>\<open>kiss_encode\<close> into \<^verbatim>\<open>buf_out\<close>, or its call of \<^verbatim>\<open>tcp_send\<close> with so many bytes.\<close>

datatype out_act = Put nat u8 | Flush nat

fun put_acts :: "nat \<Rightarrow> u8 list \<Rightarrow> out_act list" where
  "put_acts index [] = []"
| "put_acts index (x # xs) = Put index x # put_acts (index + 1) xs"

text \<open>The loop of \<^verbatim>\<open>kiss_encode\<close> from \<open>index\<close> on: the stores of one byte after another.\<close>

fun encode_loop :: "nat \<Rightarrow> u8 list \<Rightarrow> out_act list" where
  "encode_loop index [] = [Put index FEND, Flush (index + 1)]"
| "encode_loop index (x # xs) =
     (if x = FEND then Put index FESC # Put (index + 1) TFEND # encode_loop (index + 2) xs
      else if x = FESC then Put index FESC # Put (index + 1) TFESC # encode_loop (index + 2) xs
      else Put index x # encode_loop (index + 1) xs)"

definition encode_acts :: "u8 list \<Rightarrow> out_act list" where
  "encode_acts buf = Put 0 FEND # encode_loop 1 buf"

fun run_acts :: "out_act list \<Rightarrow> u8 list \<times> u8 list list \<Rightarrow> (u8 list \<times> u8 list list) option" where
  "run_acts [] s = Some s"
| "run_acts (Put i x # as) s = (if i < length (fst s) then run_acts as ((fst s)[i := x], snd s) else None)"
| "run_acts (Flush n # as) s = run_acts as (fst s, snd s @ [take n (fst s)])"

lemma run_acts_app: "run_acts (as @ bs) s = Option.bind (run_acts as s) (run_acts bs)"
  by (induction as s rule: run_acts.induct) auto

lemma put_acts_app: "put_acts i (xs @ ys) = put_acts i xs @ put_acts (i + length xs) ys"
  by (induction xs arbitrary: i) auto

lemma encode_loop_eq: "encode_loop i xs = put_acts i (kiss_escs xs @ [FEND]) @ [Flush (i + length (kiss_escs xs) + 1)]"
  by (induction xs arbitrary: i) auto

lemma encode_acts_eq: "encode_acts xs = put_acts 0 (kiss_frame xs) @ [Flush (length (kiss_frame xs))]"
  by (simp add: encode_acts_def encode_loop_eq kiss_frame_def)

lemma run_puts:
  "i + length xs \<le> length b \<Longrightarrow> run_acts (put_acts i xs) (b, fs) = Some (take i b @ xs @ drop (i + length xs) b, fs)"
proof (induction xs arbitrary: b i)
  case (Cons x xs)
  then show ?case by (simp add: take_Suc_update)
qed simp

text \<open>Alone, the acts are the encoder of the model.\<close>

lemma encode_alone:
  assumes "length (kiss_frame xs) \<le> length out"
  shows "run_acts (encode_acts xs) (out, fs) = map_option (\<lambda>(b, n). (b, fs @ [take n b])) (kiss_fill xs out)"
  using assms by (simp add: encode_acts_eq run_acts_app run_puts kiss_fill_eq)

lemma shuffles_append: "as \<in> shuffles xs ys \<Longrightarrow> bs \<in> shuffles us vs \<Longrightarrow> as @ bs \<in> shuffles (xs @ us) (ys @ vs)"
proof (induction as arbitrary: xs ys)
  case (Cons a as)
  from Cons.prems(1) consider xs' where "xs = a # xs'" "as \<in> shuffles xs' ys" | ys' where "ys = a # ys'" "as \<in> shuffles xs ys'"
    by (auto simp: Cons_in_shuffles_iff neq_Nil_conv)
  then show ?case
    by cases (simp_all add: Cons_in_shuffles_leftI Cons_in_shuffles_rightI Cons.IH Cons.prems(2))
qed simp

lemma append_shuffles: "xs @ ys \<in> shuffles xs ys"
  using shuffles_append [of xs xs "[]" ys "[]" ys] by simp

text \<open>
  Two answers at the same time. For every \<open>k\<close> there is an interleaving in which the first send of the two carries the
  first \<open>k\<close> bytes of the one frame and the rest of the other.
\<close>

lemma answers_mix:
  assumes "length (kiss_frame x) \<le> length out" "length (kiss_frame y) \<le> length out"
    "k \<le> length (kiss_frame x)" "k \<le> length (kiss_frame y)"
  shows "\<exists>as b. as \<in> shuffles (encode_acts x) (encode_acts y) \<and> run_acts as (out, fs) =
     Some (b, fs @ [take k (kiss_frame y) @ drop k (kiss_frame x), kiss_frame y])"
proof -
  let ?x = "kiss_frame x" and ?y = "kiss_frame y"
  let ?as = "(put_acts 0 ?x @ put_acts 0 (take k ?y)) @ [Flush (length ?x)] @ put_acts k (drop k ?y) @ [Flush (length ?y)]"
  have "put_acts 0 ?y = put_acts 0 (take k ?y) @ put_acts k (drop k ?y)"
    using assms(4) put_acts_app [of 0 "take k ?y" "drop k ?y"] by (simp add: min_absorb2)
  moreover have "?as \<in> shuffles (put_acts 0 ?x @ [Flush (length ?x)])
      (put_acts 0 (take k ?y) @ put_acts k (drop k ?y) @ [Flush (length ?y)])"
    by (intro shuffles_append append_shuffles)
  ultimately have "?as \<in> shuffles (encode_acts x) (encode_acts y)" by (simp add: encode_acts_eq)
  moreover have "run_acts ?as (out, fs) = Some (?y @ drop (length ?y) (?x @ drop (length ?x) out),
      fs @ [take k ?y @ drop k ?x, ?y])"
    using assms by (simp add: run_acts_app run_puts min_absorb2 min_absorb1)
  ultimately show ?thesis by blast
qed

text \<open>
  The converse: whatever the interleaving, the buffer is not overrun, two messages go out, of the lengths of the frames,
  and each of their bytes is the byte of one of the two frames at that place.
\<close>

definition mixed :: "u8 list \<Rightarrow> u8 list \<Rightarrow> nat \<Rightarrow> nat \<Rightarrow> u8 list \<Rightarrow> bool" where
  "mixed f g i j b \<longleftrightarrow> (\<forall>k. k < i \<and> k < length f \<or> k < j \<and> k < length g \<longrightarrow>
     k < length f \<and> b ! k = f ! k \<or> k < length g \<and> b ! k = g ! k)"

definition pending :: "u8 list \<Rightarrow> nat \<Rightarrow> out_act list" where
  "pending f i = (if i \<le> length f then put_acts i (drop i f) @ [Flush (length f)] else [])"

lemma pending_cases:
  "i < length f \<Longrightarrow> pending f i = Put i (f ! i) # pending f (Suc i)"
  "i = length f \<Longrightarrow> pending f i = [Flush (length f)]" "length f < i \<Longrightarrow> pending f i = []"
  by (auto simp: pending_def Cons_nth_drop_Suc [symmetric])

lemma mixed_put:
  assumes "mixed f g i j b" "i < length f" "length f \<le> length b" "length g \<le> length b"
  shows "mixed f g (Suc i) j (b[i := f ! i])"
  using assms unfolding mixed_def by (auto simp: nth_list_update less_Suc_eq)

lemma mixed_sym: "mixed f g i j b = mixed g f j i b"
  unfolding mixed_def by blast

text \<open>A message made of the two frames, place by place.\<close>

definition blend :: "u8 list \<Rightarrow> u8 list \<Rightarrow> u8 list \<Rightarrow> bool" where
  "blend f g m \<longleftrightarrow> length m \<in> {length f, length g}
     \<and> (\<forall>k<length m. k < length f \<and> m ! k = f ! k \<or> k < length g \<and> m ! k = g ! k)"

lemma blend_sym: "blend f g = blend g f"
  by (auto simp: blend_def fun_eq_iff)

lemma mixed_flush: "mixed f g (length f) j b \<Longrightarrow> length f \<le> length b \<Longrightarrow> blend f g (take (length f) b)"
  by (auto simp: mixed_def blend_def)

lemma mixed_done: "length f \<le> i \<Longrightarrow> mixed f g i j b \<Longrightarrow> mixed f g (Suc i) j b"
  by (auto simp: mixed_def)

definition mixes :: "out_act list \<Rightarrow> u8 list \<Rightarrow> u8 list list \<Rightarrow> u8 list \<Rightarrow> u8 list \<Rightarrow> nat \<Rightarrow> bool" where
  "mixes as b fs f g n \<longleftrightarrow> (\<exists>b' ms. run_acts as (b, fs) = Some (b', fs @ ms) \<and> length b' = length b \<and> length ms = n
     \<and> (\<forall>m\<in>set ms. blend f g m))"

lemma run_mixed:
  assumes "as \<in> shuffles (pending f i) (pending g j)" "mixed f g i j b" "length f \<le> length b" "length g \<le> length b"
  shows "mixes as b fs f g ((if i \<le> length f then 1 else 0) + (if j \<le> length g then 1 else 0))"
  using assms
proof (induction as arbitrary: f g i j b fs)
  case Nil
  then show ?case by (auto simp: pending_def mixes_def split: if_splits)
next
  case (Cons a as)
  have main: "mixes (a # as) b fs f g ((if i \<le> length f then 1 else 0) + (if j \<le> length g then 1 else 0))"
    if xs: "pending f i = a # xs" "as \<in> shuffles xs (pending g j)" "mixed f g i j b" "length f \<le> length b"
      "length g \<le> length b" for f g i j xs
  proof (cases "i < length f")
    case True
    with xs(1) have a: "a = Put i (f ! i)" "xs = pending f (Suc i)" by (simp_all add: pending_cases)
    have "mixes as (b[i := f ! i]) fs f g ((if Suc i \<le> length f then 1 else 0) + (if j \<le> length g then 1 else 0))"
      using xs a True by (intro Cons.IH mixed_put) simp_all
    then show ?thesis using a True xs(4) by (simp add: mixes_def)
  next
    case False
    with xs(1) have i: "i = length f" by (cases "length f < i") (simp_all add: pending_cases)
    with xs(1) have a: "a = Flush (length f)" "xs = pending f (Suc i)" by (simp_all add: pending_cases)
    have "mixes as b (fs @ [take (length f) b]) f g ((if Suc i \<le> length f then 1 else 0) + (if j \<le> length g then 1 else 0))"
      using xs a i by (intro Cons.IH mixed_done) simp_all
    then obtain b' ms where "run_acts as (b, fs @ [take (length f) b]) = Some (b', fs @ take (length f) b # ms)"
        "length b' = length b" "length ms = (if j \<le> length g then 1 else 0)" "\<forall>m\<in>set ms. blend f g m"
      using i by (auto simp: mixes_def)
    then show ?thesis using a i mixed_flush [of f g j b] xs(3,4)
      by (auto simp: mixes_def intro!: exI [of _ b'] exI [of _ "take (length f) b # ms"])
  qed
  consider xs where "pending f i = a # xs" "as \<in> shuffles xs (pending g j)"
    | xs where "pending g j = a # xs" "as \<in> shuffles (pending f i) xs"
    using Cons.prems(1) by (auto simp: Cons_in_shuffles_iff neq_Nil_conv)
  then show ?case
  proof cases
    case 1
    then show ?thesis using Cons.prems by (intro main) simp_all
  next
    case (2 xs)
    have "as \<in> shuffles xs (pending f i)" using 2(2) by (simp only: shuffles_commutes)
    then have "mixes (a # as) b fs g f ((if j \<le> length g then 1 else 0) + (if i \<le> length f then 1 else 0))"
      using 2(1) Cons.prems(2-4) by (intro main [of g j xs f i]) (simp_all add: mixed_sym [of g])
    then show ?thesis by (simp add: mixes_def blend_sym [of g] add.commute)
  qed
qed

lemma answers_blend:
  assumes "as \<in> shuffles (encode_acts x) (encode_acts y)" "length (kiss_frame x) \<le> length out"
    "length (kiss_frame y) \<le> length out"
  shows "\<exists>b m1 m2. run_acts as (out, []) = Some (b, [m1, m2]) \<and> blend (kiss_frame x) (kiss_frame y) m1
    \<and> blend (kiss_frame x) (kiss_frame y) m2"
proof -
  have "pending (kiss_frame z) 0 = encode_acts z" for z by (simp add: pending_def encode_acts_eq)
  then have "mixes as out [] (kiss_frame x) (kiss_frame y) 2"
    using run_mixed [of as "kiss_frame x" 0 "kiss_frame y" 0 out "[]"] assms by (simp add: mixed_def numeral_2_eq_2)
  then obtain b ms where "run_acts as (out, []) = Some (b, ms)" "length ms = 2" "\<forall>m\<in>set ms. blend (kiss_frame x) (kiss_frame y) m"
    by (auto simp: mixes_def)
  then show ?thesis by (cases ms; cases "tl ms") auto
qed

subsection \<open>The antenna lines\<close>

text \<open>
  The variable \<^verbatim>\<open>state\<close> and the two lines are shared. A caller of \<^verbatim>\<open>switch_ant\<close> sets \<^verbatim>\<open>state\<close> (\<^verbatim>\<open>sx126x_begin\<close>,
  \<^verbatim>\<open>sx126x_end_packet\<close>, \<^verbatim>\<open>sx126x_request\<close>), \<^verbatim>\<open>switch_ant\<close> reads it, and then drives the lines, with a pause between the two.
\<close>

definition ant_ops :: "bool \<Rightarrow> bool \<Rightarrow> state_t \<Rightarrow> io list" where
  "ant_ops tx_line rx_line st = (case st of
     SX126X_IDLE \<Rightarrow> (if rx_line then [Pin RX_EN False] else []) @ (if tx_line then [Pin TX_EN False] else [])
   | SX126X_TX \<Rightarrow> (if rx_line then [Pin RX_EN False] else []) @ (if tx_line then [Pin TX_EN True] else [])
   | _ \<Rightarrow> (if tx_line then [Pin TX_EN False] else []) @ (if rx_line then [Pin RX_EN True] else []))"

lemma switch_ant_ops: "switch_ant w = emit (ant_ops (tx_en_line (sx w)) (rx_en_line (sx w)) (radio_state (sx w))) w"
  by (cases "radio_state (sx w)") (simp_all add: switch_ant_def ant_ops_def set_pin_def emit_def)

datatype ant_pc = A_set state_t | A_switch | A_drive "io list"

record ant_threads =
  ant_state :: state_t
  ant_pc :: "bool \<Rightarrow> ant_pc"
  ant_trace :: "io list"

definition ant_turn :: "bool \<Rightarrow> bool \<Rightarrow> bool \<Rightarrow> ant_threads \<Rightarrow> ant_threads" where
  "ant_turn tx_line rx_line t s = (case ant_pc s t of
     A_set st \<Rightarrow> s\<lparr>ant_state := st, ant_pc := (ant_pc s)(t := A_switch)\<rparr>
   | A_switch \<Rightarrow> s\<lparr>ant_pc := (ant_pc s)(t := A_drive (ant_ops tx_line rx_line (ant_state s)))\<rparr>
   | A_drive [] \<Rightarrow> s
   | A_drive (e # es) \<Rightarrow> s\<lparr>ant_pc := (ant_pc s)(t := A_drive es), ant_trace := ant_trace s @ [e]\<rparr>)"

definition ant_start :: "io list \<Rightarrow> state_t \<Rightarrow> state_t \<Rightarrow> state_t \<Rightarrow> ant_threads" where
  "ant_start tr st st1 st2 = \<lparr>ant_state = st, ant_pc = (\<lambda>t. A_set (if t then st2 else st1)), ant_trace = tr\<rparr>"

definition ant_run :: "bool \<Rightarrow> bool \<Rightarrow> bool list \<Rightarrow> ant_threads \<Rightarrow> ant_threads" where
  "ant_run tx_line rx_line ts s = fold (ant_turn tx_line rx_line) ts s"

lemma ant_run_simps [simp]:
  "ant_run txl rxl [] s = s" "ant_run txl rxl (t # ts) s = ant_run txl rxl ts (ant_turn txl rxl t s)"
  by (simp_all add: ant_run_def)

text \<open>One after the other, the two callers are two calls of \<^verbatim>\<open>switch_ant\<close>.\<close>

lemma ant_alone:
  assumes "ant_pc s t = A_set st"
  shows "ant_run txl rxl (replicate 4 t) s = s\<lparr>ant_state := st, ant_pc := (ant_pc s)(t := A_drive []),
     ant_trace := ant_trace s @ ant_ops txl rxl st\<rparr>"
  using assms by (cases st; cases txl; cases rxl) (simp_all add: ant_turn_def ant_ops_def numeral_nat)

lemma ant_run_app: "ant_run txl rxl (ts @ us) s = ant_run txl rxl us (ant_run txl rxl ts s)"
  by (simp add: ant_run_def)

lemma ant_in_turn:
  "ant_trace (ant_run txl rxl (replicate 4 False @ replicate 4 True) (ant_start tr st st1 st2)) =
     tr @ ant_ops txl rxl st1 @ ant_ops txl rxl st2"
  by (simp add: ant_run_app ant_alone [where st = st1] ant_alone [where st = st2] ant_start_def)

lemma ant_ops_safe:
  assumes "\<not> (lv TX_EN \<and> lv RX_EN)" "txl" "rxl"
  shows "trace_safe lv (ant_ops txl rxl st)"
    "\<not> (fold pin_after (ant_ops txl rxl st) lv TX_EN \<and> fold pin_after (ant_ops txl rxl st) lv RX_EN)"
  using assms by (cases st; simp add: ant_ops_def)+

text \<open>Interleaved, a caller that goes to transmit and one that goes to receive leave both lines high.\<close>

lemma antenna_race:
  "\<exists>ts. let tr = ant_trace (ant_run True True ts (ant_start [] st SX126X_TX SX126X_RX_CONTINUOUS)) in
     levels tr TX_EN \<and> levels tr RX_EN \<and> \<not> trace_safe levels0 tr"
  by (rule exI [of _ "[False, False, True, True, True, False, False, True]"])
     (simp add: ant_turn_def ant_start_def ant_ops_def levels_def levels0_def Let_def)

subsection \<open>The SPI bus\<close>

text \<open>
  \<^verbatim>\<open>write_bytes\<close>, \<^verbatim>\<open>write_read_bytes\<close> and \<^verbatim>\<open>read_bytes\<close> hold \<^verbatim>\<open>spi_mutex\<close> around the chip select and the transfer. Any number of threads,
  each with its list of transfers and of antenna drives without the lock; a turn of a thread is one operation of the mutex or one output.
\<close>

datatype bus_job = Message io | Drive pin bool

datatype bus_pc = B_run "bus_job list" | B_select io "bus_job list" | B_ioctl io "bus_job list"
  | B_deselect "bus_job list" | B_unlock "bus_job list"

record bus_threads =
  spi_mutex :: "nat option"
  bus_pc :: "nat \<Rightarrow> bus_pc"
  bus_trace :: "io list"
  bus_log :: "(nat \<times> bus_job) list"

definition bus_turn :: "nat \<Rightarrow> bus_threads \<Rightarrow> bus_threads" where
  "bus_turn t s = (let go = (\<lambda>pc s. s\<lparr>bus_pc := (bus_pc s)(t := pc)\<rparr>); out = (\<lambda>e s. s\<lparr>bus_trace := bus_trace s @ [e]\<rparr>);
     log = (\<lambda>j s. s\<lparr>bus_log := bus_log s @ [(t, j)]\<rparr>) in
   case bus_pc s t of
     B_run [] \<Rightarrow> s
   | B_run (Message m # js) \<Rightarrow> (if spi_mutex s = None then go (B_select m js) (s\<lparr>spi_mutex := Some t\<rparr>) else s)
   | B_run (Drive p v # js) \<Rightarrow> go (B_run js) (log (Drive p v) (out (Pin p v) s))
   | B_select m js \<Rightarrow> go (B_ioctl m js) (out (Pin CS False) s)
   | B_ioctl m js \<Rightarrow> go (B_deselect js) (log (Message m) (out m s))
   | B_deselect js \<Rightarrow> go (B_unlock js) (out (Pin CS True) s)
   | B_unlock js \<Rightarrow> go (B_run js) (s\<lparr>spi_mutex := None\<rparr>))"

definition bus_run :: "nat list \<Rightarrow> bus_threads \<Rightarrow> bus_threads" where
  "bus_run ts s = fold bus_turn ts s"

definition bus_start :: "(nat \<Rightarrow> bus_job list) \<Rightarrow> bus_threads" where
  "bus_start jobs = \<lparr>spi_mutex = None, bus_pc = (\<lambda>t. B_run (jobs t)), bus_trace = [], bus_log = []\<rparr>"

text \<open>The jobs of the code: a message is a transfer, and the chip select is driven only around it.\<close>

fun bus_job_ok :: "bus_job \<Rightarrow> bool" where
  "bus_job_ok (Message (Spi m)) = True"
| "bus_job_ok (Message (SpiXfer m n)) = True"
| "bus_job_ok (Message (SpiDuplex m)) = True"
| "bus_job_ok (Message _) = False"
| "bus_job_ok (Drive p v) = (p \<noteq> CS)"

text \<open>The chip select is low at every transfer of a trace, and moves only between transfers: the trace without the other
  lines is a sequence of whole framed transfers.\<close>

fun is_cs :: "io \<Rightarrow> bool" where
  "is_cs (Pin p v) = (p = CS)"
| "is_cs _ = True"

fun framed :: "bus_job \<Rightarrow> io list" where
  "framed (Message m) = [Pin CS False, m, Pin CS True]"
| "framed (Drive p v) = []"

primrec jobs_left :: "bus_pc \<Rightarrow> bus_job list" where
  "jobs_left (B_run js) = js" | "jobs_left (B_select m js) = Message m # js" | "jobs_left (B_ioctl m js) = Message m # js"
| "jobs_left (B_deselect js) = js" | "jobs_left (B_unlock js) = js"

primrec in_section :: "bus_pc \<Rightarrow> bool" where
  "in_section (B_run js) = False" | "in_section (B_select m js) = True" | "in_section (B_ioctl m js) = True"
| "in_section (B_deselect js) = True" | "in_section (B_unlock js) = True"

definition bus_ok :: "(nat \<Rightarrow> bus_job list) \<Rightarrow> bus_threads \<Rightarrow> bool" where
  "bus_ok jobs s \<longleftrightarrow>
     (\<forall>t. in_section (bus_pc s t) \<longleftrightarrow> spi_mutex s = Some t)
   \<and> (\<forall>t. map snd (filter (\<lambda>(u, j). u = t) (bus_log s)) @ jobs_left (bus_pc s t) = jobs t)
   \<and> (case spi_mutex s of
        None \<Rightarrow> filter is_cs (bus_trace s) = concat (map (framed \<circ> snd) (bus_log s))
      | Some t \<Rightarrow> (case bus_pc s t of
          B_ioctl m js \<Rightarrow> filter is_cs (bus_trace s) = concat (map (framed \<circ> snd) (bus_log s)) @ [Pin CS False]
        | B_deselect js \<Rightarrow> filter is_cs (bus_trace s) @ [Pin CS True] = concat (map (framed \<circ> snd) (bus_log s))
        | _ \<Rightarrow> filter is_cs (bus_trace s) = concat (map (framed \<circ> snd) (bus_log s))))"

lemma bus_jobs_ok:
  assumes "bus_ok jobs s" "\<forall>t. list_all bus_job_ok (jobs t)" "j \<in> set (jobs_left (bus_pc s t))"
  shows "bus_job_ok j"
proof -
  have "map snd (filter (\<lambda>(u, j). u = t) (bus_log s)) @ jobs_left (bus_pc s t) = jobs t" using assms(1) by (simp add: bus_ok_def)
  then have "j \<in> set (jobs t)" using assms(3) by (metis UnCI set_append)
  then show ?thesis using assms(2) by (simp add: list_all_iff)
qed

lemma bus_section: "bus_ok jobs s \<Longrightarrow> in_section (bus_pc s t) \<longleftrightarrow> spi_mutex s = Some t"
  by (simp add: bus_ok_def)

lemma bus_left: "bus_ok jobs s \<Longrightarrow> map snd (filter (\<lambda>(u, j). u = t) (bus_log s)) @ jobs_left (bus_pc s t) = jobs t"
  by (simp add: bus_ok_def)

lemma bus_turn_ok:
  assumes ok: "bus_ok jobs s" and jobs: "\<forall>t. list_all bus_job_ok (jobs t)"
  shows "bus_ok jobs (bus_turn t s)"
proof (cases "bus_pc s t")
  case (B_run js)
  show ?thesis
  proof (cases js)
    case Nil
    then show ?thesis using ok B_run by (simp add: bus_turn_def)
  next
    case (Cons j js')
    have j: "bus_job_ok j" by (rule bus_jobs_ok [OF ok jobs, of _ t]) (simp add: B_run Cons)
    show ?thesis
    proof (cases j)
      case (Message m)
      then show ?thesis using ok bus_left [OF ok, of t] B_run Cons by (auto simp: bus_turn_def bus_ok_def)
    next
      case (Drive p v)
      then have "p \<noteq> CS" using j by simp
      moreover have "spi_mutex s \<noteq> Some t" using bus_section [OF ok, of t] B_run by simp
      ultimately show ?thesis using ok bus_left [OF ok, of t] B_run Cons Drive
        by (auto simp: bus_turn_def bus_ok_def split: option.splits bus_pc.splits)
    qed
  qed
next
  case (B_select m js)
  then have "spi_mutex s = Some t" using bus_section [OF ok, of t] by simp
  then show ?thesis using ok bus_left [OF ok, of t] B_select by (auto simp: bus_turn_def bus_ok_def)
next
  case (B_ioctl m js)
  then have "spi_mutex s = Some t" using bus_section [OF ok, of t] by simp
  moreover note bus_left [OF ok, of t]
  moreover have "bus_job_ok (Message m)" by (rule bus_jobs_ok [OF ok jobs, of _ t]) (simp add: B_ioctl)
  then have "is_cs m" by (cases m) auto
  ultimately show ?thesis using ok B_ioctl by (auto simp: bus_turn_def bus_ok_def)
next
  case (B_deselect js)
  then have "spi_mutex s = Some t" using bus_section [OF ok, of t] by simp
  then show ?thesis using ok bus_left [OF ok, of t] B_deselect by (auto simp: bus_turn_def bus_ok_def)
next
  case (B_unlock js)
  then have "spi_mutex s = Some t" using bus_section [OF ok, of t] by simp
  then show ?thesis using ok bus_left [OF ok, of t] B_unlock by (auto simp: bus_turn_def bus_ok_def)
qed

lemma bus_start_ok: "bus_ok jobs (bus_start jobs)"
  by (simp add: bus_ok_def bus_start_def)

interpretation bus: turns "\<lambda>t s. Some (bus_turn t s)" "\<lambda>s. (\<forall>t. list_all bus_job_ok (jobs t)) \<and> bus_ok jobs s" for jobs
  using bus_turn_ok by unfold_locales blast

lemma bus_run_turns: "run_turns (\<lambda>t s. Some (bus_turn t s)) ts s = Some (bus_run ts s)"
  by (induction ts arbitrary: s) (simp_all add: bus_run_def)

lemma bus_run_ok:
  assumes "bus_ok jobs s" "\<forall>t. list_all bus_job_ok (jobs t)"
  shows "bus_ok jobs (bus_run ts s)"
  using bus.run_keeps [where ts = ts and jobs = jobs and s = s] assms by (simp add: bus_run_turns)

text \<open>Every thread gets its jobs done in its order, and between two transfers the bus has seen whole transfers only.\<close>

lemma bus_transfers_whole:
  assumes "\<forall>t. list_all bus_job_ok (jobs t)" "s = bus_run ts (bus_start jobs)"
  shows "spi_mutex s = None \<Longrightarrow> filter is_cs (bus_trace s) = concat (map (framed \<circ> snd) (bus_log s))"
    "\<exists>js. map snd (filter (\<lambda>(u, j). u = t) (bus_log s)) @ js = jobs t"
  using bus_run_ok [OF bus_start_ok assms(1), of ts] unfolding assms(2) bus_ok_def by (auto split: option.splits)

text \<open>A thread that holds the mutex gives it back in at most four turns of its own.\<close>

primrec bus_rank :: "bus_pc \<Rightarrow> nat" where
  "bus_rank (B_run js) = 0" | "bus_rank (B_select m js) = 4" | "bus_rank (B_ioctl m js) = 3" | "bus_rank (B_deselect js) = 2"
| "bus_rank (B_unlock js) = 1"

interpretation bus_holder: alone "\<lambda>s. Some (bus_turn t s)"
    "\<lambda>s. spi_mutex s = None \<or> spi_mutex s = Some t \<and> in_section (bus_pc s t)" "\<lambda>s. spi_mutex s = None" "\<lambda>s. bus_rank (bus_pc s t)" for t :: nat
proof
  fix s :: bus_threads
  assume "spi_mutex s = None \<or> spi_mutex s = Some t \<and> in_section (bus_pc s t)" "spi_mutex s \<noteq> None"
  then show "\<exists>s'. Some (bus_turn t s) = Some s' \<and> (spi_mutex s' = None \<or> spi_mutex s' = Some t \<and> in_section (bus_pc s' t))
      \<and> bus_rank (bus_pc s' t) < bus_rank (bus_pc s t)"
    by (cases "bus_pc s t") (simp_all add: bus_turn_def Let_def)
qed

lemma bus_unlocks:
  assumes "bus_ok jobs s" "spi_mutex s = Some t"
  shows "\<exists>n\<le>4. spi_mutex (bus_run (replicate n t) s) = None"
proof -
  have "in_section (bus_pc s t)" using bus_section [OF assms(1)] assms(2) by simp
  then obtain n where "n \<le> bus_rank (bus_pc s t)" "spi_mutex (bus_run (replicate n t) s) = None"
    using bus_holder.gets_there [of s t] assms(2)
    unfolding run_turns_one [where turn = "\<lambda>t s. Some (bus_turn t s)" and t = t] bus_run_turns by auto
  moreover have "bus_rank (bus_pc s t) \<le> 4" by (cases "bus_pc s t") auto
  ultimately show ?thesis by (meson le_trans)
qed

text \<open>One thread alone: the outputs of \<^verbatim>\<open>write_bytes\<close> and its two relatives.\<close>

lemma bus_alone:
  assumes "bus_pc s t = B_run (Message m # js)" "spi_mutex s = None"
  shows "bus_trace (bus_run (replicate 5 t) s) = bus_trace s @ framed (Message m)"
    "trace (snd (write_bytes E buf w)) = trace w @ framed (Message (Spi buf))"
    "trace (snd (write_read_bytes E buf res w)) = trace w @ framed (Message (SpiXfer buf (length res)))"
    "trace (snd (read_bytes E buf res w)) = trace w @ framed (Message (SpiDuplex buf))"
  using assms by (simp_all add: bus_run_def bus_turn_def numeral_nat write_bytes_def write_read_bytes_def read_bytes_def
      emit_def next_read_def Let_def)
end
