(* ===== verification/Constants.thy ===== *)
theory Constants
  imports HostFacts ChannelFacts
begin

section \<open>The numbers behind the names\<close>

text \<open>
  The enumerations of \<^verbatim>\<open>sx126x/sx126x.c\<close> and \<^verbatim>\<open>sx126x/sx126x.h\<close> that the driver turns into numbers on the bus, the
  parameters of \<^verbatim>\<open>src/csma.c\<close>, and the commands of the host protocol. The definitions of the components have the numbers in place;
  the lemmas here say which names they stand for, and what the dispatch of \<^verbatim>\<open>src/rnode.c\<close> does with every
  command of the protocol and with every byte that is none.
\<close>

subsection \<open>The radio\<close>

datatype reg_t = REG_FSK_WHITENING_INITIAL_MSB | REG_FSK_CRC_INITIAL_MSB | REG_FSK_SYNC_WORD_0 | REG_FSK_NODE_ADDRESS
  | REG_IQ_POLARITY_SETUP | REG_LORA_SYNC_WORD_MSB | REG_TX_MODULATION | REG_RX_GAIN
  | REG_TX_CLAMP_CONFIG | REG_OCP_CONFIGURATION | REG_RTC_CONTROL | REG_XTA_TRIM
  | REG_XTB_TRIM | REG_EVENT_MASK

primrec reg_val :: "reg_t \<Rightarrow> u16" where
  "reg_val REG_FSK_WHITENING_INITIAL_MSB = 0x06B8"
| "reg_val REG_FSK_CRC_INITIAL_MSB = 0x06BC"
| "reg_val REG_FSK_SYNC_WORD_0 = 0x06C0"
| "reg_val REG_FSK_NODE_ADDRESS = 0x06CD"
| "reg_val REG_IQ_POLARITY_SETUP = 0x0736"
| "reg_val REG_LORA_SYNC_WORD_MSB = 0x0740"
| "reg_val REG_TX_MODULATION = 0x0889"
| "reg_val REG_RX_GAIN = 0x08AC"
| "reg_val REG_TX_CLAMP_CONFIG = 0x08D8"
| "reg_val REG_OCP_CONFIGURATION = 0x08E7"
| "reg_val REG_RTC_CONTROL = 0x0902"
| "reg_val REG_XTA_TRIM = 0x0911"
| "reg_val REG_XTB_TRIM = 0x0912"
| "reg_val REG_EVENT_MASK = 0x0944"

datatype standby_t = STANDBY_RC | STANDBY_XOSC

primrec standby_val :: "standby_t \<Rightarrow> u8" where
  "standby_val STANDBY_RC = 0x00"
| "standby_val STANDBY_XOSC = 0x01"

datatype modem_t = FSK_MODEM | LORA_MODEM

primrec modem_val :: "modem_t \<Rightarrow> u8" where
  "modem_val FSK_MODEM = 0x00"
| "modem_val LORA_MODEM = 0x01"

datatype cal_img_t = CAL_IMG_430 | CAL_IMG_440 | CAL_IMG_470 | CAL_IMG_510
  | CAL_IMG_779 | CAL_IMG_787 | CAL_IMG_863 | CAL_IMG_870
  | CAL_IMG_902 | CAL_IMG_928

primrec cal_img_val :: "cal_img_t \<Rightarrow> u8" where
  "cal_img_val CAL_IMG_430 = 0x6B"
| "cal_img_val CAL_IMG_440 = 0x6F"
| "cal_img_val CAL_IMG_470 = 0x75"
| "cal_img_val CAL_IMG_510 = 0x81"
| "cal_img_val CAL_IMG_779 = 0xC1"
| "cal_img_val CAL_IMG_787 = 0xC5"
| "cal_img_val CAL_IMG_863 = 0xD7"
| "cal_img_val CAL_IMG_870 = 0xDB"
| "cal_img_val CAL_IMG_902 = 0xE1"
| "cal_img_val CAL_IMG_928 = 0xE9"

datatype pa_ramp_t = PA_RAMP_10U | PA_RAMP_20U | PA_RAMP_40U | PA_RAMP_80U
  | PA_RAMP_200U | PA_RAMP_800U | PA_RAMP_1700U | PA_RAMP_3400U

primrec pa_ramp_val :: "pa_ramp_t \<Rightarrow> u8" where
  "pa_ramp_val PA_RAMP_10U = 0x00"
| "pa_ramp_val PA_RAMP_20U = 0x01"
| "pa_ramp_val PA_RAMP_40U = 0x02"
| "pa_ramp_val PA_RAMP_80U = 0x03"
| "pa_ramp_val PA_RAMP_200U = 0x04"
| "pa_ramp_val PA_RAMP_800U = 0x05"
| "pa_ramp_val PA_RAMP_1700U = 0x06"
| "pa_ramp_val PA_RAMP_3400U = 0x07"

datatype irq_t = IRQ_TX_DONE | IRQ_RX_DONE | IRQ_PREAMBLE_DETECTED | IRQ_SYNC_WORD_VALID
  | IRQ_HEADER_VALID | IRQ_HEADER_ERR | IRQ_CRC_ERR | IRQ_CAD_DONE
  | IRQ_CAD_DETECTED | IRQ_TIMEOUT | IRQ_ALL | IRQ_NONE

primrec irq_val :: "irq_t \<Rightarrow> u16" where
  "irq_val IRQ_TX_DONE = 0x0001"
| "irq_val IRQ_RX_DONE = 0x0002"
| "irq_val IRQ_PREAMBLE_DETECTED = 0x0004"
| "irq_val IRQ_SYNC_WORD_VALID = 0x0008"
| "irq_val IRQ_HEADER_VALID = 0x0010"
| "irq_val IRQ_HEADER_ERR = 0x0020"
| "irq_val IRQ_CRC_ERR = 0x0040"
| "irq_val IRQ_CAD_DONE = 0x0080"
| "irq_val IRQ_CAD_DETECTED = 0x0100"
| "irq_val IRQ_TIMEOUT = 0x0200"
| "irq_val IRQ_ALL = 0x03FF"
| "irq_val IRQ_NONE = 0x0000"

datatype dio3_voltage_t = DIO3_OUTPUT_1_6 | DIO3_OUTPUT_1_7 | DIO3_OUTPUT_1_8 | DIO3_OUTPUT_2_2

primrec dio3_voltage_val :: "dio3_voltage_t \<Rightarrow> u8" where
  "dio3_voltage_val DIO3_OUTPUT_1_6 = 0x00"
| "dio3_voltage_val DIO3_OUTPUT_1_7 = 0x01"
| "dio3_voltage_val DIO3_OUTPUT_1_8 = 0x02"
| "dio3_voltage_val DIO3_OUTPUT_2_2 = 0x03"

datatype dio3_delay_t = TXCO_DELAY_2_5 | TXCO_DELAY_5 | TXCO_DELAY_10

primrec dio3_delay_val :: "dio3_delay_t \<Rightarrow> u16" where
  "dio3_delay_val TXCO_DELAY_2_5 = 0x0140"
| "dio3_delay_val TXCO_DELAY_5 = 0x0280"
| "dio3_delay_val TXCO_DELAY_10 = 0x0560"

datatype status_mode_t = STATUS_DATA_AVAILABLE | STATUS_CMD_TIMEOUT | STATUS_CMD_ERROR | STATUS_CMD_FAILED
  | STATUS_CMD_TX_DONE | STATUS_MODE_STDBY_RC | STATUS_MODE_STDBY_XOSC | STATUS_MODE_FS
  | STATUS_MODE_RX | STATUS_MODE_TX

primrec status_mode_val :: "status_mode_t \<Rightarrow> u8" where
  "status_mode_val STATUS_DATA_AVAILABLE = 0x04"
| "status_mode_val STATUS_CMD_TIMEOUT = 0x06"
| "status_mode_val STATUS_CMD_ERROR = 0x08"
| "status_mode_val STATUS_CMD_FAILED = 0x0A"
| "status_mode_val STATUS_CMD_TX_DONE = 0x0C"
| "status_mode_val STATUS_MODE_STDBY_RC = 0x20"
| "status_mode_val STATUS_MODE_STDBY_XOSC = 0x30"
| "status_mode_val STATUS_MODE_FS = 0x40"
| "status_mode_val STATUS_MODE_RX = 0x50"
| "status_mode_val STATUS_MODE_TX = 0x60"

text \<open>The interrupt sources are single bits, and \<^verbatim>\<open>IRQ_ALL\<close> is all of them.\<close>

definition irq_sources :: "irq_t list" where
  "irq_sources = [IRQ_TX_DONE, IRQ_RX_DONE, IRQ_PREAMBLE_DETECTED, IRQ_SYNC_WORD_VALID, IRQ_HEADER_VALID, IRQ_HEADER_ERR,
     IRQ_CRC_ERR, IRQ_CAD_DONE, IRQ_CAD_DETECTED, IRQ_TIMEOUT]"

lemma irq_bits:
  "map irq_val irq_sources = map (\<lambda>i. 2 ^ i) [0..<10]" "fold (\<lambda>i m. m OR irq_val i) irq_sources 0 = irq_val IRQ_ALL"
  by (simp_all add: irq_sources_def upt_rec)

text \<open>What the driver writes, by name.\<close>

lemma driver_names:
  "set_irq_mask_by wait E w = do {
     let mask = irq_val IRQ_HEADER_VALID OR irq_val IRQ_TX_DONE OR irq_val IRQ_RX_DONE OR irq_val IRQ_HEADER_ERR
       OR irq_val IRQ_CRC_ERR OR irq_val IRQ_PREAMBLE_DETECTED;
     w \<leftarrow> wait E w;
     Some (snd (irq_setup E mask mask 0 0 w)) }"
  "irq_setup E m d1 d2 d3 w = (let (r, w) = clear_irq_status E (irq_val IRQ_ALL) w
     in write_bytes E (0x08 # be16 m @ be16 d1 @ be16 d2 @ be16 d3) w)"
  "cal_band x = (if x < 446000000 then (cal_img_val CAL_IMG_430, cal_img_val CAL_IMG_440)
     else if x < 734000000 then (cal_img_val CAL_IMG_470, cal_img_val CAL_IMG_510)
     else if x < 828000000 then (cal_img_val CAL_IMG_779, cal_img_val CAL_IMG_787)
     else if x < 877000000 then (cal_img_val CAL_IMG_863, cal_img_val CAL_IMG_870)
     else (cal_img_val CAL_IMG_902, cal_img_val CAL_IMG_928))"
  by (simp_all add: set_irq_mask_by_def irq_setup_def cal_band_def)

lemma power_names:
  "sx126x_set_tx_power E db w = do {
     let db = (if 22 < db then 22 else db);
     w \<leftarrow> wait_on_busy E w;
     let w = snd (write_bytes E [0x95, 0x04, 0x07, 0x00, 0x01] w);
     w \<leftarrow> wait_on_busy E w;
     let w = snd (write_bytes E [0x96, 0x01] w);
     w \<leftarrow> wait_on_busy E w;
     let w = snd (write_reg E (reg_val REG_OCP_CONFIGURATION) [0x38] w);
     w \<leftarrow> wait_on_busy E w;
     Some (snd (write_bytes E [0x8E, db, pa_ramp_val PA_RAMP_40U] w)) }"
  "sx126x_set_sync_word E x w = do {
     w \<leftarrow> wait_on_busy E w;
     Some (snd (write_reg E (reg_val REG_LORA_SYNC_WORD_MSB) (sync_word_bytes x) w)) }"
  by (simp_all add: sx126x_set_tx_power_def sx126x_set_sync_word_def)

lemma begin_names:
  "sx126x_begin_by wait E w = do {
     let w = set_pin RST True (set_pin RST False w);
     let w = switch_ant (w\<lparr>sx := (sx w)\<lparr>radio_state := SX126X_IDLE\<rparr>\<rparr>);
     let (busy_state, w) = get_busy E w;
     w \<leftarrow> (if busy_state = 1 then wait E w else Some w);
     let (ok, w) = set_standby E (standby_val STANDBY_RC) w;
     if \<not> ok then Some (False, w)
     else do {
       let (initial_status, w) = sx126x_get_status_mode E w;
       if initial_status = 0 then Some (False, w)
       else do {
         w \<leftarrow> set_dio3_txco_ctrl_by wait E (dio3_voltage_val DIO3_OUTPUT_1_8) (dio3_delay_val TXCO_DELAY_10) w;
         let (status, w) = sx126x_get_status_mode E w;
         if status AND 0x70 \<noteq> status_mode_val STATUS_MODE_STDBY_XOSC \<and> status AND 0x70 \<noteq> status_mode_val STATUS_MODE_STDBY_RC
         then Some (False, w) else begin_tail_by wait E w } } }"
  "begin_tail_by wait E w = do {
     let (ok, w) = set_packet_type E (modem_val LORA_MODEM) w;
     if \<not> ok then Some (False, w)
     else do {
       w \<leftarrow> wait E w;
       let w = snd (write_bytes E [0x8F, 0, 0] w);
       w \<leftarrow> set_irq_mask_by wait E w;
       Some (True, w) } }"
  by (simp_all only: sx126x_begin_by_def begin_tail_by_def standby_val.simps dio3_voltage_val.simps dio3_delay_val.simps
      status_mode_val.simps modem_val.simps)

text \<open>The delays of the oscillator are not in the ratio of their names: four times 2.5 ms would be 0x0500.\<close>

lemma dio3_delay_ratio:
  "dio3_delay_val TXCO_DELAY_5 = 2 * dio3_delay_val TXCO_DELAY_2_5" "dio3_delay_val TXCO_DELAY_10 \<noteq> 2 * dio3_delay_val TXCO_DELAY_5"
  by simp_all

subsection \<open>The commands of the host\<close>

definition protocol_commands :: "(string \<times> u8) list" where
  "protocol_commands =
     [(''CMD_UNKNOWN'', 0xFE), (''CMD_DATA'', 0x00), (''CMD_FREQUENCY'', 0x01), (''CMD_BANDWIDTH'', 0x02),
      (''CMD_TXPOWER'', 0x03), (''CMD_SF'', 0x04), (''CMD_CR'', 0x05), (''CMD_RADIO_STATE'', 0x06),
      (''CMD_RADIO_LOCK'', 0x07), (''CMD_DETECT'', 0x08), (''CMD_IMPLICIT'', 0x09), (''CMD_LEAVE'', 0x0A),
      (''CMD_ST_ALOCK'', 0x0B), (''CMD_LT_ALOCK'', 0x0C), (''CMD_PROMISC'', 0x0E), (''CMD_READY'', 0x0F),
      (''CMD_STAT_RX'', 0x21), (''CMD_STAT_TX'', 0x22), (''CMD_STAT_RSSI'', 0x23), (''CMD_STAT_SNR'', 0x24),
      (''CMD_STAT_CHTM'', 0x25), (''CMD_STAT_PHYPRM'', 0x26), (''CMD_STAT_BAT'', 0x27), (''CMD_STAT_CSMA'', 0x28),
      (''CMD_STAT_TEMP'', 0x29), (''CMD_STAT_QUEUE'', 0x2A), (''CMD_BLINK'', 0x30), (''CMD_RANDOM'', 0x40),
      (''CMD_RSSI_OFFSET'', 0x4A), (''CMD_PREAMBLE'', 0x4B), (''CMD_FB_EXT'', 0x41), (''CMD_FB_READ'', 0x42),
      (''CMD_FB_WRITE'', 0x43), (''CMD_FB_READL'', 0x44), (''CMD_DISP_READ'', 0x66), (''CMD_DISP_INT'', 0x45),
      (''CMD_DISP_ADDR'', 0x63), (''CMD_DISP_BLNK'', 0x64), (''CMD_DISP_ROT'', 0x67), (''CMD_DISP_RCND'', 0x68),
      (''CMD_NP_INT'', 0x65), (''CMD_BT_CTRL'', 0x46), (''CMD_BT_UNPAIR'', 0x70), (''CMD_BT_PIN'', 0x62),
      (''CMD_DIS_IA'', 0x69), (''CMD_WIFI_MODE'', 0x6A), (''CMD_WIFI_SSID'', 0x6B), (''CMD_WIFI_PSK'', 0x6C),
      (''CMD_WIFI_CHN'', 0x6E), (''CMD_WIFI_IP'', 0x84), (''CMD_WIFI_NM'', 0x85), (''CMD_BOARD'', 0x47),
      (''CMD_PLATFORM'', 0x48), (''CMD_MCU'', 0x49), (''CMD_FW_VERSION'', 0x50), (''CMD_CFG_READ'', 0x6D),
      (''CMD_ROM_READ'', 0x51), (''CMD_ROM_WRITE'', 0x52), (''CMD_CONF_SAVE'', 0x53), (''CMD_CONF_DELETE'', 0x54),
      (''CMD_DEV_HASH'', 0x56), (''CMD_DEV_SIG'', 0x57), (''CMD_FW_HASH'', 0x58), (''CMD_HASHES'', 0x60),
      (''CMD_FW_UPD'', 0x61), (''CMD_UNLOCK_ROM'', 0x59), (''CMD_RESET'', 0x55), (''CMD_LOG'', 0x80),
      (''CMD_TIME'', 0x81), (''CMD_MUX_CHAIN'', 0x82), (''CMD_MUX_DSCVR'', 0x83)]"

text \<open>No two commands have the same code.\<close>

lemma protocol_codes_distinct: "distinct (map snd protocol_commands)" "distinct (map fst protocol_commands)"
  by (simp_all add: protocol_commands_def)

lemma handler_codes:
  "map fst (handlers E param n) = [CMD_DETECT, CMD_FW_VERSION, CMD_BOARD, CMD_PLATFORM, CMD_MCU, CMD_FREQUENCY, CMD_BANDWIDTH,
     CMD_TXPOWER, CMD_SF, CMD_CR, CMD_RADIO_STATE, CMD_RSSI_OFFSET, CMD_PREAMBLE, CMD_IMPLICIT, CMD_ST_ALOCK, CMD_LT_ALOCK,
     CMD_RANDOM, CMD_STAT_QUEUE, CMD_STAT_CHTM, CMD_STAT_PHYPRM, CMD_RADIO_LOCK, CMD_PROMISC, CMD_READY, CMD_RESET,
     CMD_STAT_RX, CMD_STAT_TX, CMD_STAT_BAT, CMD_DATA, CMD_LEAVE] @ hash_cmds @ ignored_cmds"
  by (simp add: handlers_def comp_def)

text \<open>A command without a label in the \<^verbatim>\<open>switch\<close> is answered with an error and changes nothing else.\<close>

lemma refused_command:
  assumes "c \<notin> set (map fst (handlers E param (size_dec len)))"
  shows "rnode_from_channel E (c # param) len w = rnode_report_error E ERROR_INVALID_COMMAND w"
proof -
  have "map_of (handlers E param (size_dec len)) c = None" using assms by (simp add: map_of_eq_None_iff)
  then show ?thesis by (simp add: rnode_from_channel_def)
qed

text \<open>Of the commands of the protocol these five have no label; every byte that is no command has none.\<close>

lemma refused_names:
  "map fst (filter (\<lambda>(n, c). c \<notin> set (map fst (handlers E param k))) protocol_commands) =
     [''CMD_UNKNOWN'', ''CMD_STAT_RSSI'', ''CMD_STAT_SNR'', ''CMD_STAT_CSMA'', ''CMD_STAT_TEMP'']"
  unfolding handler_codes by (simp add: protocol_commands_def hash_cmds_def ignored_cmds_def)

lemma handler_codes_named: "set (map fst (handlers E param k)) \<subseteq> snd ` set protocol_commands"
  unfolding handler_codes by (simp add: protocol_commands_def hash_cmds_def ignored_cmds_def)

lemma unnamed_command:
  "c \<notin> snd ` set protocol_commands \<Longrightarrow> rnode_from_channel E (c # param) len w = rnode_report_error E ERROR_INVALID_COMMAND w"
  using handler_codes_named by (intro refused_command) blast

text \<open>The commands of displays, Bluetooth and networks, which fall through to the device hash, by name.\<close>

lemma hash_names:
  "map fst (filter (\<lambda>(n, c). c \<in> set hash_cmds) protocol_commands) =
     [''CMD_BLINK'', ''CMD_FB_EXT'', ''CMD_FB_READ'', ''CMD_FB_WRITE'', ''CMD_FB_READL'', ''CMD_DISP_READ'', ''CMD_DISP_INT'',
      ''CMD_DISP_ADDR'', ''CMD_DISP_BLNK'', ''CMD_DISP_ROT'', ''CMD_DISP_RCND'', ''CMD_NP_INT'', ''CMD_BT_CTRL'',
      ''CMD_BT_UNPAIR'', ''CMD_BT_PIN'', ''CMD_DIS_IA'', ''CMD_WIFI_MODE'', ''CMD_WIFI_SSID'', ''CMD_WIFI_PSK'',
      ''CMD_WIFI_CHN'', ''CMD_WIFI_IP'', ''CMD_WIFI_NM'', ''CMD_DEV_HASH'']"
  by (simp add: protocol_commands_def hash_cmds_def)

subsection \<open>The parameters of channel access\<close>

text \<open>The macros of \<^verbatim>\<open>src/csma.c\<close>, with their expressions, and the one of \<^verbatim>\<open>src/csma.h\<close> they use.\<close>

definition csma_parameters :: "(string \<times> int) list" where
  "csma_parameters =
     [(''STATUS_INTERVAL_MS'', 3), (''CSMA_CW_PER_BAND_WINDOWS'', 15), (''CSMA_SLOT_MAX_MS'', 100),
      (''CSMA_SLOT_MIN_MS'', 24), (''CSMA_SLOT_MIN_FAST_DELTA'', 18), (''CSMA_BAND_1_MAX_AIRTIME'', 7),
      (''CSMA_BAND_N_MIN_AIRTIME'', 85), (''CSMA_CW_BANDS'', 4), (''CSMA_SLOT_SYMBOLS'', 12), (''CSMA_SIFS_MS'', 0),
      (''CSMA_INFR_THRESHOLD_DB'', 11), (''CSMA_RFENV_RECAL_MS'', 2500), (''CSMA_RFENV_RECAL_LIMIT_DB'', - 83),
      (''PHY_HEADER_LORA_SYMBOLS'', 20), (''LORA_PREAMBLE_SYMBOLS_MIN'', 18), (''LORA_PREAMBLE_TARGET_MS'', 24),
      (''LORA_PREAMBLE_FAST_DELTA'', 18), (''LORA_FAST_THRESHOLD_BPS'', 30000), (''LORA_LIMIT_THRESHOLD_BPS'', 60000),
      (''LORA_GUARD_THRESHOLD_BPS'', 14000), (''AIRTIME_LONGTERM'', 3600), (''AIRTIME_LONGTERM_MS'', 3600 * 1000),
      (''DCD_SAMPLES'', 2500), (''UTIL_UPDATE_INTERVAL'', 1000 div 3), (''AIRTIME_BINLEN_MS'', (3 * 2500)),
      (''AIRTIME_BINS'', ((3600 * 1000) div (3 * 2500))), (''NOISE_FLOOR_SAMPLES'', 128)]"

definition csma_par :: "string \<Rightarrow> int" where
  "csma_par n = (case map_of csma_parameters n of None \<Rightarrow> 0 | Some v \<Rightarrow> v)"

lemma csma_names:
  "int AIRTIME_BINS = csma_par ''AIRTIME_BINS''" "uint AIRTIME_LONGTERM_MS = csma_par ''AIRTIME_LONGTERM_MS''"
  "uint AIRTIME_BINLEN_MS = csma_par ''AIRTIME_BINLEN_MS''" "int DCD_SAMPLES = csma_par ''DCD_SAMPLES''"
  "int UTIL_UPDATE_INTERVAL = csma_par ''UTIL_UPDATE_INTERVAL''" "int NOISE_FLOOR_SAMPLES = csma_par ''NOISE_FLOOR_SAMPLES''"
  "CSMA_INFR_THRESHOLD_DB = csma_par ''CSMA_INFR_THRESHOLD_DB''" "uint CSMA_RFENV_RECAL_MS = csma_par ''CSMA_RFENV_RECAL_MS''"
  "CSMA_RFENV_RECAL_LIMIT_DB = csma_par ''CSMA_RFENV_RECAL_LIMIT_DB''"
  "CSMA_CW_PER_BAND_WINDOWS = csma_par ''CSMA_CW_PER_BAND_WINDOWS''"
  by (simp_all add: csma_par_def csma_parameters_def)

text \<open>The sizes of the static arrays and the initial slot and guard time.\<close>

lemma csma_init_names:
  "int (length (airtime_bins csma_init)) = csma_par ''AIRTIME_BINS''" "int (length (longterm_bins csma_init)) = csma_par ''AIRTIME_BINS''"
  "int (length (util_samples csma_init)) = csma_par ''DCD_SAMPLES''"
  "int (length (noise_floor_buffer csma_init)) = csma_par ''NOISE_FLOOR_SAMPLES''"
  "csma_slot_ms csma_init = csma_par ''CSMA_SLOT_MIN_MS''" "difs_ms csma_init = csma_par ''CSMA_SIFS_MS'' + 2 * csma_slot_ms csma_init"
  "lora_preamble_symbols csma_init = csma_par ''LORA_PREAMBLE_SYMBOLS_MIN''"
  by (simp_all add: csma_par_def csma_parameters_def csma_init_def)

lemma cw_band_names:
  "cw_band_for pct = (let band = (if pct \<le> csma_par ''CSMA_BAND_1_MAX_AIRTIME'' then 1
       else csma_map (pct + csma_par ''CSMA_BAND_1_MAX_AIRTIME'') (csma_par ''CSMA_BAND_1_MAX_AIRTIME'')
         (csma_par ''CSMA_BAND_N_MIN_AIRTIME'') 2 (csma_par ''CSMA_CW_BANDS''))
     in if csma_par ''CSMA_CW_BANDS'' < band then csma_par ''CSMA_CW_BANDS'' else band)"
  by (simp add: cw_band_for_def csma_par_def csma_parameters_def Let_def)

end
