(* ===== verification/Spec2Isabelle.thy ===== *)
theory Spec2Isabelle
  imports EndToEnd Races Constants
begin

text \<open>
  RNode Linux is a daemon that drives an SX126x LoRa radio on a Linux board and offers it to one host over a TCP
  socket, in the protocol of the RNode firmware. Three loops share the state of the process:

  \<^item> the socket loop of \<^verbatim>\<open>src/main.c\<close> calls \<^verbatim>\<open>tcp_read\<close>, whose bytes go through \<^verbatim>\<open>kiss_decode\<close> to the command
    dispatch \<^verbatim>\<open>rnode_from_channel\<close>; answers go back through \<^verbatim>\<open>kiss_encode\<close> and \<^verbatim>\<open>tcp_send\<close>;
  \<^item> the interrupt loop of \<^verbatim>\<open>sx126x/sx126x.c\<close> reads the radio's status and calls \<^verbatim>\<open>queue_medium_state\<close>,
    \<^verbatim>\<open>rnode_rx_done\<close> and \<^verbatim>\<open>rnode_tx_done\<close>;
  \<^item> the worker of \<^verbatim>\<open>src/queue.c\<close> listens before it talks, sends the packets of the host, and samples the channel
    for \<^verbatim>\<open>src/csma.c\<close>.

  \<^bold>\<open>The model.\<close> Every C function is a HOL function of the same name on the record \<open>world\<close>, which has one
  component per source file for its static variables, the list of outputs made so far (\<open>trace\<close>: pins, SPI transfers,
  socket calls) and the number of inputs read. Inputs (clock, random numbers, BUSY line, bytes of the radio, results of
  system calls) are streams of the record \<open>env\<close>, indexed by that number, so every theorem holds for all of
  them. \<open>None\<close> means that C gives the execution no meaning: a write past an array, a null or freed pointer, a
  conversion of a float that does not fit, a division by zero, a shift out of range, an array of no elements. Words have the width of
  the C types; \<^verbatim>\<open>float\<close> and \<^verbatim>\<open>double\<close> are rationals rounded after every operation as IEEE 754 says.

  \<^bold>\<open>The theories.\<close>

  \<^item> \<^verbatim>\<open>Prelude\<close>: words, byte order, bounded stores, C division. \<^verbatim>\<open>CFloat\<close>: floating point and bounds for it.
  \<^item> \<^verbatim>\<open>Kiss\<close> (\<^verbatim>\<open>src/kiss.c\<close>): decoder, encoder, the interface \<open>framing\<close> and its interpretation.
  \<^item> \<^verbatim>\<open>Machine\<close>: the records of all files, \<open>env\<close>, \<open>world\<close>, \<^verbatim>\<open>get_time\<close> of \<^verbatim>\<open>src/util.c\<close>.
  \<^item> \<^verbatim>\<open>Host\<close> (\<^verbatim>\<open>tcp_send\<close>, \<^verbatim>\<open>kiss_encode\<close>): an answer is one \<^verbatim>\<open>send\<close> of its frame.
  \<^item> \<^verbatim>\<open>Sx126x\<close>, \<^verbatim>\<open>RadioCmds\<close> (\<^verbatim>\<open>sx126x/sx126x.c\<close>): SPI primitives, waiting with recovery, commands, interrupt
    handler, air time. \<^verbatim>\<open>DriverSafety\<close>: antenna lines and chip select; the interface \<open>bus_wait\<close>.
    \<^verbatim>\<open>AirTime\<close>: definedness and exactness of the air time. \<^verbatim>\<open>DriverSpec\<close>, \<^verbatim>\<open>RadioStart\<close>: the messages on the bus.
  \<^item> \<^verbatim>\<open>Csma\<close> (\<^verbatim>\<open>src/csma.c\<close>), \<^verbatim>\<open>CsmaInv\<close>: its invariant and ranges; \<^verbatim>\<open>CsmaParams\<close>: slots per modulation;
    \<^verbatim>\<open>ChannelFacts\<close>: recalibration, the modulation report.
  \<^item> \<^verbatim>\<open>PacketQueue\<close>, \<^verbatim>\<open>QueueWorker\<close> (\<^verbatim>\<open>src/queue.c\<close>): the list with the interface \<open>fifo\<close>, the worker and the
    specification \<open>lbt_spec\<close> of its timers; \<^verbatim>\<open>Transmit\<close>: a round that is allowed to send does.
  \<^item> \<^verbatim>\<open>RnodeAir\<close>, \<^verbatim>\<open>SplitPackets\<close> (\<^verbatim>\<open>src/rnode.c\<close>, radio side): splitting and reassembly. \<^verbatim>\<open>RnodeHost\<close>, \<^verbatim>\<open>HostInv\<close>,
    \<^verbatim>\<open>HostFacts\<close> (host side): the commands, their invariant \<open>host_inv\<close> and condition \<open>cmd_defined\<close>.
    \<^verbatim>\<open>Sha256\<close>: the hash against FIPS 180-4.
  \<^item> \<^verbatim>\<open>Config\<close> (\<^verbatim>\<open>src/config.c\<close>, \<^verbatim>\<open>dump\<close> of \<^verbatim>\<open>src/util.c\<close>), \<^verbatim>\<open>Tcp\<close> (\<^verbatim>\<open>src/tcp.c\<close>), \<^verbatim>\<open>Startup\<close> (line requests and
    \<^verbatim>\<open>src/main.c\<close>), \<^verbatim>\<open>System\<close>: the turns of the three loops as a step relation and what holds in all states it reaches.
  \<^item> \<^verbatim>\<open>Calm\<close>: the states of a configured radio, in which the turns are defined; \<^verbatim>\<open>Contract\<close>: the commands a polite
    host sends, and the runs of the process with them; \<^verbatim>\<open>Liveness\<close>: a free channel is used after the guard time and the window that was drawn;
    \<^verbatim>\<open>Listening\<close>: a round that does not send is silent on the air, the round that finds the channel busy, and the flag of a burst
    that outlives the burst.
  \<^item> \<^verbatim>\<open>EndToEnd\<close>: composition, and the concrete environment and states of the witnesses.
  \<^item> \<^verbatim>\<open>Schedules\<close>, \<^verbatim>\<open>QueueThreads\<close>, \<^verbatim>\<open>Races\<close>: the threads below the level of whole turns, where they meet: the queue with its mutex, the output
    buffer, the antenna lines, the bus with its mutex. \<^verbatim>\<open>Constants\<close>: the enumerations and macros, and which of them the numbers in the
    other theories are.

  \<^bold>\<open>How the proofs are built.\<close> \<open>gives P m\<close>: \<open>m\<close> is defined and its result satisfies \<open>P\<close>; \<open>outcome D P m\<close>: a result
  satisfies \<open>P\<close>, and there is one if \<open>D\<close>. The invariants grow by layers, \<open>drv_ok\<close> (driver), \<open>chan_ok\<close> (channel),
  \<open>host_inv\<close> (queue and protocol), \<open>sys_inv\<close> (decoder), and each layer lifts the facts of the one below. What a thread
  needs of the state is an interface: \<open>command_layer\<close> (the commands of the host, \<^verbatim>\<open>HostInv\<close>, and the socket loop, \<^verbatim>\<open>Tcp\<close>), \<open>worker_layer\<close>
  (\<^verbatim>\<open>QueueWorker\<close>), \<open>interrupt_layer\<close> (\<^verbatim>\<open>System\<close>). Each is interpreted twice: with \<open>host_inv\<close>, which holds in every reachable
  state but does not exclude undefined commands, and in \<^verbatim>\<open>Calm\<close> with \<open>calm\<close>, which does. An interrupt round is undefined exactly
  when the radio reports a packet of no bytes (\<open>packet_length\<close>), under either. Properties
  of the whole process follow by rule induction over \<open>sys_reach\<close> and \<open>polite_reach\<close>, those of the interleaved threads
  from the interfaces of \<^verbatim>\<open>Schedules\<close>: \<open>turns\<close> (every schedule keeps the invariant) and \<open>alone\<close> (a thread left alone reaches its goal).

  \<^bold>\<open>Bounds.\<close> There is no fuel: \<open>busy_poll\<close> ends by its counter of 10000, the preamble search by its exponent, all
  else is structural. The recursion of \<^verbatim>\<open>wait_on_busy\<close> and \<^verbatim>\<open>sx126x_begin\<close> is cut by the flag of the code at
  depth one, and modelled so. A schedule is any list of turns; a thread that waits for a mutex stays where it is.

  \<^bold>\<open>Not modelled.\<close> The theories up to \<^verbatim>\<open>EndToEnd\<close> take a turn of a loop as atomic: \<open>sys_reach\<close> and \<open>polite_reach\<close> are runs of whole
  turns, in any order, and what is proved of them does not cover turns that overlap, in which for example both antenna lines can go
  high (\<open>antennas_can_collide\<close>). \<^verbatim>\<open>QueueThreads\<close> and \<^verbatim>\<open>Races\<close> refine this
  at the places where the threads share a lock, a buffer or the antenna, one place at a time, with sequentially
  consistent memory; the statistics of \<^verbatim>\<open>src/csma.c\<close> and \<^verbatim>\<open>src/rnode.c\<close> that two threads write are not interleaved below turns. The rounds of the worker before
  \<^verbatim>\<open>main\<close> enters its loop are left out (\<open>worker_before_loop\<close>). Sleeps
  and log messages have no effect in the model. \<^verbatim>\<open>malloc\<close> and \<^verbatim>\<open>calloc\<close> succeed. cyaml, libgpiod, spidev and the sockets are
  parameters. The build files have no program logic.
\<close>

section \<open>Safety of the process\<close>

text \<open>C1: Under every environment and every sequence of client data, time-outs and radio answers, in every run in which the turns of the three
  loops follow one another in any order, each taken whole (\<open>sys_reach\<close>): at no event of the run, inside a turn or between two, are
  the transmit and the receive antenna line both high, every transfer on the SPI bus happened under a low chip select, and
  between turns the chip select is high. Antenna changes of two threads that overlap are not such runs: they are the subject of
  \<open>antennas_can_collide\<close>, and overlapping transfers that of \<open>bus_transfers_stay_whole\<close>.\<close>

theorem radio_lines_safe:
  assumes "sys_reach E B s"
  shows "trace_safe levels0 (trace (sys_world s)) \<and> levels (trace (sys_world s)) CS
    \<and> \<not> (levels (trace (sys_world s)) TX_EN \<and> levels (trace (sys_world s)) RX_EN)"
  using sys_inv_parts(1-3) [OF sys_reach_inv [OF assms]] by simp_all

theorem radio_lines_safe_witness:
  "\<exists>s. sys_reach demo_env demo_boot s \<and> trace_safe levels0 (trace (sys_world s)) \<and> levels (trace (sys_world s)) CS"
proof -
  obtain b w where "main_start demo_env demo_boot 2 = Inr (b, w)" using demo_start [of demo_env] by blast
  then have s: "sys_reach demo_env demo_boot \<lparr>sys_world = w, irq_running = False, irq_crc_ok = True\<rparr>" by (rule sys_reach.start)
  show ?thesis using s radio_lines_safe [OF s] by blast
qed

text \<open>C17: In every state reached by whole turns of the three loops, in any order, the buffers keep their sizes and the fill counts stay
  inside them, the transmit queue is a well-formed list, and the channel statistics stay in their ranges.\<close>

theorem buffers_in_bounds:
  assumes "sys_reach E B s" and "w = sys_world s"
  shows "length (kiss_buf_in (kiss_in w)) = MTU \<and> kiss_len_in (kiss_in w) < MTU \<and> length (kiss_out w) = MTU
    \<and> length (rn_buf_in (rn w)) = MTU \<and> rn_len_in (rn w) \<le> DATA_MTU
    \<and> length (buf_tx (rn w)) = SINGLE_MTU \<and> len_tx (rn w) \<le> SINGLE_MTU
    \<and> (\<exists>xs. queue_rep (qu w) xs) \<and> csma_wf (cs w)"
  using sys_inv_parts(4-12) [OF sys_reach_inv [OF assms(1)]] by (simp add: assms(2))

theorem buffers_in_bounds_witness:
  "\<exists>s. sys_reach demo_env demo_boot s \<and> kiss_len_in (kiss_in (sys_world s)) < MTU \<and> csma_wf (cs (sys_world s))"
proof -
  obtain b w where "main_start demo_env demo_boot 2 = Inr (b, w)" using demo_start [of demo_env] by blast
  then have s: "sys_reach demo_env demo_boot \<lparr>sys_world = w, irq_running = False, irq_crc_ok = True\<rparr>" by (rule sys_reach.start)
  show ?thesis using s buffers_in_bounds [OF s refl] by blast
qed

text \<open>C8: The interrupt handler completes unless the radio reports a packet of no bytes: in every state reached by whole turns, a round of the interrupt
  loop with the callbacks registered at start is defined, and keeps the invariant, exactly when the length of the received packet it
  reads from the radio, if it reads one, is not zero. With length zero \<^verbatim>\<open>rnode_rx_done\<close> declares an array of no bytes, which has
  no meaning in C. Nothing is assumed about what the radio answers otherwise.\<close>

theorem interrupt_round_completes:
  assumes "sys_reach E B s" "main_start E B argc = Inr (b, w0)"
  shows "(packet_length E b (irq_crc_ok s) (sys_world s) \<noteq> Some 0 \<longrightarrow>
      (\<exists>ok w. irq_turn E b (irq_crc_ok s) (sys_world s) = Some (ok, w) \<and> host_inv (kiss_in (sys_world s)) w \<and> sys_inv w))
    \<and> (packet_length E b (irq_crc_ok s) (sys_world s) = Some 0 \<longrightarrow> irq_turn E b (irq_crc_ok s) (sys_world s) = None)"
proof -
  note i = sys_reach_inv [OF assms(1)]
  note turn = irq_turn_ok [OF sys_inv_host [OF i] main_start_state(14) [OF assms(2)], where ok = "irq_crc_ok s"]
  have "\<exists>ok w. irq_turn E b (irq_crc_ok s) (sys_world s) = Some (ok, w) \<and> host_inv (kiss_in (sys_world s)) w \<and> sys_inv w"
    if "packet_length E b (irq_crc_ok s) (sys_world s) \<noteq> Some 0"
    using turn(1) [OF that] sys_inv_keep [OF i] unfolding givesr_def by blast
  then show ?thesis using turn(2) by blast
qed

theorem interrupt_round_completes_witness:
  "(\<exists>b w0 ok w. main_start demo_env demo_boot 2 = Inr (b, w0) \<and> irq_turn demo_env b True w0 = Some (ok, w))
    \<and> (\<exists>b w0. main_start demo_empty demo_boot 2 = Inr (b, w0) \<and> irq_turn demo_empty b True w0 = None)"
proof
  obtain b w0 where b: "main_start demo_env demo_boot 2 = Inr (b, w0)" using demo_start [of demo_env] by blast
  show "\<exists>b w0 ok w. main_start demo_env demo_boot 2 = Inr (b, w0) \<and> irq_turn demo_env b True w0 = Some (ok, w)"
    using b interrupt_round_completes [OF sys_reach.start [OF b] b] demo_lengths(1) [of b True w0] by auto
  obtain c v0 where c: "main_start demo_empty demo_boot 2 = Inr (c, v0)" using demo_start [of demo_empty] by blast
  show "\<exists>b w0. main_start demo_empty demo_boot 2 = Inr (b, w0) \<and> irq_turn demo_empty b True w0 = None"
    using c interrupt_round_completes [OF sys_reach.start [OF c] c] demo_empty_length [OF main_start_state(14) [OF c], of v0] by auto
qed

text \<open>C18: A command of the host, whatever its bytes: when it is processed the invariant is kept, and it is
  processed without undefined behaviour whenever the condition \<open>cmd_defined\<close> holds for its first parameter
  bytes and the state; every command outside the list of that condition is always defined.\<close>

theorem command_keeps_invariant:
  assumes "host_inv k w" "length buf = MTU" "0 < len" "len < MTU"
  shows "(\<forall>w'. rnode_from_channel E buf len w = Some w' \<longrightarrow> host_inv k w')
    \<and> (cmd_defined (hd buf) (tl buf) w \<longrightarrow> rnode_from_channel E buf len w \<noteq> None)"
  using rnode_from_channel_outcome [OF assms] by (simp only: outcome_def)

theorem command_keeps_invariant_witness:
  "rnode_from_channel demo_env (CMD_DETECT # replicate 1023 0) 2 demo_world \<noteq> None"
  using command_keeps_invariant [OF demo_inv, of "CMD_DETECT # replicate 1023 0" 2 demo_env]
  by (simp add: cmd_defined_def)

text \<open>C24: After a successful start all six lines are requested, chip select is driven high and reset, transmit and receive enable
  low, of all library objects only the SPI device is still held, and the invariant of the process holds with
  transmission allowed, no carrier seen and the radio idle.\<close>

theorem start_state:
  assumes "main_start E B argc = Inr (b, w)"
  shows "line_set b = (\<lambda>l. True) \<and> held [] (calls b) = Some [R_spi]
    \<and> driven None (calls b) L_CS = Some True \<and> driven None (calls b) L_RST = Some False
    \<and> driven None (calls b) L_TX_EN = Some False \<and> driven None (calls b) L_RX_EN = Some False
    \<and> sys_inv w \<and> tx_enable (qu w) \<and> \<not> dcd (cs w) \<and> radio_state (sx w) = SX126X_IDLE"
  using main_start_state [OF assms] by (simp add: levels0_def)

theorem start_state_witness: "\<exists>b w. main_start demo_env demo_boot 2 = Inr (b, w) \<and> held [] (calls b) = Some [R_spi]"
proof -
  obtain b w where b: "main_start demo_env demo_boot 2 = Inr (b, w)" using demo_start [of demo_env] by blast
  show ?thesis using b start_state [OF b] by blast
qed

text \<open>C26: Requesting a line releases every object it took, in reverse order, whichever library call fails; it succeeds exactly when all
  calls do.\<close>

theorem line_request_releases:
  assumes "list_all plain_call settings"
  shows "held st (calls (snd (request_line r l settings consumer store p n b))) = held st (calls b)
    \<and> fst (request_line r l settings consumer store p n b) = gpio_ok r"
  using request_line_result(1,2) [OF assms] by simp

theorem line_request_releases_witness:
  "held [] (calls (snd (request_line \<lparr>chip_ok = True, settings_ok = True, config_ok = True, request_ok = False, line_ok = True\<rparr>
     L_RST [Set_direction Output] ''sx126x_rst'' True 0 18 boot_init))) = Some []"
  using line_request_releases [of "[Set_direction Output]" "[]" _ L_RST "''sx126x_rst''" True 0 18 boot_init]
  by (simp add: plain_call_def boot_init_def)

section \<open>Listen before talk\<close>

text \<open>C3: The four timers of the worker implement the contention rule written on the history of samples: from
  an idle start, it fires at the first sample at which the channel has been free for the guard time and the free
  time after guard times, summed over all free periods, reaches the chosen window.\<close>

theorem contention_timers_refine:
  assumes "medium_free_since q = 0" "cw_wait_start q = 0" "cw_wait_passed q = 0" "0 < d"
    and "sorted (map (unat \<circ> fst) ss)" "list_all (\<lambda>(t, free). 0 < t) ss"
  shows "lbt_run d ss q = lbt_spec (unat d) (unat (cw_target q)) 0 [] ss"
  using assms by (rule lbt_fresh)

theorem contention_timers_refine_witness:
  "lbt_run 48 [(10, True), (60, True), (70, True)] (queue_init_st\<lparr>cw_target := 5\<rparr>) =
     lbt_spec 48 5 0 [] [(10, True), (60, True), (70, True)]"
  using contention_timers_refine [of "queue_init_st\<lparr>cw_target := 5\<rparr>" 48 "[(10, True), (60, True), (70, True)]"]
  by (simp add: queue_init_st_def)



text \<open>C9: A free channel is used. Take a calm state with a packet waiting, transmission allowed, no burst, and the contention timers at rest, and consecutive
  rounds of the worker at the times \<open>tm 0\<close>, \<open>tm 1\<close> and so on. As long as the packet waits let every round find the channel free, the radio not
  transmitting, no air time limit reached and the air time paced (\<open>quiet_round\<close>). If some round comes the guard time or more after the
  first, and the last comes, after that one, at least the contention window later that the first round drew (\<open>window\<close>), then one of the rounds puts the first frame
  of the packet on the air and takes the packet from the queue.\<close>

theorem free_channel_transmits:
  assumes "calm True k w" "queue_rep (qu w) (x # xs)" "tx_enable (qu w)" "\<not> flushing (qu w)" "\<not> cw_picked (qu w)"
    and "medium_free_since (qu w) = 0" "cw_wait_start (qu w) = 0" "cw_wait_passed (qu w) = 0"
    and "\<And>i v. i < n \<Longrightarrow> worker_run E i w = Some v \<Longrightarrow> queue_rep (qu v) (x # xs) \<Longrightarrow> quiet_round B v \<and> worker_time E v = tm i"
    and "0 < tm 0" "\<And>i j. i \<le> j \<Longrightarrow> j < n \<Longrightarrow> tm i \<le> tm j"
    and "j < n" "tm 0 + unat (guard_time w) \<le> tm j" "tm j + window E w \<le> tm (n - 1)"
  shows "\<exists>i<n. \<exists>v v'. worker_run E i w = Some v \<and> queue_worker_step E v = Some v' \<and> sent x xs v v'"
  by (rule free_channel_sends [OF waiting_fresh [OF assms(1-8)] assms(9-14)])

theorem free_channel_transmits_witness:
  "window demo_slow demo_waiting = 96 \<and>
    (\<exists>i<3. \<exists>v v'. worker_run demo_slow i demo_waiting = Some v \<and> queue_worker_step demo_slow v = Some v' \<and> sent [1, 2, 3] [] v v')"
proof -
  let ?tm = "\<lambda>i :: nat. if i = 0 then 1000000 else if i = 1 then 1020000 else 1030000 :: nat"
  have q: "tx_enable (qu demo_waiting)" "\<not> flushing (qu demo_waiting)" "\<not> cw_picked (qu demo_waiting)"
    "medium_free_since (qu demo_waiting) = 0" "cw_wait_start (qu demo_waiting) = 0" "cw_wait_passed (qu demo_waiting) = 0"
    "guard_time demo_waiting = 48"
    by (simp_all add: demo_waiting_def queue_init_st_def guard_time_def csma_get_difs_ms_def csma_init_def)
  have r: "quiet_round 1276 v \<and> worker_time demo_slow v = ?tm i"
    if "i < 3" "worker_run demo_slow i demo_waiting = Some v" "queue_rep (qu v) ([1, 2, 3] # [])" for i v
    using that demo_rounds demo_quiets demo_times by (auto simp: less_Suc_eq numeral_3_eq_3)
  have "\<exists>i<3. \<exists>v v'. worker_run demo_slow i demo_waiting = Some v \<and> queue_worker_step demo_slow v = Some v' \<and> sent [1, 2, 3] [] v v'"
    by (rule free_channel_transmits [where n = 3 and tm = ?tm and j = 1, OF demo_calms(1) demo_waiting_queue q(1-6) r])
      (simp_all add: q(7) demo_window)
  then show ?thesis using demo_window by blast
qed



text \<open>C32: The flag of a burst outlives the burst. A packet waits alone in the queue when its contention ends and the burst mode is on: the round of the worker puts it on the
  air and empties the queue, but leaves the flag set. The radio reports the end of the packet, \<open>n\<close> idle rounds pass, and the host
  sends the next packet: the very next round puts that on the air, although the channel has not been seen free since the burst, whatever the channel is like. (Both packets fit the
  limits: no air time limit is set, the first is one frame, the second at most 508 bytes, and the air time bins have room.)\<close>

theorem flush_outlives_burst:
  assumes "host_inv k w" "sx126x_get_state w \<noteq> SX126X_TX" "tx_enable (qu w)" "queue_rep (qu w) [x]" "\<not> flushing (qu w)"
    and "talks (fst (get_time E w)) w" "csma_should_flush w" "may_send B w x"
    and "length x \<le> DATA_MTU" "length y \<le> 508"
    and "air_limits (rn w) = (Fin 0, Fin 0)" "bins_upto M (cs w)" "M + 4 * B \<le> 45000"
  shows "\<exists>w1 w2 w3 w4 w5. queue_worker_step E w = Some w1 \<and> on_air w x w1 \<and> queue_rep (qu w1) [] \<and> flushing (qu w1)
    \<and> rnode_tx_done E (queue_medium_state E CAUSE_TX_DONE w1) = Some w2 \<and> worker_run E n w2 = Some w3
    \<and> queue_push E y w3 = Some w4 \<and> queue_rep (qu w4) [y] \<and> medium_free_since (qu w4) = 0
    \<and> queue_worker_step E w4 = Some w5 \<and> on_air w4 y w5 \<and> queue_rep (qu w5) []"
  using assms by (rule flush_goes_on)

theorem flush_outlives_burst_witness:
  "\<exists>w1 w2 w3 w4 w5. queue_worker_step demo_slow demo_bursting = Some w1 \<and> flushing (qu w1)
    \<and> rnode_tx_done demo_slow (queue_medium_state demo_slow CAUSE_TX_DONE w1) = Some w2 \<and> worker_run demo_slow 100 w2 = Some w3
    \<and> queue_push demo_slow [4] w3 = Some w4 \<and> queue_worker_step demo_slow w4 = Some w5 \<and> on_air w4 [4] w5"
  using flush_outlives_burst [OF demo_bursting_facts(1-8), of "[4]" 0 100] demo_bursting_facts(9,10) by auto

text \<open>C13: A worker that may go on to send, in a burst or at the end of its contention, does send: when no limit of the host forbids it and the
  air time bins have room for the frames, the round is defined, the first frame of the oldest packet is written to the
  radio, the rest of the packet waits for its end, and the packet leaves the queue.\<close>

theorem worker_sends_oldest_packet:
  assumes "host_inv k w" "queue_rep (qu w) (x # xs)" "may_send B w x" "talks now w"
  shows "\<exists>w'. worker_access E now w = Some w' \<and> on_air w x w' \<and> queue_rep (qu w') xs \<and> host_inv k w'"
  using assms by (rule worker_transmits)

theorem worker_sends_oldest_packet_witness:
  "\<exists>w w'. queue_push demo_env [1, 2, 3] demo_world = Some w
     \<and> worker_access demo_env 7 (upd_qu (\<lambda>q. q\<lparr>flushing := True\<rparr>) w) = Some w' \<and> queue_rep (qu w') []"
proof -
  obtain w where w: "queue_push demo_env [1, 2, 3] demo_world = Some w" "host_inv kiss_init w" "queue_rep (qu w) [[1, 2, 3]]"
    "rn w = rnode_init" "cs w = csma_init" "modem (sx w) = (7, 5, 125000, 12)"
    using host_push [OF demo_inv, of "[]" demo_env "[1, 2, 3]"] by auto
  let ?w = "upd_qu (\<lambda>q. q\<lparr>flushing := True\<rparr>) w"
  have "host_inv kiss_init ?w" "queue_rep (qu ?w) ([1, 2, 3] # [])" "talks 7 ?w"
    using w(2,3) by (auto simp: upd_qu_def talks_def intro: host_inv_upd_qu [unfolded upd_qu_def] queue_rep_timers)
  moreover have "may_send 1276 ?w [1, 2, 3]"
    using w(4-6) demo_modem_ok airtime_sf7 by (simp add: may_send_def upd_qu_def rnode_check_airtime_lock_def bins_room_def
      rnode_init_def csma_init_def list_all_iff f_eq_def)
  ultimately show ?thesis using worker_sends_oldest_packet [of kiss_init ?w "[1, 2, 3]" "[]" 1276 7 demo_env] w(1) by blast
qed

section \<open>The transmit queue\<close>

text \<open>C15: The linked list of the queue, on its explicit heap, is a first-in first-out queue: every sequence of pushes
  and removals on a well-formed list is defined and gives the packets that the sequence gives on a plain list.\<close>

theorem queue_is_fifo:
  assumes "queue_rep q xs"
  shows "\<exists>q'. fifo_run (q_append junk) (\<lambda>q. q_head q = None) q_peek (\<lambda>q. q_remove (q_head q) q) ops q =
      Some (fst (fifo_spec ops xs), q') \<and> queue_rep q' (snd (fifo_spec ops xs))"
  using assms by (rule pq.run_refines)

theorem queue_is_fifo_witness:
  "\<exists>q'. fifo_run (q_append (Some 7)) (\<lambda>q. q_head q = None) q_peek (\<lambda>q. q_remove (q_head q) q)
      [Push [1], Push [2], Pop, Pop, Pop] queue_init_st = Some ([[1], [2]], q') \<and> queue_rep q' []"
  using queue_is_fifo [OF queue_rep_init, of "Some 7" "[Push [1], Push [2], Pop, Pop, Pop]"] by simp

section \<open>Packets on the air\<close>

text \<open>C6: A packet of up to 508 bytes crosses the air: the sender puts one frame, or two with the split flag and a common
  sequence number, into the radio's buffer, and a receiver that gets exactly these frames delivers the
  packet to its host once.\<close>

theorem packet_crosses_the_air:
  assumes "host_inv k w" "\<not> promisc (rn w)" "modem_ok (modem (sx w))" "length buf \<le> 508"
    and "rn_wf (rn v)" "\<not> promisc (rn v)" "length (kiss_out v) = MTU" "rn_seq (rn v) = SEQ_UNSET"
  shows "\<exists>w' frames v'. send_and_finish E buf w = Some w' \<and> fifo_writes (trace w') = fifo_writes (trace w) @ map (Pair 0) frames
    \<and> receive E' frames v = Some v' \<and> delivered E' buf v v'"
  using assms by (rule packet_over_the_air)

theorem packet_crosses_the_air_witness:
  "\<exists>w' frames v'. send_and_finish demo_env (replicate 300 0xC0) demo_world = Some w'
     \<and> fifo_writes (trace w') = map (Pair 0) frames
     \<and> receive demo_env frames demo_world = Some v' \<and> delivered demo_env (replicate 300 0xC0) demo_world v'"
proof -
  have "\<not> promisc (rn demo_world)" "modem_ok (modem (sx demo_world))" "length (replicate 300 (0xC0 :: u8)) \<le> 508"
    "rn_wf (rn demo_world)" "length (kiss_out demo_world) = MTU" "rn_seq (rn demo_world) = SEQ_UNSET"
    using demo_modem_ok by (simp_all add: rnode_init_def del: rn_wf_init) (simp add: rn_wf_init [unfolded rnode_init_def])
  from packet_crosses_the_air [OF demo_inv this(1-4,1,5,6), of demo_env demo_env] show ?thesis by simp
qed

text \<open>C33: A packet of more than 509 bytes, which the protocol of the socket admits up to 1022, makes the code copy more than
  the 255 bytes of its buffer for the second frame: the copy is out of bounds.\<close>

theorem long_packet_overruns:
  assumes "rn_wf (rn w)" "\<not> promisc (rn w)" "509 < length buf"
  shows "rnode_to_air E buf w = None"
  using assms by (rule rnode_to_air_overrun)

theorem long_packet_overruns_witness: "rnode_to_air demo_env (replicate 510 0) demo_world = None"
  by (rule long_packet_overruns) (simp_all del: replicate.simps, simp add: rnode_init_def)

text \<open>C35: For a packet of 509 bytes the length of the second frame wraps to zero in eight bits: the radio gets an empty
  frame, and the last 255 bytes are lost.\<close>

theorem packet_of_509_loses_tail:
  assumes "host_inv k w" "len_tx (rn w) = SINGLE_MTU"
  shows "\<exists>w'. rnode_tx_done E w = Some w' \<and> fifo_writes (trace w') = fifo_writes (trace w) @ [(0, [])] \<and> len_tx (rn w') = 0"
proof -
  obtain c q r m e xs where d: "drv_ok (k, c, q, r, m, e) w" "rn_wf r" using assms(1) by (auto simp: host_inv_def)
  obtain p f where e: "e = (p, f)" by force
  have "rn w = r" "f = fifo_writes (trace w)" using d(1) by (simp_all add: e drv_ok_def rest_def txfifo_def del: drv_rn_eq)
  with rnode_tx_done_509 [OF d(1) [unfolded e] d(2), of E] assms(2) show ?thesis
    by (auto simp: gives_def drv_ok_def rest_def txfifo_def simp del: drv_rn_eq)
qed

theorem packet_of_509_loses_tail_witness:
  "\<exists>w'. rnode_tx_done demo_env (upd_rn (\<lambda>r. r\<lparr>len_tx := SINGLE_MTU\<rparr>) demo_world) = Some w' \<and> fifo_writes (trace w') = [(0, [])]"
proof -
  have "host_inv kiss_init (upd_rn (\<lambda>r. r\<lparr>len_tx := SINGLE_MTU\<rparr>) demo_world)"
    by (rule host_inv_upd_rn [OF demo_inv]) (simp add: rn_wf_def)
  from packet_of_509_loses_tail [OF this, of demo_env] show ?thesis by (auto simp: upd_rn_def)
qed

section \<open>Air time\<close>

text \<open>C27: The air time of a packet is defined, without overflow of any conversion, for the spreading factors 1 to
  16, the bandwidths and coding rates of the radio and all lengths the code uses.\<close>

theorem air_time_is_defined:
  assumes "0 < uint (save_sf s)" "uint (save_sf s) \<le> 16" "uint (save_cr s) \<le> 8"
    and "save_bw s = bw_value bw" "uint len \<le> 1022"
  shows "\<exists>total header payload. sx126x_air_time s len = Some (total, header, payload) \<and> total = header + payload"
  using air_time_defined [OF assms] by (auto simp: sx126x_air_time_def split: bind_splits)

theorem air_time_is_defined_witness:
  "\<exists>r. sx126x_air_time (sx_init\<lparr>save_sf := 7, save_cr := 5, save_bw := 125000\<rparr>) 255 = Some r"
  using air_time_is_defined [of "sx_init\<lparr>save_sf := 7, save_cr := 5, save_bw := 125000\<rparr>" BW_125000 255] by (simp add: sx_init_def) blast

text \<open>C25: The number of payload symbols, computed in single precision, is the exact integer value of the formula of the data sheet: no rounding
  error is left, for every length up to 32000 whose count fits sixteen bits.\<close>

theorem payload_symbols_exact:
  assumes "save_sf s \<noteq> 0" "uint len \<le> 32000"
    and "lora_symbols (uint (save_sf s)) (uint (save_cr s)) (uint len) < 65536"
  shows "air_payload s len = Some (of_int (lora_symbols (uint (save_sf s)) (uint (save_cr s)) (uint len)))"
  using assms by (rule air_payload_lora)

theorem payload_symbols_exact_witness:
  "air_payload (sx_init\<lparr>save_sf := 7, save_cr := 5\<rparr>) 255 = Some 378"
  using payload_symbols_exact [of "sx_init\<lparr>save_sf := 7, save_cr := 5\<rparr>" 255] by (simp add: lora_symbols_def)

section \<open>Channel access parameters and statistics\<close>

text \<open>C29: The contention window drawn by the worker is a whole number of slots between the bounds of the current
  band, and at most 5.9 seconds.\<close>

theorem contention_window_bounds:
  assumes "csma_wf (cs w)"
  shows "\<exists>t n. csma_get_cw E w = Some (t, next_read w) \<and> uint (cw_min (cw (cs w))) \<le> n \<and> n \<le> uint (cw_max (cw (cs w)))
    \<and> uint t = n * csma_slot_ms (cs w) \<and> uint t \<le> 5900"
  using csma_get_cw_range [OF assms, of E] by auto

theorem contention_window_bounds_witness: "\<exists>t. csma_get_cw demo_env demo_world = Some (t, next_read demo_world) \<and> uint t \<le> 5900"
  using contention_window_bounds [of demo_world demo_env] by auto

text \<open>C28: A sample of the channel keeps the invariant of the statistics and the queue and protocol states, and it is
  defined whenever no air time bin exceeds 45 seconds.\<close>

theorem channel_sample_invariant:
  assumes "host_inv k w"
  shows "(\<forall>w'. csma_update_current_rssi E w = Some w' \<longrightarrow> host_inv k w' \<and> qu w' = qu w \<and> rn w' = rn w)
    \<and> (bins_low (cs w) \<longrightarrow> csma_update_current_rssi E w \<noteq> None)"
proof -
  have "outcome (bins_low (cs w)) (host_inv k) (csma_update_current_rssi E w)"
    by (rule host_inv_chan [OF _ assms]) (rule csma_update_current_rssi_ok)
  with csma_update_current_rssi_ok [OF host_inv_chan_ok [OF assms], of E] show ?thesis
    by (auto simp: outcome_def chan_ok_def chan_rest_def)
qed

theorem channel_sample_invariant_witness: "csma_update_current_rssi demo_env demo_world \<noteq> None"
  using channel_sample_invariant [OF demo_inv, of demo_env] demo_bins_low [of demo_world] by simp

text \<open>C38: The noise floor is never calibrated again: persistent interference is declared below -83 dBm only, and the value the code
  takes for the signal strength lies between -63 and 64, so a sample during reception always clears the
  flag, and a calibrated noise floor stays so.\<close>

theorem recalibration_never_happens:
  assumes "host_inv k w" "csma_update_current_rssi E w = Some w'"
    and "sx126x_get_state w = SX126X_RX_CONTINUOUS \<or> sx126x_get_state w = SX126X_RX_SINGLE"
  shows "\<not> interference_persists (cs w') \<and> (noise_floor_sampled (cs w) \<longrightarrow> noise_floor_sampled (cs w'))"
  using assms by (rule never_recalibrates)

theorem recalibration_never_happens_witness:
  "\<exists>w'. csma_update_current_rssi demo_env demo_receiving = Some w' \<and> \<not> interference_persists (cs w')"
proof -
  obtain w' where w': "csma_update_current_rssi demo_env demo_receiving = Some w'"
    using demo_rssi_update [OF demo_receiving_inv, of demo_env] by (auto simp: demo_receiving_def set_radio_state_def)
  have "sx126x_get_state demo_receiving = SX126X_RX_CONTINUOUS" by (simp add: demo_receiving_def set_radio_state_def sx126x_get_state_def)
  with recalibration_never_happens [OF demo_receiving_inv w'] w' show ?thesis by blast
qed

section \<open>The serial link\<close>

text \<open>C7: KISS framing is a round trip for whole streams. Whatever ready state the decoder is in, decoding
  the concatenated frames of payloads of 1 to 1023 bytes delivers exactly these payloads, in order.\<close>

theorem kiss_stream_roundtrip:
  assumes "kiss_ready k" "list_all kiss_fits ps"
  shows "\<exists>k'. kiss_ready k' \<and> kiss_decode kiss_collect (concat (map kiss_frame ps)) (k, fs) = Some (k', fs @ ps)"
  using assms by (rule kiss.recv_stream)

theorem kiss_stream_roundtrip_witness:
  "\<exists>k'. kiss_ready k' \<and> kiss_decode kiss_collect (concat (map kiss_frame [[0xC0, 1], [0xDB]])) (kiss_init, []) =
     Some (k', [[0xC0, 1], [0xDB]])"
  using kiss_stream_roundtrip [of kiss_init "[[0xC0, 1], [0xDB]]" "[]"] by (simp add: kiss_fits_def)

text \<open>C30: The encoder is defined exactly when the encoded frame fits its buffer of 1024 bytes, and then the one
  effect is a send of that frame.\<close>

theorem kiss_encode_exact:
  assumes "length (kiss_out w) = MTU"
  shows "kiss_encode E buf w = (if length (kiss_frame buf) \<le> MTU then Some (host_send E buf w) else None)"
  using assms kiss_encode_eq [OF assms, of buf E] kiss_encode_None_iff [OF assms, of E buf] by (simp add: not_le)

theorem kiss_encode_exact_witness: "kiss_encode demo_env [0xC0] world_init = Some (host_send demo_env [0xC0] world_init)"
  using kiss_encode_exact [of world_init demo_env "[0xC0]"] by (simp add: world_init_def kiss_frame_def)

text \<open>C5: A data frame of the host, of up to 1022 bytes of any value, is appended to the transmit queue
  unchanged; the decoder is ready for the next frame and the invariant of the process holds.\<close>

theorem host_data_reaches_queue:
  assumes "sys_inv w" "kiss_ready (kiss_in w)" "queue_rep (qu w) xs" "length p \<le> 1022"
  shows "\<exists>w'. kiss_input E (kiss_frame (CMD_DATA # p)) w = Some w' \<and> sys_inv w' \<and> kiss_ready (kiss_in w')
    \<and> queue_rep (qu w') (xs @ [p])"
  using assms by (rule data_frame_queued)

theorem host_data_reaches_queue_witness:
  "\<exists>w'. kiss_input demo_env (kiss_frame [CMD_DATA, 0xC0, 0xDB]) demo_world = Some w' \<and> queue_rep (qu w') [[0xC0, 0xDB]]"
  using host_data_reaches_queue [of demo_world "[]" "[0xC0, 0xDB]" demo_env] demo_sys_inv by auto

text \<open>C2: The contract of the host is enough. Take any run of whole turns from a calm state (radio configured, \<open>calm\<close>) in which the bytes of the
  host form a stream of polite payloads, cut into reads in any way, and in which the worker runs when it is \<open>paced\<close>: the air time bins have room
  for two more frames. Then the state stays calm, and no thread is stuck at an undefined operation: the next read of the socket is
  defined, the next round of the interrupt handler is unless the radio reports a packet of no bytes, and the next
  round of the worker is while it is paced.\<close>

theorem polite_run_is_defined:
  assumes "polite_reach E b s todo" "main_start E B argc = Inr (b, w0)"
  shows "calm True (kiss_in (sys_world s)) (sys_world s)
    \<and> (\<forall>n later. todo = tcp_taken E n (sys_world s) @ later \<longrightarrow> tcp_read E n (sys_world s) \<noteq> None)
    \<and> (packet_length E b (irq_crc_ok s) (sys_world s) \<noteq> Some 0 \<longrightarrow> irq_turn E b (irq_crc_ok s) (sys_world s) \<noteq> None)
    \<and> (\<forall>T. paced T (sys_world s) \<longrightarrow> queue_worker_step E (sys_world s) \<noteq> None)"
proof -
  note b = main_start_state(14) [OF assms(2)]
  from polite_reach_calm [OF assms(1) b] calm_progress [OF _ b, of "sys_world s"] show ?thesis by blast
qed

theorem polite_run_is_defined_witness:
  "\<exists>b s. polite_reach demo_answering b s (kiss_frame [CMD_DETECT]) \<and> irq_turn demo_answering b True (sys_world s) \<noteq> None"
proof -
  obtain b w0 w where m: "main_start demo_answering demo_boot 2 = Inr (b, w0)" and w: "calm True (kiss_in w) w" "kiss_ready (kiss_in w)"
    using demo_configured by blast
  let ?s = "\<lparr>sys_world = w, irq_running = False, irq_crc_ok = True\<rparr>"
  have "polite_reach demo_answering b ?s (concat (map kiss_frame [[CMD_DETECT]]))"
    by (rule polite_reach.calm_start) (use w in \<open>simp_all add: polite_payload_def kiss_fits_def\<close>)
  then have r: "polite_reach demo_answering b ?s (kiss_frame [CMD_DETECT])" by simp
  have "irq_turn demo_answering b True (sys_world ?s) \<noteq> None"
    using polite_run_is_defined [OF r m] demo_lengths(2) [of b True w] by simp
  with r show ?thesis by blast
qed

text \<open>C11: A host gets there. After any successful start of the daemon, any polite payloads that do not start the radio are processed, then a
  spreading factor from 1 to 16; and if the radio answers then, the command that turns it on leaves a calm state with the radio on.\<close>

theorem configured_radio_is_calm:
  assumes "main_start E B argc = Inr (b, w0)" "list_all (polite_payload False) ps" "0 < uint sf" "uint sf \<le> 16"
  shows "\<exists>w1. (do { w \<leftarrow> kiss_input E (concat (map kiss_frame ps)) w0; kiss_input E (kiss_frame [CMD_SF, sf]) w }) = Some w1
    \<and> (\<forall>v. sx126x_begin E w1 = Some (True, v) \<longrightarrow>
        (\<exists>w2. kiss_input E (kiss_frame [CMD_RADIO_STATE, 0x01]) w1 = Some w2 \<and> calm True (kiss_in w2) w2
          \<and> kiss_ready (kiss_in w2) \<and> radio_online (rn w2)))"
  using assms by (rule configured)

theorem configured_radio_is_calm_witness:
  "\<exists>b w0 w1 w2. main_start demo_answering demo_boot 2 = Inr (b, w0)
     \<and> kiss_input demo_answering (kiss_frame [CMD_RADIO_STATE, 0x01]) w1 = Some w2 \<and> radio_online (rn w2)"
proof -
  obtain b w0 where m: "main_start demo_answering demo_boot 2 = Inr (b, w0)" using demo_start by blast
  have "list_all (polite_payload False) [[CMD_FREQUENCY, 0x33, 0xBE, 0x27, 0xA0], [CMD_TXPOWER, 14]]"
    by (simp add: polite_payload_def kiss_fits_def)
  from configured_radio_is_calm [OF m this, of 7] m demo_answering_begin show ?thesis by (fastforce split: bind_splits)
qed

text \<open>C37: The decoder's state outlives its client: when a client left an unfinished frame, the first
  delimiter sent by the next client executes it as a command.\<close>

theorem stale_frame_is_executed:
  assumes "host_inv k w" "tcp_accept E n w = Some w1" "kiss_sync (kiss_in w)" "0 < kiss_len_in (kiss_in w)"
  shows "kiss_input E [FEND] w1 = map_option (\<lambda>w2. w2\<lparr>kiss_in := (kiss_in w)\<lparr>kiss_len_in := 0, kiss_sync := True\<rparr>\<rparr>)
      (rnode_from_channel E (kiss_buf_in (kiss_in w)) (kiss_len_in (kiss_in w)) w1)"
  using tcp_accept_keeps_decoder [OF assms(1,2)] assms(3,4)
  by (cases "rnode_from_channel E (kiss_buf_in (kiss_in w)) (kiss_len_in (kiss_in w)) w1") (simp_all add: kiss_input_def)

theorem stale_frame_is_executed_witness:
  "\<exists>w1. tcp_accept demo_env demo_client demo_stale = Some w1
     \<and> kiss_input demo_env [FEND] w1 = map_option (\<lambda>w2. w2\<lparr>kiss_in := (kiss_in demo_stale)\<lparr>kiss_len_in := 0, kiss_sync := True\<rparr>\<rparr>)
       (rnode_from_channel demo_env (kiss_buf_in (kiss_in demo_stale)) 1 w1)"
proof -
  obtain w1 where w1: "tcp_accept demo_env demo_client demo_stale = Some w1"
    using tcp_accept_safe [OF demo_stale_inv, of demo_env demo_client] by (auto simp: gives_def)
  from stale_frame_is_executed [OF demo_stale_inv w1] w1 show ?thesis by (simp add: demo_stale_def)
qed

section \<open>The radio driver\<close>

text \<open>C16: Starting the radio sends exactly one program: on an idle bus, with a spreading factor of 1 to 16, a start that the
  radio accepts writes the messages of \<open>start_program\<close>, which follow from the settings of the host, and
  leaves the settings unchanged.\<close>

theorem start_programs_radio:
  assumes "radio_idle E" "sx126x_begin E w = Some (True, w1)" "sf_startable (current_sf (rn w))"
  shows "\<exists>w'. rnode_start E w = Some w' \<and> wrote w (start_program (rn w) (payload_tx_rx (sx w))) w' \<and> rn w' = rn w"
  using assms by (rule rnode_start_program)

theorem start_programs_radio_witness:
  "\<exists>w'. rnode_start demo_answering (upd_rn (\<lambda>r. r\<lparr>current_sf := 7\<rparr>) demo_world) = Some w'
     \<and> wrote (upd_rn (\<lambda>r. r\<lparr>current_sf := 7\<rparr>) demo_world) (start_program (rnode_init\<lparr>current_sf := 7\<rparr>) 32) w'"
proof -
  obtain w1 where b: "sx126x_begin demo_answering (upd_rn (\<lambda>r. r\<lparr>current_sf := 7\<rparr>) demo_world) = Some (True, w1)"
    using demo_answering_begin by blast
  show ?thesis using start_programs_radio [OF demo_answering_idle b]
    by (auto simp: sf_startable_def demo_world_def world_init_def sx_init_def upd_rn_def)
qed

text \<open>C34: A start that the host orders before it set a spreading factor ends in undefined behaviour: the air time divides
  by zero and the result is converted to an integer.\<close>

theorem start_without_sf_undefined:
  assumes "radio_idle E" "sx126x_begin E w = Some (True, w1)" "current_sf (rn w) = 0"
  shows "ans_radio_state E (0x01 # param) w = None"
  using rnode_start_sf0 [OF assms] by (simp add: ans_radio_state_def read_at_def)

theorem start_without_sf_undefined_witness: "ans_radio_state demo_answering [0x01] (upd_rn (\<lambda>r. r\<lparr>current_sf := 0\<rparr>) demo_world) = None"
proof -
  obtain w1 where b: "sx126x_begin demo_answering (upd_rn (\<lambda>r. r\<lparr>current_sf := 0\<rparr>) demo_world) = Some (True, w1)"
    using demo_answering_begin by blast
  show ?thesis by (rule start_without_sf_undefined [OF demo_answering_idle b]) (simp add: upd_rn_def)
qed

text \<open>C36: After a start that failed the host is told of the error and then, all the same, that the radio is on.\<close>

theorem failed_start_reports_on:
  assumes "host_inv k w" "sx126x_begin E w = Some (False, w1)"
  shows "\<exists>w'. ans_radio_state E (0x01 # p) w = Some w' \<and> radio_online (rn w')
    \<and> w' = host_send E [CMD_RADIO_STATE, 0x01] (upd_rn (\<lambda>r. r\<lparr>radio_online := True\<rparr>)
        (host_send E [CMD_ERROR, ERROR_INITRADIO] w1))"
  using assms by (rule radio_state_after_failure)

theorem failed_start_reports_on_witness:
  "\<exists>w'. ans_radio_state demo_env [0x01] demo_world = Some w' \<and> radio_online (rn w')"
proof -
  obtain w1 where "sx126x_begin demo_env demo_world = Some (False, w1)" using demo_begin by blast
  from failed_start_reports_on [OF demo_inv this, of "[]"] show ?thesis by blast
qed

text \<open>C40: The frequency word is exact to one step of the synthesizer: it is the frequency times two to the 25 over 32 MHz, rounded
  down, without overflow for every frequency below two to the 39.\<close>

theorem frequency_word_accuracy:
  assumes "unat x < 2 ^ 39"
  shows "unat (freq_word x) * 32000000 \<le> unat x * 33554432 \<and> unat x * 33554432 < (unat (freq_word x) + 1) * 32000000"
  using freq_word_accuracy [OF assms] by simp

theorem frequency_word_accuracy_witness:
  "unat (freq_word 868100000) * 32000000 \<le> 868100000 * 33554432"
  using frequency_word_accuracy [of 868100000] by simp

text \<open>C39: The wait on the BUSY line ends: it reads the line at least once and at most 10000 times, reports a time-out exactly when all
  these reads were high, and otherwise stops at the first low read.\<close>

theorem busy_wait_bounded:
  assumes "count < 10000"
  shows "\<exists>k. reads (snd (busy_poll E count w)) = reads w + k \<and> 0 < k \<and> count + k \<le> 10000
    \<and> (if fst (busy_poll E count w) then count + k = 10000 \<and> (\<forall>i<k. busy_line E (reads w + i) = 1)
       else busy_line E (reads w + k - 1) \<noteq> 1 \<and> (\<forall>i<k - 1. busy_line E (reads w + i) = 1))"
  using busy_poll_bounded [OF assms, of E w] by auto

theorem busy_wait_bounded_witness: "reads (snd (busy_poll demo_env 0 demo_world)) \<le> reads demo_world + 10000"
  using busy_wait_bounded [of 0 demo_env demo_world] by auto

section \<open>Cryptography\<close>

text \<open>C10: The hash of the code is SHA-256 of FIPS 180-4, with the constants derived from the roots of
  the first primes, for messages of every length.\<close>

theorem sha256_is_fips: "sha256_compute data = Some (fips_sha256 data)"
  by (rule sha256_compute_fips)

text \<open>C31: For a machine id file of 32 lower case hexadecimal digits, whatever follows them, the device hash is the
  SHA-256 of the sixteen bytes they denote.\<close>

theorem device_hash_of_machine_id:
  assumes "machine_id_file E = Some (concat (map hex2 bs) @ tail)" "length bs = 16"
  shows "compute_dev_hash E w = Some (upd_rn (\<lambda>r. r\<lparr>dev_hash := fips_sha256 bs, dev_hash_ready := True\<rparr>) w)"
  using assms by (rule compute_dev_hash_id)

theorem device_hash_of_machine_id_witness:
  "compute_dev_hash demo_env demo_world =
     Some (upd_rn (\<lambda>r. r\<lparr>dev_hash := fips_sha256 (replicate 16 0xAB), dev_hash_ready := True\<rparr>) demo_world)"
  by (rule device_hash_of_machine_id [of demo_env "replicate 16 0xAB" "[]"]) (simp_all add: demo_env_def)

section \<open>Threads below the level of turns\<close>

text \<open>C4: The transmit queue is safe under its two threads, interleaved access by access. For every schedule of \<^verbatim>\<open>queue_push\<close> and
  \<^verbatim>\<open>send_packet\<close> no null, freed or uninitialised pointer is followed; the packets sent are the packets linked, in
  order, with the rest still to send; and when both threads are idle the list is a well-formed queue of that rest.\<close>

theorem queue_threads_safe:
  "\<exists>s xs. schedule ts threads_init = Some s \<and> linked s = aired s @ xs
     \<and> (worker s = W_idle \<longrightarrow> pusher s = P_idle \<longrightarrow> queue_rep (shared s) xs)"
  by (rule queue_threads_sound)

theorem queue_threads_safe_witness:
  "\<exists>s. schedule (replicate 7 (Pusher_turn None [5])) threads_init = Some s \<and> worker s = W_idle \<and> pusher s = P_idle
     \<and> queue_rep (shared s) [[5]]"
  using queue_threads_safe [of "replicate 7 (Pusher_turn None [5])"]
  by (auto simp: numeral_nat threads_init_def queue_init_st_def pusher_turn_def Let_def)

text \<open>C21: The two threads of the queue do not block each other: from every state they can reach, at most five turns of \<^verbatim>\<open>queue_push\<close> and
  then turns of the worker alone send every packet, those pushed before and those linked in the meantime.\<close>

theorem queue_threads_drain:
  "\<exists>s m n s' ys. schedule ts threads_init = Some s \<and> m \<le> 5
     \<and> schedule (replicate m (Pusher_turn None []) @ replicate n (Worker_turn False)) s = Some s'
     \<and> worker s' = W_idle \<and> linked s' = linked s @ ys \<and> aired s' = linked s'"
proof -
  obtain s where "schedule ts threads_init = Some s" using queue_threads_sound [of ts] by blast
  with threads_drain [OF schedule_init [OF this]] show ?thesis by blast
qed

text \<open>C20: The output buffer has no lock, and answers of two threads mix. Whatever the interleaving of two calls of \<^verbatim>\<open>kiss_encode\<close>,
  the buffer is not overrun and two messages of the lengths of the frames go out, each byte from one of the frames at that place; but for every
  \<open>k\<close> there is an interleaving whose first message begins with \<open>k\<close> bytes of the one frame and goes on with the other.\<close>

theorem answers_can_mix:
  assumes "length (kiss_frame x) \<le> length out" "length (kiss_frame y) \<le> length out"
  shows "(\<forall>as\<in>shuffles (encode_acts x) (encode_acts y). \<exists>b m1 m2. run_acts as (out, []) = Some (b, [m1, m2])
      \<and> blend (kiss_frame x) (kiss_frame y) m1 \<and> blend (kiss_frame x) (kiss_frame y) m2)
    \<and> (\<forall>k\<le>min (length (kiss_frame x)) (length (kiss_frame y)). \<exists>as\<in>shuffles (encode_acts x) (encode_acts y). \<exists>b.
      run_acts as (out, []) = Some (b, [take k (kiss_frame y) @ drop k (kiss_frame x), kiss_frame y]))"
proof (intro conjI ballI allI impI)
  fix as assume "as \<in> shuffles (encode_acts x) (encode_acts y)"
  then show "\<exists>b m1 m2. run_acts as (out, []) = Some (b, [m1, m2])
      \<and> blend (kiss_frame x) (kiss_frame y) m1 \<and> blend (kiss_frame x) (kiss_frame y) m2"
    using answers_blend assms by blast
next
  fix k assume "k \<le> min (length (kiss_frame x)) (length (kiss_frame y))"
  then show "\<exists>as\<in>shuffles (encode_acts x) (encode_acts y). \<exists>b.
      run_acts as (out, []) = Some (b, [take k (kiss_frame y) @ drop k (kiss_frame x), kiss_frame y])"
    using answers_mix [OF assms, of k "[]"] by auto
qed

theorem answers_can_mix_witness:
  "\<exists>as\<in>shuffles (encode_acts [CMD_STAT_QUEUE, 0, 7]) (encode_acts [CMD_ERROR, ERROR_INITRADIO]). \<exists>b.
     run_acts as (replicate 1024 0, []) = Some (b, [kiss_frame [CMD_ERROR, 0, 7], kiss_frame [CMD_ERROR, ERROR_INITRADIO]])"
proof -
  have "length (kiss_frame [CMD_STAT_QUEUE, 0, 7]) \<le> length (replicate 1024 (0 :: u8))"
    "length (kiss_frame [CMD_ERROR, ERROR_INITRADIO]) \<le> length (replicate 1024 (0 :: u8))" by (simp_all add: kiss_frame_def)
  from answers_can_mix [OF this, THEN conjunct2, rule_format, of 2] show ?thesis by (simp add: kiss_frame_def)
qed

text \<open>C19: The antenna lines have no lock either. Two changes of the antenna one after the other never have both lines high, from any safe levels; but
  a thread that goes to transmit and one that goes to receive can interleave such that both lines end up high.\<close>

theorem antennas_can_collide:
  "(\<forall>st1 st2. trace_safe levels0 (ant_trace (ant_run True True (replicate 4 False @ replicate 4 True) (ant_start [] st st1 st2))))
   \<and> (\<exists>ts. let tr = ant_trace (ant_run True True ts (ant_start [] st SX126X_TX SX126X_RX_CONTINUOUS)) in
     levels tr TX_EN \<and> levels tr RX_EN)"
proof
  show "\<forall>st1 st2. trace_safe levels0 (ant_trace (ant_run True True (replicate 4 False @ replicate 4 True) (ant_start [] st st1 st2)))"
    unfolding ant_in_turn using ant_ops_safe by (simp add: levels0_def)
qed (use antenna_race [of st] in \<open>auto simp: Let_def\<close>)

text \<open>C14: The bus has a lock, and it does its work: however any number of threads interleave their transfers and their
  drives of the other lines, every thread's jobs are done in its order, and whenever the mutex is free the chip select and
  the transfers seen on the bus are whole transfers one after the other, in the order of the log.\<close>

theorem bus_transfers_stay_whole:
  assumes "\<forall>t. list_all bus_job_ok (jobs t)" and "s = bus_run ts (bus_start jobs)"
  shows "(spi_mutex s = None \<longrightarrow> filter is_cs (bus_trace s) = concat (map (framed \<circ> snd) (bus_log s)))
    \<and> (\<exists>js. map snd (filter (\<lambda>(u, j). u = t) (bus_log s)) @ js = jobs t)
    \<and> (\<forall>u. spi_mutex s = Some u \<longrightarrow> (\<exists>n\<le>4. spi_mutex (bus_run (replicate n u) s) = None))"
  using bus_transfers_whole [OF assms] bus_unlocks [OF bus_run_ok [OF bus_start_ok assms(1)]] unfolding assms(2) by blast

theorem bus_transfers_stay_whole_witness:
  "filter is_cs (bus_trace (bus_run [0, 0, 1, 0, 0, 0, 1] (bus_start (\<lambda>t. if t = 0 then [Message (Spi [0xC0])] else [Drive TX_EN False])))) =
     [Pin CS False, Spi [0xC0], Pin CS True]"
proof -
  let ?jobs = "\<lambda>t :: nat. if t = 0 then [Message (Spi [0xC0])] else [Drive TX_EN False]"
  have j: "\<forall>t. list_all bus_job_ok (?jobs t)" by simp
  have "spi_mutex (bus_run [0, 0, 1, 0, 0, 0, 1] (bus_start ?jobs)) = None"
    "map snd (bus_log (bus_run [0, 0, 1, 0, 0, 0, 1] (bus_start ?jobs))) = [Drive TX_EN False, Message (Spi [0xC0])]"
    by (simp_all add: bus_run_def bus_start_def bus_turn_def Let_def)
  then show ?thesis
    using bus_transfers_stay_whole [OF j refl, of "[0, 0, 1, 0, 0, 0, 1]", THEN conjunct1] by (simp flip: map_map)
qed

section \<open>The start\<close>

text \<open>C23: The daemon starts exactly when it is given one argument, the configuration loads, every library call for the bus and the six lines
  succeeds, and the socket is there, bound to the low sixteen bits of the configured port, and listens; in all other cases it exits with status one.\<close>

theorem start_succeeds_exactly:
  "if argc = 2 \<and> (\<exists>c. cyaml_load_file B (argv1 B) cyaml_config config_schema = Inr c \<and> 0 \<le> bind_ret B (ucast (cfg_tcp_port c)))
     \<and> spi_ok (spi_result B) \<and> (\<forall>l. gpio_ok (gpio_result B l)) \<and> socket_ret B \<noteq> 0 \<and> 0 \<le> listen_ret B
   then \<exists>b w. main_start E B argc = Inr (b, w) else main_start E B argc = Inl 1"
  using main_start_succeeds [of E B argc] main_start_Inl [of E B argc]
  by (cases "main_start E B argc") (auto simp: split_paired_Ex)

end
